(* ===== verification/Prelude.thy ===== *)
theory Prelude
  imports Main "HOL-Library.Word" "HOL-Library.Monad_Syntax" "HOL-Library.Multiset"
begin

text \<open>
  Shared vocabulary of the development: the Go machine integers the program uses as words, the
  partial slice and array operations of Go (an \<open>option\<close> whose \<open>None\<close> is a run-time panic), the
  two functions of \<open>encoding/binary\<close> the program calls, and the generic lemmas on them. A
  definition of type \<open>\<dots> \<Rightarrow> 'r option\<close> in this development returns \<open>None\<close> exactly where the Go
  code panics or never returns; an error value the code returns is part of \<open>'r\<close>.
\<close>

unbundle bit_operations_syntax

type_synonym u8 = "8 word"
type_synonym u16 = "16 word"
type_synonym u32 = "32 word"
type_synonym u64 = "64 word"
type_synonym bytes = "8 word list"
type_synonym go_error = "string option"

named_theorems go_defs "definitions of the partial Go operations"
named_theorems panic_free "operations that do not panic under their stated bounds"

section \<open>Panicking Go operations\<close>

text \<open>Reading and writing an element, slicing \<open>xs[lo:hi]\<close>, and \<open>%\<close>.\<close>

definition go_index :: "'a list \<Rightarrow> nat \<Rightarrow> 'a option" where
  [go_defs]: "go_index xs i = (if i < length xs then Some (xs ! i) else None)"

definition go_store :: "'a list \<Rightarrow> nat \<Rightarrow> 'a \<Rightarrow> 'a list option" where
  [go_defs]: "go_store xs i v = (if i < length xs then Some (xs[i := v]) else None)"

definition go_slice :: "'a list \<Rightarrow> nat \<Rightarrow> nat \<Rightarrow> 'a list option" where
  [go_defs]: "go_slice xs lo hi =
     (if lo \<le> hi \<and> hi \<le> length xs then Some (take (hi - lo) (drop lo xs)) else None)"

definition go_mod :: "nat \<Rightarrow> nat \<Rightarrow> nat option" where
  [go_defs]: "go_mod a b = (if b = 0 then None else Some (a mod b))"

text \<open>
  \<open>n := copy(dst[off:], src)\<close>: as many elements as fit, the rest of \<open>dst\<close> unchanged; the slice
  expression panics when \<open>off\<close> is past the end.
\<close>

definition go_copy :: "'a list \<Rightarrow> nat \<Rightarrow> 'a list \<Rightarrow> ('a list \<times> nat) option" where
  [go_defs]: "go_copy dst off src =
     (if off \<le> length dst then
        let n = min (length dst - off) (length src)
        in Some (take off dst @ take n src @ drop (off + n) dst, n)
      else None)"

lemma go_index_Some [panic_free]: "i < length xs \<Longrightarrow> go_index xs i = Some (xs ! i)"
  by (simp add: go_defs)

lemma go_store_Some [panic_free]: "i < length xs \<Longrightarrow> go_store xs i v = Some (xs[i := v])"
  by (simp add: go_defs)

lemma go_slice_Some [panic_free]:
  "lo \<le> hi \<Longrightarrow> hi \<le> length xs \<Longrightarrow> go_slice xs lo hi = Some (take (hi - lo) (drop lo xs))"
  by (simp add: go_defs)

lemma go_mod_Some [panic_free]: "0 < b \<Longrightarrow> go_mod a b = Some (a mod b)"
  by (simp add: go_defs)

lemma go_copy_Some [panic_free]:
  "off + length src \<le> length dst \<Longrightarrow>
   go_copy dst off src = Some (take off dst @ src @ drop (off + length src) dst, length src)"
  by (auto simp: go_defs Let_def min_def)

section \<open>Optional results\<close>

lemma option_eqI: "(\<And>y. x = Some y \<longleftrightarrow> z = Some y) \<Longrightarrow> x = z"
  by (cases x; cases z) auto

declare Option.bind_eq_Some_conv [simp]

section \<open>Big-endian integers of encoding/binary\<close>

text \<open>\<open>PutUint32\<close> yields the four bytes written; \<open>Uint32\<close> panics on fewer than four.\<close>

definition PutUint32 :: "u32 \<Rightarrow> bytes" where
  "PutUint32 v = [ucast (drop_bit 24 v), ucast (drop_bit 16 v), ucast (drop_bit 8 v), ucast v]"

definition Uint32 :: "bytes \<Rightarrow> u32 option" where
  "Uint32 b = (if length b < 4 then None else
     Some (ucast (b ! 3) OR push_bit 8 (ucast (b ! 2)) OR push_bit 16 (ucast (b ! 1))
           OR push_bit 24 (ucast (b ! 0))))"

lemma length_PutUint32 [simp]: "length (PutUint32 v) = 4"
  by (simp add: PutUint32_def)

lemma Uint32_PutUint32 [simp]: "Uint32 (PutUint32 v) = Some v"
proof -
  have "ucast (ucast v :: u8) OR push_bit 8 (ucast (ucast (drop_bit 8 v) :: u8)) OR
        push_bit 16 (ucast (ucast (drop_bit 16 v) :: u8)) OR
        push_bit 24 (ucast (ucast (drop_bit 24 v) :: u8)) = v"
  proof (rule bit_word_eqI)
    fix n assume "n < LENGTH(32)"
    then show "bit (ucast (ucast v :: u8) OR push_bit 8 (ucast (ucast (drop_bit 8 v) :: u8)) OR
        push_bit 16 (ucast (ucast (drop_bit 16 v) :: u8)) OR
        push_bit 24 (ucast (ucast (drop_bit 24 v) :: u8)) :: u32) n = bit v n"
      by (cases "24 \<le> n"; cases "16 \<le> n") (auto simp: bit_simps)
  qed
  then show ?thesis
    by (simp add: Uint32_def PutUint32_def numeral_2_eq_2 numeral_3_eq_3)
qed

lemma Uint32_append: "4 \<le> length b \<Longrightarrow> Uint32 (b @ c) = Uint32 b"
  by (auto simp: Uint32_def nth_append)

lemma Uint32_None_iff: "Uint32 b = None \<longleftrightarrow> length b < 4"
  by (simp add: Uint32_def)

section \<open>Lists\<close>

lemma nth_append_drop: "i < length xs \<Longrightarrow> drop i xs = xs ! i # drop (Suc i) xs"
  by (simp add: Cons_nth_drop_Suc)

lemma map_upt_shift: "map f [a..<a + n] = map (\<lambda>i. f (a + i)) [0..<n]"
  by (rule nth_equalityI) auto

lemma upt_split: "m \<le> n \<Longrightarrow> [0..<n] = [0..<m] @ [m..<n]"
  using upt_add_eq_append [of 0 m "n - m"] by simp

lemma mset_eq_set_eq: "mset xs = mset ys \<Longrightarrow> set xs = set ys"
  by (metis set_mset_mset)

end
