(* ===== verification/Ring_Buffer.thy ===== *)
theory Ring_Buffer
  imports Prelude
begin

text \<open>
  \<open>RingBuffer[T]\<close> of \<open>engine/queue/imp/ring/ring_buffer.go\<close>: the growable circular buffer under
  the queue. Every method is one definition on the record; index, slice and modulo operations that
  could panic are the partial ones of \<open>Prelude\<close>. The lemmas show that under the invariant
  \<open>rb_inv\<close> no method panics, that each keeps the invariant, and that the buffer refines a list
  (\<open>rb_list\<close>): pushing appends, popping takes the head, growing changes nothing. Go's \<open>int\<close>
  fields are natural numbers: they count elements in memory and are never negative.
\<close>

record 'a RingBuffer =
  rb_buffer :: "'a list"
  rb_size :: nat
  rb_head :: nat
  rb_tail :: nat
  rb_count :: nat
  rb_zero :: 'a

text \<open>The argument \<open>z\<close> is the zero value of the element type \<open>T\<close>.\<close>

definition NewRingBuffer :: "'a \<Rightarrow> int \<Rightarrow> 'a RingBuffer option" where
  "NewRingBuffer z n =
     (if n \<le> 0 then None
      else Some \<lparr>rb_buffer = replicate (nat n) z, rb_size = nat n, rb_head = 0, rb_tail = 0,
                 rb_count = 0, rb_zero = z\<rparr>)"

definition IsEmpty :: "'a RingBuffer \<Rightarrow> bool" where
  "IsEmpty rb \<longleftrightarrow> rb_count rb = 0"

definition IsFull :: "'a RingBuffer \<Rightarrow> bool" where
  "IsFull rb \<longleftrightarrow> rb_count rb = rb_size rb"

definition Size :: "'a RingBuffer \<Rightarrow> nat" where
  "Size rb = rb_size rb"

definition Count :: "'a RingBuffer \<Rightarrow> nat" where
  "Count rb = rb_count rb"

definition Clear :: "'a RingBuffer \<Rightarrow> 'a RingBuffer" where
  "Clear rb = rb\<lparr>rb_head := 0, rb_tail := 0, rb_count := 0\<rparr>"

text \<open>The doubling step, which \<open>Push\<close> and \<open>PushBatch\<close> both contain.\<close>

definition rb_grow :: "'a RingBuffer \<Rightarrow> 'a RingBuffer option" where
  "rb_grow rb =
     (let newSize = rb_size rb * 2;
          newBuffer = replicate newSize (rb_zero rb)
      in do {
        newBuffer \<leftarrow>
          (if rb_head rb < rb_tail rb then do {
             s \<leftarrow> go_slice (rb_buffer rb) (rb_head rb) (rb_tail rb);
             (b, _) \<leftarrow> go_copy newBuffer 0 s;
             Some b }
           else do {
             s \<leftarrow> go_slice (rb_buffer rb) (rb_head rb) (rb_size rb);
             (b, n) \<leftarrow> go_copy newBuffer 0 s;
             s' \<leftarrow> go_slice (rb_buffer rb) 0 (rb_tail rb);
             (b', _) \<leftarrow> go_copy b n s';
             Some b' });
        Some (rb\<lparr>rb_buffer := newBuffer, rb_size := newSize, rb_head := 0,
                 rb_tail := rb_count rb\<rparr>) })"

text \<open>The three statements that store one element at the tail.\<close>

definition rb_put :: "'a \<Rightarrow> 'a RingBuffer \<Rightarrow> 'a RingBuffer option" where
  "rb_put value rb = do {
     b \<leftarrow> go_store (rb_buffer rb) (rb_tail rb) value;
     t \<leftarrow> go_mod (rb_tail rb + 1) (rb_size rb);
     Some (rb\<lparr>rb_buffer := b, rb_tail := t, rb_count := rb_count rb + 1\<rparr>) }"

definition Push :: "'a \<Rightarrow> 'a RingBuffer \<Rightarrow> 'a RingBuffer option" where
  "Push value rb = do {
     rb \<leftarrow> (if IsFull rb then rb_grow rb else Some rb);
     rb_put value rb }"

text \<open>\<open>PushBatch\<close>: the loop that makes room, then the loop that stores.\<close>

partial_function (option) rb_reserve :: "nat \<Rightarrow> 'a RingBuffer \<Rightarrow> 'a RingBuffer option" where
  "rb_reserve n rb =
     (if rb_size rb - rb_count rb < n then Option.bind (rb_grow rb) (rb_reserve n) else Some rb)"

fun rb_put_all :: "'a list \<Rightarrow> 'a RingBuffer \<Rightarrow> 'a RingBuffer option" where
  "rb_put_all [] rb = Some rb"
| "rb_put_all (value # values) rb = do { rb \<leftarrow> rb_put value rb; rb_put_all values rb }"

definition PushBatch :: "'a list \<Rightarrow> 'a RingBuffer \<Rightarrow> 'a RingBuffer option" where
  "PushBatch values rb =
     (let n = length values in
      if n = 0 then Some rb
      else do { rb \<leftarrow> rb_reserve n rb; rb_put_all values rb })"

definition Pop :: "'a RingBuffer \<Rightarrow> (('a \<times> bool) \<times> 'a RingBuffer) option" where
  "Pop rb =
     (if IsEmpty rb then Some ((rb_zero rb, False), rb)
      else do {
        value \<leftarrow> go_index (rb_buffer rb) (rb_head rb);
        b \<leftarrow> go_store (rb_buffer rb) (rb_head rb) (rb_zero rb);
        h \<leftarrow> go_mod (rb_head rb + 1) (rb_size rb);
        Some ((value, True), rb\<lparr>rb_buffer := b, rb_head := h, rb_count := rb_count rb - 1\<rparr>) })"

definition Peek :: "'a RingBuffer \<Rightarrow> ('a \<times> bool) option" where
  "Peek rb =
     (if IsEmpty rb then Some (rb_zero rb, False)
      else do { v \<leftarrow> go_index (rb_buffer rb) (rb_head rb); Some (v, True) })"

text \<open>
  The loops of \<open>PopAll\<close> and \<open>GetAll\<close> run \<open>i\<close> from 0 to \<open>rb.count\<close>, which they do not change;
  \<open>k\<close> is the number of rounds left, \<open>i = rb.count - k\<close>.
\<close>

fun rb_pop_loop :: "nat \<Rightarrow> 'a list \<Rightarrow> 'a RingBuffer \<Rightarrow> ('a list \<times> 'a RingBuffer) option" where
  "rb_pop_loop 0 result rb = Some (result, rb)"
| "rb_pop_loop (Suc k) result rb =
     (let i = rb_count rb - Suc k in do {
        index \<leftarrow> go_mod (rb_head rb + i) (rb_size rb);
        v \<leftarrow> go_index (rb_buffer rb) index;
        result \<leftarrow> go_store result i v;
        b \<leftarrow> go_store (rb_buffer rb) index (rb_zero rb);
        rb_pop_loop k result (rb\<lparr>rb_buffer := b\<rparr>) })"

definition PopAll :: "'a RingBuffer \<Rightarrow> ('a list \<times> 'a RingBuffer) option" where
  "PopAll rb =
     (if IsEmpty rb then Some ([], rb)
      else do {
        (result, rb) \<leftarrow> rb_pop_loop (rb_count rb) (replicate (rb_count rb) (rb_zero rb)) rb;
        Some (result, rb\<lparr>rb_head := 0, rb_tail := 0, rb_count := 0\<rparr>) })"

fun rb_get_loop :: "nat \<Rightarrow> 'a list \<Rightarrow> 'a RingBuffer \<Rightarrow> 'a list option" where
  "rb_get_loop 0 result rb = Some result"
| "rb_get_loop (Suc k) result rb =
     (let i = rb_count rb - Suc k in do {
        index \<leftarrow> go_mod (rb_head rb + i) (rb_size rb);
        v \<leftarrow> go_index (rb_buffer rb) index;
        result \<leftarrow> go_store result i v;
        rb_get_loop k result rb })"

definition GetAll :: "'a RingBuffer \<Rightarrow> 'a list option" where
  "GetAll rb =
     (if IsEmpty rb then Some []
      else rb_get_loop (rb_count rb) (replicate (rb_count rb) (rb_zero rb)) rb)"


section \<open>Invariant and abstraction\<close>

definition rb_inv :: "'a RingBuffer \<Rightarrow> bool" where
  "rb_inv rb \<longleftrightarrow> length (rb_buffer rb) = rb_size rb \<and> 0 < rb_size rb \<and> rb_head rb < rb_size rb \<and>
     rb_count rb \<le> rb_size rb \<and> rb_tail rb = (rb_head rb + rb_count rb) mod rb_size rb"

definition rb_slot :: "'a RingBuffer \<Rightarrow> nat \<Rightarrow> nat" where
  "rb_slot rb i = (rb_head rb + i) mod rb_size rb"

text \<open>The elements from head to tail: the abstract list the buffer stands for.\<close>

definition rb_list :: "'a RingBuffer \<Rightarrow> 'a list" where
  "rb_list rb = map (\<lambda>i. rb_buffer rb ! rb_slot rb i) [0..<rb_count rb]"

lemma length_rb_list [simp]: "length (rb_list rb) = rb_count rb"
  by (simp add: rb_list_def)

lemma nth_rb_list: "i < rb_count rb \<Longrightarrow> rb_list rb ! i = rb_buffer rb ! rb_slot rb i"
  by (simp add: rb_list_def)

lemma rb_slot_less: "rb_inv rb \<Longrightarrow> rb_slot rb i < rb_size rb"
  by (simp add: rb_slot_def rb_inv_def)

lemma rb_slot_0: "rb_inv rb \<Longrightarrow> rb_slot rb 0 = rb_head rb"
  by (simp add: rb_slot_def rb_inv_def)

lemma rb_tail_slot: "rb_inv rb \<Longrightarrow> rb_tail rb = rb_slot rb (rb_count rb)"
  by (simp add: rb_slot_def rb_inv_def)

text \<open>Distinct logical positions live in distinct slots.\<close>

lemma mod_add_left_inj:
  fixes h i j n :: nat
  assumes "i < n" and "j < n" and "(h + i) mod n = (h + j) mod n"
  shows "i = j"
proof -
  have *: "i = j" if "i \<le> j" and "j < n" and "(h + i) mod n = (h + j) mod n" for i j
  proof -
    have "n dvd (h + j) - (h + i)"
      using that(1,3) mod_eq_dvd_iff_nat [of "h + i" "h + j" n] by simp
    then have "n dvd j - i" by simp
    moreover have "j - i < n" using that(2) by simp
    ultimately have "j - i = 0" by (auto dest: nat_dvd_not_less)
    with that(1) show ?thesis by simp
  qed
  show ?thesis
    using * [of i j] * [of j i] assms by (cases "i \<le> j") auto
qed

lemma mod_wrap: "n \<le> a \<Longrightarrow> a < 2 * n \<Longrightarrow> a mod n = a - (n :: nat)"
  by (simp add: le_mod_geq)

lemma rb_slot_inj:
  "rb_slot rb i = rb_slot rb j \<Longrightarrow> i < rb_size rb \<Longrightarrow> j < rb_size rb \<Longrightarrow> i = j"
  unfolding rb_slot_def by (rule mod_add_left_inj)

lemma NewRingBuffer_inv: "NewRingBuffer z n = Some rb \<Longrightarrow> rb_inv rb \<and> rb_list rb = []"
  by (auto simp: NewRingBuffer_def rb_inv_def rb_list_def split: if_splits)

lemma NewRingBuffer_panics_iff: "NewRingBuffer z n = None \<longleftrightarrow> n \<le> 0"
  by (simp add: NewRingBuffer_def)

lemma IsEmpty_iff: "IsEmpty rb \<longleftrightarrow> rb_list rb = []"
  by (simp add: IsEmpty_def rb_list_def)

lemma Clear_spec: "rb_inv rb \<Longrightarrow> rb_inv (Clear rb) \<and> rb_list (Clear rb) = []"
  by (simp add: Clear_def rb_inv_def rb_list_def)

section \<open>Growing\<close>

text \<open>
  The two copies lay the elements out from slot 0: first the run from head to the end of the
  array, then the run that wrapped around.
\<close>

lemma ring_contiguous:
  assumes "length xs = n" and "h + c \<le> n"
  shows "map (\<lambda>i. xs ! ((h + i) mod n)) [0..<c] = take c (drop h xs)"
  using assms by (intro nth_equalityI) auto

lemma ring_wrapped:
  assumes "length xs = n" and "h < n" and "n \<le> h + c" and "c \<le> n"
  shows "map (\<lambda>i. xs ! ((h + i) mod n)) [0..<c] = drop h xs @ take (h + c - n) xs"
proof (rule nth_equalityI)
  fix i assume "i < length (map (\<lambda>i. xs ! ((h + i) mod n)) [0..<c])"
  then have i: "i < c" by simp
  show "map (\<lambda>i. xs ! ((h + i) mod n)) [0..<c] ! i = (drop h xs @ take (h + c - n) xs) ! i"
  proof (cases "h + i < n")
    case True
    then have "i < n - h" by linarith
    with True i assms show ?thesis by (simp add: nth_append)
  next
    case False
    then have "(h + i) mod n = i - (n - h)" and "\<not> i < n - h"
      using i assms by (auto simp: mod_wrap)
    with i assms show ?thesis by (simp add: nth_append)
  qed
qed (use assms in simp)

lemma rb_inv_cases:
  assumes "rb_inv rb"
  obtains (contiguous) "rb_head rb + rb_count rb < rb_size rb"
      "rb_tail rb = rb_head rb + rb_count rb"
      "rb_list rb = take (rb_count rb) (drop (rb_head rb) (rb_buffer rb))"
  | (wrapped) "rb_size rb \<le> rb_head rb + rb_count rb" "rb_tail rb \<le> rb_head rb"
      "rb_tail rb = rb_head rb + rb_count rb - rb_size rb"
      "rb_list rb = drop (rb_head rb) (rb_buffer rb) @ take (rb_tail rb) (rb_buffer rb)"
proof (cases "rb_head rb + rb_count rb < rb_size rb")
  case True
  with assms show ?thesis
    by (intro contiguous) (auto simp: rb_inv_def rb_list_def rb_slot_def ring_contiguous)
next
  case False
  with assms have "rb_tail rb = rb_head rb + rb_count rb - rb_size rb"
    by (auto simp: rb_inv_def mod_wrap)
  with False assms show ?thesis
    by (intro wrapped) (auto simp: rb_inv_def rb_list_def rb_slot_def ring_wrapped)
qed

lemma rb_list_flat:
  assumes "rb_head rb = 0" and "rb_count rb \<le> rb_size rb" and "length (rb_buffer rb) = rb_size rb"
  shows "rb_list rb = take (rb_count rb) (rb_buffer rb)"
  using assms ring_contiguous [of "rb_buffer rb" "rb_size rb" 0 "rb_count rb"]
  by (simp add: rb_list_def rb_slot_def)

text \<open>Whatever the layout, growing copies exactly the abstract list to the front of the new array.\<close>

lemma rb_grow_spec:
  assumes "rb_inv rb"
  shows "\<exists>rb'. rb_grow rb = Some rb' \<and> rb_inv rb' \<and> rb_list rb' = rb_list rb \<and>
           rb_size rb' = 2 * rb_size rb \<and> rb_count rb' = rb_count rb \<and> rb_zero rb' = rb_zero rb"
proof -
  have inv: "length (rb_buffer rb) = rb_size rb" "0 < rb_size rb" "rb_head rb < rb_size rb"
    "rb_count rb \<le> rb_size rb"
    using assms by (auto simp: rb_inv_def)
  obtain b where b: "rb_grow rb = Some (rb\<lparr>rb_buffer := b, rb_size := rb_size rb * 2,
        rb_head := 0, rb_tail := rb_count rb\<rparr>)"
      and len: "length b = rb_size rb * 2" and take: "take (rb_count rb) b = rb_list rb"
    using assms
  proof (cases rule: rb_inv_cases)
    case contiguous
    show ?thesis
    proof (cases "rb_count rb = 0")
      case True
      with contiguous inv show ?thesis
        by (intro that [of "drop (rb_head rb) (rb_buffer rb) @ take (rb_head rb) (rb_buffer rb) @
            replicate (rb_size rb) (rb_zero rb)"])
          (simp_all add: rb_grow_def Let_def go_slice_Some go_copy_Some)
    next
      case False
      with contiguous inv show ?thesis
        by (intro that [of "rb_list rb @ replicate (rb_size rb * 2 - rb_count rb) (rb_zero rb)"])
          (simp_all add: rb_grow_def Let_def go_slice_Some go_copy_Some)
    qed
  next
    case wrapped
    with inv have "rb_count rb = rb_size rb - rb_head rb + rb_tail rb" by linarith
    with wrapped(2,4) inv show ?thesis
      by (intro that [of "rb_list rb @ replicate (rb_size rb * 2 - rb_count rb) (rb_zero rb)"])
        (simp_all add: rb_grow_def Let_def go_slice_Some go_copy_Some)
  qed
  let ?rb' = "rb\<lparr>rb_buffer := b, rb_size := rb_size rb * 2, rb_head := 0, rb_tail := rb_count rb\<rparr>"
  have "rb_list ?rb' = rb_list rb"
    using inv len take by (subst rb_list_flat) auto
  moreover have "rb_inv ?rb'"
    using inv len by (simp add: rb_inv_def)
  ultimately show ?thesis using b by auto
qed


section \<open>Pushing\<close>

lemma rb_put_spec:
  assumes "rb_inv rb" and "rb_count rb < rb_size rb"
  shows "\<exists>rb'. rb_put v rb = Some rb' \<and> rb_inv rb' \<and> rb_list rb' = rb_list rb @ [v] \<and>
           rb_size rb' = rb_size rb \<and> rb_count rb' = Suc (rb_count rb) \<and> rb_zero rb' = rb_zero rb"
proof -
  let ?rb' = "rb\<lparr>rb_buffer := (rb_buffer rb)[rb_tail rb := v],
                 rb_tail := (rb_tail rb + 1) mod rb_size rb, rb_count := rb_count rb + 1\<rparr>"
  have tail: "rb_tail rb < rb_size rb" and len: "length (rb_buffer rb) = rb_size rb"
    using assms(1) by (auto simp: rb_inv_def)
  have "rb_put v rb = Some ?rb'"
    using assms(1) tail len by (simp add: rb_put_def go_store_Some go_mod_Some rb_inv_def)
  moreover have "rb_inv ?rb'"
    using assms by (auto simp: rb_inv_def mod_simps)
  moreover have "rb_list ?rb' = rb_list rb @ [v]"
  proof -
    have "rb_tail rb \<noteq> rb_slot rb i" if "i < rb_count rb" for i
      using that assms rb_slot_inj [of rb i "rb_count rb"] by (auto simp: rb_tail_slot)
    moreover have "rb_slot rb (rb_count rb) = rb_tail rb"
      using assms(1) by (simp add: rb_tail_slot)
    ultimately show ?thesis
      using tail len by (auto simp: rb_list_def rb_slot_def)
  qed
  ultimately show ?thesis by auto
qed

lemma Push_spec:
  assumes "rb_inv rb"
  shows "\<exists>rb'. Push v rb = Some rb' \<and> rb_inv rb' \<and> rb_list rb' = rb_list rb @ [v] \<and>
           rb_size rb' = (if IsFull rb then 2 * rb_size rb else rb_size rb) \<and>
           rb_zero rb' = rb_zero rb"
proof (cases "IsFull rb")
  case True
  obtain g where g: "rb_grow rb = Some g" "rb_inv g" "rb_list g = rb_list rb"
    "rb_size g = 2 * rb_size rb" "rb_count g = rb_count rb" "rb_zero g = rb_zero rb"
    using rb_grow_spec [OF assms] by blast
  with True assms have "rb_count g < rb_size g" by (simp add: IsFull_def rb_inv_def)
  with g True rb_put_spec [of g v] show ?thesis by (auto simp: Push_def)
next
  case False
  with assms have "rb_count rb < rb_size rb" by (auto simp: IsFull_def rb_inv_def)
  with False assms rb_put_spec [of rb v] show ?thesis by (auto simp: Push_def)
qed

text \<open>
  The doubling loop of \<open>PushBatch\<close> returns: each round adds at least one free slot, so the
  shortfall \<open>n - (size - count)\<close> falls.
\<close>

lemma rb_reserve_spec:
  assumes "rb_inv rb"
  shows "\<exists>rb'. rb_reserve n rb = Some rb' \<and> rb_inv rb' \<and> rb_list rb' = rb_list rb \<and>
           rb_count rb' + n \<le> rb_size rb' \<and> rb_zero rb' = rb_zero rb"
  using assms
proof (induction "n - (rb_size rb - rb_count rb)" arbitrary: rb rule: less_induct)
  case less
  show ?case
  proof (cases "rb_size rb - rb_count rb < n")
    case True
    obtain g where g: "rb_grow rb = Some g" "rb_inv g" "rb_list g = rb_list rb"
      "rb_size g = 2 * rb_size rb" "rb_count g = rb_count rb" "rb_zero g = rb_zero rb"
      using rb_grow_spec [OF less.prems] by blast
    have "n - (rb_size g - rb_count g) < n - (rb_size rb - rb_count rb)"
      using True g less.prems by (auto simp: rb_inv_def)
    from less.hyps [OF this \<open>rb_inv g\<close>] True g show ?thesis
      by (subst rb_reserve.simps) auto
  next
    case False
    moreover have "rb_count rb \<le> rb_size rb" using less.prems by (simp add: rb_inv_def)
    ultimately show ?thesis
      using less.prems by (subst rb_reserve.simps) auto
  qed
qed

lemma rb_put_all_spec:
  assumes "rb_inv rb" and "rb_count rb + length vs \<le> rb_size rb"
  shows "\<exists>rb'. rb_put_all vs rb = Some rb' \<and> rb_inv rb' \<and> rb_list rb' = rb_list rb @ vs \<and>
           rb_zero rb' = rb_zero rb"
  using assms
proof (induction vs arbitrary: rb)
  case Nil
  then show ?case by simp
next
  case (Cons v vs)
  then obtain r where r: "rb_put v rb = Some r" "rb_inv r" "rb_list r = rb_list rb @ [v]"
    "rb_size r = rb_size rb" "rb_count r = Suc (rb_count rb)" "rb_zero r = rb_zero rb"
    using rb_put_spec [of rb v] by auto
  with Cons.prems Cons.IH [of r] show ?case by auto
qed

lemma PushBatch_spec:
  assumes "rb_inv rb"
  shows "\<exists>rb'. PushBatch vs rb = Some rb' \<and> rb_inv rb' \<and> rb_list rb' = rb_list rb @ vs \<and>
           rb_zero rb' = rb_zero rb"
proof (cases "vs = []")
  case True
  with assms show ?thesis by (simp add: PushBatch_def)
next
  case False
  obtain r where r: "rb_reserve (length vs) rb = Some r" "rb_inv r" "rb_list r = rb_list rb"
    "rb_count r + length vs \<le> rb_size r" "rb_zero r = rb_zero rb"
    using rb_reserve_spec [OF assms, of "length vs"] by auto
  with False rb_put_all_spec [of r vs] show ?thesis by (auto simp: PushBatch_def)
qed

section \<open>Popping\<close>

lemma Pop_empty: "rb_list rb = [] \<Longrightarrow> Pop rb = Some ((rb_zero rb, False), rb)"
  by (simp add: Pop_def IsEmpty_iff)

lemma Pop_spec:
  assumes "rb_inv rb" and "rb_list rb = v # vs"
  shows "\<exists>rb'. Pop rb = Some ((v, True), rb') \<and> rb_inv rb' \<and> rb_list rb' = vs \<and>
           rb_zero rb' = rb_zero rb"
proof -
  have len: "length (rb_buffer rb) = rb_size rb" and head: "rb_head rb < rb_size rb"
    using assms(1) by (auto simp: rb_inv_def)
  have cnt: "rb_count rb = Suc (length vs)"
    using assms(2) length_rb_list [of rb] by simp
  let ?rb' = "rb\<lparr>rb_buffer := (rb_buffer rb)[rb_head rb := rb_zero rb],
                 rb_head := (rb_head rb + 1) mod rb_size rb, rb_count := rb_count rb - 1\<rparr>"
  have "rb_buffer rb ! rb_head rb = v"
    using nth_rb_list [of 0 rb] assms cnt by (simp add: rb_slot_0)
  then have "Pop rb = Some ((v, True), ?rb')"
    using len head cnt by (simp add: Pop_def IsEmpty_def go_index_Some go_store_Some go_mod_Some)
  moreover have "rb_inv ?rb'"
    using assms(1) cnt by (auto simp: rb_inv_def mod_simps)
  moreover have "rb_list ?rb' = vs"
  proof (rule nth_equalityI)
    show "length (rb_list ?rb') = length vs" using cnt by simp
  next
    fix i assume "i < length (rb_list ?rb')"
    then have i: "i < length vs" using cnt by simp
    have "rb_count rb \<le> rb_size rb" using assms(1) by (simp add: rb_inv_def)
    with i cnt have "rb_slot rb (Suc i) \<noteq> rb_slot rb 0"
      using rb_slot_inj [of rb "Suc i" 0] by auto
    then have "rb_head rb \<noteq> rb_slot rb (Suc i)" using assms(1) by (simp add: rb_slot_0)
    moreover have "rb_slot ?rb' i = rb_slot rb (Suc i)" by (simp add: rb_slot_def mod_simps)
    ultimately have "rb_list ?rb' ! i = rb_buffer rb ! rb_slot rb (Suc i)"
      using i cnt by (simp add: nth_rb_list)
    also have "\<dots> = vs ! i"
      using i cnt assms(2) nth_rb_list [of "Suc i" rb] by simp
    finally show "rb_list ?rb' ! i = vs ! i" .
  qed
  ultimately show ?thesis by auto
qed

lemma Peek_spec:
  assumes "rb_inv rb"
  shows "Peek rb = Some (case rb_list rb of [] \<Rightarrow> (rb_zero rb, False) | v # _ \<Rightarrow> (v, True))"
proof (cases "rb_list rb")
  case Nil
  then show ?thesis by (simp add: Peek_def IsEmpty_iff)
next
  case (Cons v vs)
  then have "0 < rb_count rb" using length_rb_list [of rb] by simp
  with Cons assms nth_rb_list [of 0 rb] show ?thesis
    by (simp add: Peek_def IsEmpty_iff go_index_Some rb_slot_0 rb_inv_def)
qed


text \<open>
  Round \<open>i\<close> of \<open>PopAll\<close> reads slot \<open>i\<close> and clears it; the slots of later rounds are not touched.
\<close>

lemma rb_pop_loop_spec:
  assumes "rb_inv rb" and "k \<le> rb_count rb" and "length result = rb_count rb"
  shows "\<exists>b. rb_pop_loop k result rb =
           Some (take (rb_count rb - k) result @ drop (rb_count rb - k) (rb_list rb),
                 rb\<lparr>rb_buffer := b\<rparr>) \<and> length b = rb_size rb"
  using assms
proof (induction k arbitrary: result rb)
  case 0
  then show ?case by (intro exI [of _ "rb_buffer rb"]) (simp add: rb_inv_def)
next
  case (Suc k)
  let ?i = "rb_count rb - Suc k"
  let ?s = "rb_slot rb ?i"
  let ?r = "rb\<lparr>rb_buffer := (rb_buffer rb)[?s := rb_zero rb]\<rparr>"
  let ?res = "result[?i := rb_list rb ! ?i]"
  have i: "?i < rb_count rb" and Suc_i: "rb_count rb - k = Suc ?i"
    using Suc.prems(2) by auto
  have s: "?s < rb_size rb" "?s < length (rb_buffer rb)" "0 < rb_size rb"
    using Suc.prems(1) rb_slot_less [of rb ?i] by (auto simp: rb_inv_def)
  have step: "rb_pop_loop (Suc k) result rb = rb_pop_loop k ?res ?r"
    using s i Suc.prems(3)
    by (simp add: Let_def go_mod_Some go_index_Some go_store_Some rb_slot_def nth_rb_list)
  have inv: "rb_inv ?r" using Suc.prems(1) by (simp add: rb_inv_def)
  have later: "drop (Suc ?i) (rb_list ?r) = drop (Suc ?i) (rb_list rb)"
  proof (rule nth_equalityI)
    fix j assume "j < length (drop (Suc ?i) (rb_list ?r))"
    then have j: "Suc ?i + j < rb_count rb" by simp
    moreover have "rb_count rb \<le> rb_size rb" using Suc.prems(1) by (simp add: rb_inv_def)
    ultimately have "?s \<noteq> rb_slot rb (Suc ?i + j)"
      using rb_slot_inj [of rb ?i "Suc ?i + j"] by auto
    moreover have "rb_slot ?r (Suc ?i + j) = rb_slot rb (Suc ?i + j)" by (simp add: rb_slot_def)
    ultimately show "drop (Suc ?i) (rb_list ?r) ! j = drop (Suc ?i) (rb_list rb) ! j"
      using j by (simp add: nth_rb_list)
  qed simp
  have glue: "take (Suc ?i) ?res @ drop (Suc ?i) (rb_list rb) =
        take ?i result @ drop ?i (rb_list rb)"
    using i Suc.prems(3) by (simp add: take_Suc_conv_app_nth Cons_nth_drop_Suc)
  obtain b where b: "rb_pop_loop k ?res ?r =
      Some (take (rb_count rb - k) ?res @ drop (rb_count rb - k) (rb_list ?r), rb\<lparr>rb_buffer := b\<rparr>)"
    and len: "length b = rb_size rb"
    using Suc.IH [OF inv, of ?res] Suc.prems by auto
  have "rb_pop_loop (Suc k) result rb =
      Some (take ?i result @ drop ?i (rb_list rb), rb\<lparr>rb_buffer := b\<rparr>)"
    unfolding step b Suc_i later glue ..
  with len show ?case by blast
qed

lemma PopAll_spec:
  assumes "rb_inv rb"
  shows "\<exists>rb'. PopAll rb = Some (rb_list rb, rb') \<and> rb_inv rb' \<and> rb_list rb' = [] \<and>
           rb_zero rb' = rb_zero rb"
proof (cases "rb_list rb = []")
  case True
  with assms show ?thesis by (simp add: PopAll_def IsEmpty_iff)
next
  case False
  obtain b where b: "rb_pop_loop (rb_count rb) (replicate (rb_count rb) (rb_zero rb)) rb =
      Some (rb_list rb, rb\<lparr>rb_buffer := b\<rparr>)" and "length b = rb_size rb"
    using rb_pop_loop_spec [OF assms order_refl, of "replicate (rb_count rb) (rb_zero rb)"] by auto
  with False assms show ?thesis
    by (auto simp: PopAll_def IsEmpty_iff rb_inv_def rb_list_def)
qed

lemma rb_get_loop_spec:
  assumes "rb_inv rb" and "k \<le> rb_count rb" and "length result = rb_count rb"
  shows "rb_get_loop k result rb =
           Some (take (rb_count rb - k) result @ drop (rb_count rb - k) (rb_list rb))"
  using assms
proof (induction k arbitrary: result)
  case 0
  then show ?case by simp
next
  case (Suc k)
  let ?i = "rb_count rb - Suc k"
  let ?res = "result[?i := rb_list rb ! ?i]"
  have i: "?i < rb_count rb" and Suc_i: "rb_count rb - k = Suc ?i"
    using Suc.prems(2) by auto
  have s: "rb_slot rb ?i < length (rb_buffer rb)" "0 < rb_size rb"
    using Suc.prems(1) rb_slot_less [of rb ?i] by (auto simp: rb_inv_def)
  have "rb_get_loop (Suc k) result rb = rb_get_loop k ?res rb"
    using s i Suc.prems(3)
    by (simp add: Let_def go_mod_Some go_index_Some go_store_Some rb_slot_def nth_rb_list)
  moreover have "take (Suc ?i) ?res @ drop (Suc ?i) (rb_list rb) =
        take ?i result @ drop ?i (rb_list rb)"
    using i Suc.prems(3) by (simp add: take_Suc_conv_app_nth Cons_nth_drop_Suc)
  ultimately show ?case
    using Suc.IH [of ?res] Suc.prems Suc_i by simp
qed

lemma GetAll_spec: "rb_inv rb \<Longrightarrow> GetAll rb = Some (rb_list rb)"
  using rb_get_loop_spec [of rb "rb_count rb" "replicate (rb_count rb) (rb_zero rb)"]
  by (auto simp: GetAll_def IsEmpty_iff)


section \<open>Sequences of operations\<close>

text \<open>
  Any sequence of method calls on a fresh buffer, and the same calls on a list: the abstract
  specification is \<open>list_step\<close>.
\<close>

datatype 'a rb_op = OpPush 'a | OpPushBatch "'a list" | OpPop | OpPopAll | OpPeek | OpGetAll
  | OpClear | OpCount

datatype 'a rb_out = OutNone | OutElem 'a bool | OutList "'a list" | OutNat nat

fun rb_step :: "'a rb_op \<Rightarrow> 'a RingBuffer \<Rightarrow> ('a rb_out \<times> 'a RingBuffer) option" where
  "rb_step (OpPush v) rb = do { rb \<leftarrow> Push v rb; Some (OutNone, rb) }"
| "rb_step (OpPushBatch vs) rb = do { rb \<leftarrow> PushBatch vs rb; Some (OutNone, rb) }"
| "rb_step OpPop rb = do { ((v, ok), rb) \<leftarrow> Pop rb; Some (OutElem v ok, rb) }"
| "rb_step OpPopAll rb = do { (vs, rb) \<leftarrow> PopAll rb; Some (OutList vs, rb) }"
| "rb_step OpPeek rb = do { (v, ok) \<leftarrow> Peek rb; Some (OutElem v ok, rb) }"
| "rb_step OpGetAll rb = do { vs \<leftarrow> GetAll rb; Some (OutList vs, rb) }"
| "rb_step OpClear rb = Some (OutNone, Clear rb)"
| "rb_step OpCount rb = Some (OutNat (Count rb), rb)"

fun list_step :: "'a \<Rightarrow> 'a rb_op \<Rightarrow> 'a list \<Rightarrow> 'a rb_out \<times> 'a list" where
  "list_step z (OpPush v) xs = (OutNone, xs @ [v])"
| "list_step z (OpPushBatch vs) xs = (OutNone, xs @ vs)"
| "list_step z OpPop xs = (case xs of [] \<Rightarrow> (OutElem z False, []) | v # vs \<Rightarrow> (OutElem v True, vs))"
| "list_step z OpPopAll xs = (OutList xs, [])"
| "list_step z OpPeek xs = (case xs of [] \<Rightarrow> OutElem z False | v # vs \<Rightarrow> OutElem v True, xs)"
| "list_step z OpGetAll xs = (OutList xs, xs)"
| "list_step z OpClear xs = (OutNone, [])"
| "list_step z OpCount xs = (OutNat (length xs), xs)"

fun rb_run :: "'a rb_op list \<Rightarrow> 'a RingBuffer \<Rightarrow> ('a rb_out list \<times> 'a RingBuffer) option" where
  "rb_run [] rb = Some ([], rb)"
| "rb_run (c # cs) rb = do {
     (out, rb) \<leftarrow> rb_step c rb; (outs, rb) \<leftarrow> rb_run cs rb; Some (out # outs, rb) }"

fun list_run :: "'a \<Rightarrow> 'a rb_op list \<Rightarrow> 'a list \<Rightarrow> 'a rb_out list \<times> 'a list" where
  "list_run z [] xs = ([], xs)"
| "list_run z (c # cs) xs =
     (let (out, xs) = list_step z c xs; (outs, xs) = list_run z cs xs in (out # outs, xs))"

lemma rb_step_refines:
  assumes "rb_inv rb"
  shows "\<exists>rb'. rb_step c rb = Some (fst (list_step (rb_zero rb) c (rb_list rb)), rb') \<and> rb_inv rb' \<and>
           rb_list rb' = snd (list_step (rb_zero rb) c (rb_list rb)) \<and> rb_zero rb' = rb_zero rb"
proof (cases c)
  case (OpPush v)
  with Push_spec [OF assms, of v] show ?thesis by auto
next
  case (OpPushBatch vs)
  with PushBatch_spec [OF assms, of vs] show ?thesis by auto
next
  case OpPop
  with assms Pop_empty [of rb] Pop_spec [OF assms] show ?thesis
    by (cases "rb_list rb") fastforce+
next
  case OpPopAll
  with PopAll_spec [OF assms] show ?thesis by auto
next
  case OpPeek
  with assms Peek_spec [OF assms] show ?thesis by (auto split: list.splits)
next
  case OpGetAll
  with assms GetAll_spec [OF assms] show ?thesis by auto
next
  case OpClear
  with Clear_spec [OF assms] show ?thesis by (auto simp: Clear_def)
next
  case OpCount
  with assms show ?thesis by (auto simp: Count_def)
qed

lemma rb_run_refines:
  assumes "rb_inv rb"
  shows "\<exists>rb'. rb_run cs rb = Some (fst (list_run (rb_zero rb) cs (rb_list rb)), rb') \<and> rb_inv rb' \<and>
           rb_list rb' = snd (list_run (rb_zero rb) cs (rb_list rb))"
  using assms
proof (induction cs arbitrary: rb)
  case Nil
  then show ?case by simp
next
  case (Cons c cs)
  obtain r where r: "rb_step c rb = Some (fst (list_step (rb_zero rb) c (rb_list rb)), r)" "rb_inv r"
    "rb_list r = snd (list_step (rb_zero rb) c (rb_list rb))" "rb_zero r = rb_zero rb"
    using rb_step_refines [OF Cons.prems] by blast
  with Cons.IH [OF r(2)] show ?case
    by (auto simp: Let_def split: prod.splits)
qed

text \<open>
  C1. The ring buffer is a queue of unbounded length: on a buffer made by \<open>NewRingBuffer\<close> with a
  positive size, no sequence of calls panics (no index, slice or modulo goes wrong, and the
  doubling loop of \<open>PushBatch\<close> returns), every call returns exactly what the same call on a list
  returns, and the buffer holds that list at the end, however often it grew or wrapped around.
\<close>

theorem ring_buffer_refines_list:
  assumes "0 < n"
  shows "\<exists>rb rb'. NewRingBuffer z n = Some rb \<and> rb_run ops rb = Some (fst (list_run z ops []), rb') \<and>
           rb_inv rb' \<and> rb_list rb' = snd (list_run z ops [])"
proof -
  obtain rb where rb: "NewRingBuffer z n = Some rb" and "rb_zero rb = z"
    using assms by (auto simp: NewRingBuffer_def)
  with NewRingBuffer_inv [OF rb] rb_run_refines [of rb ops] show ?thesis by auto
qed

theorem ring_buffer_refines_list_witness:
  "\<exists>rb rb'. NewRingBuffer (0::nat) 2 = Some rb \<and>
     rb_run [OpPush 1, OpPush 2, OpPop, OpPush 3, OpPushBatch [4, 5, 6], OpGetAll, OpPopAll, OpPop] rb =
       Some ([OutNone, OutNone, OutElem 1 True, OutNone, OutNone, OutList [2, 3, 4, 5, 6],
              OutList [2, 3, 4, 5, 6], OutElem 0 False], rb') \<and> rb_list rb' = []"
  using ring_buffer_refines_list [of 2 "0::nat"
    "[OpPush 1, OpPush 2, OpPop, OpPush 3, OpPushBatch [4, 5, 6], OpGetAll, OpPopAll, OpPop]"]
  by (simp del: rb_run.simps) blast

end
