(* ===== verification/Ring_Growth.thy ===== *)
theory Ring_Growth
  imports Ring_Buffer
begin

text \<open>
  How much memory the ring buffer takes: the doubling loop of \<open>PushBatch\<close> ends, and it never makes
  the buffer twice as large as needed.
\<close>

lemma rb_put_size: "rb_put v rb = Some rb' \<Longrightarrow> rb_size rb' = rb_size rb"
  by (auto simp: rb_put_def)

lemma rb_put_all_size: "rb_put_all vs rb = Some rb' \<Longrightarrow> rb_size rb' = rb_size rb"
  by (induction vs arbitrary: rb) (auto dest: rb_put_size)

lemma rb_reserve_size:
  assumes "rb_inv rb"
  shows "\<exists>rb' j. rb_reserve n rb = Some rb' \<and> rb_size rb' = rb_size rb * 2 ^ j \<and>
    (j = 0 \<longleftrightarrow> rb_count rb + n \<le> rb_size rb) \<and> (0 < j \<longrightarrow> rb_size rb' < 2 * (rb_count rb + n))"
  using assms
proof (induction "n - (rb_size rb - rb_count rb)" arbitrary: rb rule: less_induct)
  case less
  have le: "rb_count rb \<le> rb_size rb" using less.prems by (simp add: rb_inv_def)
  show ?case
  proof (cases "rb_size rb - rb_count rb < n")
    case True
    obtain g where g: "rb_grow rb = Some g" "rb_inv g" "rb_size g = 2 * rb_size rb" "rb_count g = rb_count rb"
      using rb_grow_spec [OF less.prems] by blast
    have "n - (rb_size g - rb_count g) < n - (rb_size rb - rb_count rb)"
      using True g less.prems by (auto simp: rb_inv_def)
    from less.hyps [OF this g(2)] obtain rb' j where j: "rb_reserve n g = Some rb'" "rb_size rb' = rb_size g * 2 ^ j"
        "j = 0 \<longleftrightarrow> rb_count g + n \<le> rb_size g" "0 < j \<longrightarrow> rb_size rb' < 2 * (rb_count g + n)"
      by blast
    have "rb_reserve n rb = Some rb'" using True g(1) j(1) by (subst rb_reserve.simps) simp
    moreover have "rb_size rb' < 2 * (rb_count rb + n)" using True le g j(2-4) by (cases "j = 0") auto
    ultimately show ?thesis using True le g j(2) by (intro exI [of _ rb'] exI [of _ "Suc j"]) auto
  next
    case False
    with le show ?thesis by (subst rb_reserve.simps) (intro exI [of _ rb] exI [of _ 0], simp)
  qed
qed

text \<open>
  C37. \<open>PushBatch\<close> always returns, and wastes little: the size is doubled only while the values do not
  fit, so that afterwards it is a power of two times the old size, the same if there was room, and
  less than twice the number of elements if there was not.
\<close>

theorem PushBatch_growth:
  assumes "rb_inv rb"
  shows "\<exists>rb' j. PushBatch vs rb = Some rb' \<and> rb_count rb' = rb_count rb + length vs \<and>
    rb_size rb' = rb_size rb * 2 ^ j \<and> length (rb_buffer rb') = rb_size rb' \<and>
    (if rb_count rb + length vs \<le> rb_size rb then rb_size rb' = rb_size rb else rb_size rb' < 2 * rb_count rb')"
proof -
  obtain rb' where r: "PushBatch vs rb = Some rb'" "rb_inv rb'" "rb_list rb' = rb_list rb @ vs"
    using PushBatch_spec [OF assms, of vs] by blast
  have count: "rb_count rb' = rb_count rb + length vs"
    using arg_cong [OF r(3), of length] by (simp only: length_rb_list length_append)
  show ?thesis
  proof (cases "vs = []")
    case True
    with r(1) have "rb' = rb" by (simp add: PushBatch_def)
    with r True assms show ?thesis by (intro exI [of _ rb'] exI [of _ 0]) (simp add: rb_inv_def)
  next
    case False
    obtain rb1 j where j: "rb_reserve (length vs) rb = Some rb1" "rb_size rb1 = rb_size rb * 2 ^ j"
        "j = 0 \<longleftrightarrow> rb_count rb + length vs \<le> rb_size rb" "0 < j \<longrightarrow> rb_size rb1 < 2 * (rb_count rb + length vs)"
      using rb_reserve_size [OF assms] by blast
    with r(1) False have "rb_size rb' = rb_size rb1" by (simp add: PushBatch_def rb_put_all_size)
    with j r(1,2) count show ?thesis by (intro exI [of _ rb'] exI [of _ j]) (auto simp: rb_inv_def)
  qed
qed

theorem PushBatch_growth_witness:
  "\<exists>rb rb'. NewRingBuffer (0 :: nat) 3 = Some rb \<and> PushBatch [1, 2, 3, 4, 5, 6, 7] rb = Some rb' \<and>
     rb_size rb' < 14 \<and> (\<exists>j. rb_size rb' = 3 * 2 ^ j)"
proof -
  let ?rb = "\<lparr>rb_buffer = replicate 3 0, rb_size = 3, rb_head = 0, rb_tail = 0, rb_count = 0, rb_zero = 0 :: nat\<rparr>"
  have "NewRingBuffer 0 3 = Some ?rb" by (simp add: NewRingBuffer_def)
  moreover have "rb_inv ?rb" by (simp add: rb_inv_def)
  from PushBatch_growth [OF this, of "[1, 2, 3, 4, 5, 6, 7]"] obtain rb' j where
      "PushBatch [1, 2, 3, 4, 5, 6, 7] ?rb = Some rb'" "rb_size rb' < 14" "rb_size rb' = 3 * 2 ^ j"
    by auto
  ultimately show ?thesis by blast
qed

end
