(* ===== verification/Queue_Def.thy ===== *)
theory Queue_Def
  imports Prelude
begin

text \<open>
  The interface \<open>queueDef.Queue\<close> of \<open>engine/queue/def/def.go\<close> as a locale: what its users may rely
  on, whatever the implementation. The connection code is a client of it; the ring queue
  (\<open>Ring_Queue\<close>) provides it.
\<close>

text \<open>
  A blocking call either waits (the caller is put to sleep, the state does not change) or returns.
  A Go \<open>error\<close> is an optional string, \<open>None\<close> for \<open>nil\<close>.
\<close>

datatype 'r wait = Waits | Done 'r

text \<open>Calling \<open>Enqueue\<close> on each element in turn, stopping at the first error.\<close>

fun enqueue_each :: "('a \<Rightarrow> 'q \<Rightarrow> (go_error \<times> 'q) option) \<Rightarrow> 'a list \<Rightarrow> 'q \<Rightarrow> (go_error \<times> 'q) option" where
  "enqueue_each enq [] q = Some (None, q)"
| "enqueue_each enq (v # vs) q = do {
     (err, q) \<leftarrow> enq v q;
     if err = None then enqueue_each enq vs q else Some (err, q) }"

text \<open>\<open>n\<close> calls of \<open>Dequeue\<close> that all return an element, in the order they are returned.\<close>

fun dequeue_n :: "('q \<Rightarrow> (('a \<times> bool) wait \<times> 'q) option) \<Rightarrow> nat \<Rightarrow> 'q \<Rightarrow> ('a list \<times> 'q) option" where
  "dequeue_n deq 0 q = Some ([], q)"
| "dequeue_n deq (Suc n) q = do {
     (r, q) \<leftarrow> deq q;
     case r of
       Done (v, True) \<Rightarrow> do { (vs, q) \<leftarrow> dequeue_n deq n q; Some (v # vs, q) }
     | _ \<Rightarrow> None }"

locale queue_def =
  fixes inv :: "'q \<Rightarrow> bool"
    and contents :: "'q \<Rightarrow> 'a list"
    and is_close :: "'q \<Rightarrow> bool"
    and enqueue :: "'a \<Rightarrow> 'q \<Rightarrow> (go_error \<times> 'q) option"
    and dequeue :: "'q \<Rightarrow> (('a \<times> bool) wait \<times> 'q) option"
    and close :: "'q \<Rightarrow> (go_error \<times> 'q) option"
  assumes enqueue_open: "inv q \<Longrightarrow> \<not> is_close q \<Longrightarrow>
      \<exists>q'. enqueue v q = Some (None, q') \<and> inv q' \<and> contents q' = contents q @ [v] \<and> \<not> is_close q'"
    and enqueue_closed: "inv q \<Longrightarrow> is_close q \<Longrightarrow> \<exists>e. enqueue v q = Some (Some e, q)"
    and dequeue_empty: "inv q \<Longrightarrow> contents q = [] \<Longrightarrow> \<not> is_close q \<Longrightarrow> dequeue q = Some (Waits, q)"
    and dequeue_closed: "inv q \<Longrightarrow> contents q = [] \<Longrightarrow> is_close q \<Longrightarrow>
      \<exists>z. dequeue q = Some (Done (z, False), q)"
    and dequeue_some: "inv q \<Longrightarrow> contents q = v # vs \<Longrightarrow>
      \<exists>q'. dequeue q = Some (Done (v, True), q') \<and> inv q' \<and> contents q' = vs \<and> is_close q' = is_close q"
    and close_closes: "inv q \<Longrightarrow>
      \<exists>q'. close q = Some (None, q') \<and> inv q' \<and> contents q' = contents q \<and> is_close q'"
begin

lemma enqueue_each_open:
  assumes "inv q" and "\<not> is_close q"
  shows "\<exists>q'. enqueue_each enqueue vs q = Some (None, q') \<and> inv q' \<and>
           contents q' = contents q @ vs \<and> \<not> is_close q'"
  using assms
proof (induction vs arbitrary: q)
  case Nil
  then show ?case by simp
next
  case (Cons v vs)
  then obtain r where "enqueue v q = Some (None, r)" "inv r" "contents r = contents q @ [v]" "\<not> is_close r"
    using enqueue_open by blast
  with Cons.IH [of r] show ?case by auto
qed

lemma dequeue_n_prefix:
  assumes "inv q" and "contents q = vs @ ws"
  shows "\<exists>q'. dequeue_n dequeue (length vs) q = Some (vs, q') \<and> inv q' \<and> contents q' = ws \<and>
           is_close q' = is_close q"
  using assms
proof (induction vs arbitrary: q)
  case Nil
  then show ?case by simp
next
  case (Cons v vs)
  then obtain r where "dequeue q = Some (Done (v, True), r)" "inv r" "contents r = vs @ ws"
      "is_close r = is_close q"
    using dequeue_some [of q v "vs @ ws"] by auto
  with Cons.IH [of r] show ?case by auto
qed

text \<open>What a client learns from an operation that returned.\<close>

lemma enqueue_returned:
  assumes "inv q" and "enqueue v q = Some (err, q')"
  shows "inv q' \<and> is_close q' = is_close q \<and> (err = None \<longleftrightarrow> \<not> is_close q) \<and>
    contents q' = (if is_close q then contents q else contents q @ [v])"
  using assms enqueue_open [of q v] enqueue_closed [of q v] by (cases "is_close q") auto

lemma dequeue_element:
  assumes "inv q" and "dequeue q = Some (Done (v, True), q')"
  shows "inv q' \<and> is_close q' = is_close q \<and> contents q = v # contents q'"
  using assms dequeue_empty [of q] dequeue_closed [of q] dequeue_some [of q]
  by (cases "contents q"; cases "is_close q") force+

lemma dequeue_end:
  assumes "inv q" and "dequeue q = Some (Done (v, False), q')"
  shows "q' = q \<and> is_close q \<and> contents q = []"
  using assms dequeue_empty [of q] dequeue_closed [of q] dequeue_some [of q]
  by (cases "contents q"; cases "is_close q") force+

lemma close_returned:
  assumes "inv q" and "close q = Some (err, q')"
  shows "inv q' \<and> err = None \<and> contents q' = contents q \<and> is_close q'"
  using assms close_closes [of q] by auto

text \<open>A queue hands back what was put in, in order, even when it was closed in between.\<close>

lemma fifo_across_close:
  assumes "inv q" and "contents q = []" and "\<not> is_close q"
  shows "\<exists>q1 q2 q3 z. enqueue_each enqueue vs q = Some (None, q1) \<and> close q1 = Some (None, q2) \<and>
           dequeue_n dequeue (length vs) q2 = Some (vs, q3) \<and> dequeue q3 = Some (Done (z, False), q3)"
proof -
  obtain q1 where q1: "enqueue_each enqueue vs q = Some (None, q1)" "inv q1" "contents q1 = vs"
    using enqueue_each_open [of q vs] assms by auto
  obtain q2 where q2: "close q1 = Some (None, q2)" "inv q2" "contents q2 = vs" "is_close q2"
    using close_closes [OF q1(2)] q1(3) by auto
  obtain q3 where "dequeue_n dequeue (length vs) q2 = Some (vs, q3)" "inv q3" "contents q3 = []" "is_close q3"
    using dequeue_n_prefix [of q2 vs "[]"] q2 by auto
  with q1 q2 dequeue_closed [of q3] show ?thesis by blast
qed

end

end
