(* ===== verification/Ring_Queue.thy ===== *)
theory Ring_Queue
  imports Ring_Buffer Queue_Def
begin

text \<open>
  \<open>Queue[T]\<close> of \<open>engine/queue/imp/ring/queue.go\<close> and its adapter \<open>QQueue\<close> of \<open>ringImp.go\<close>: the
  ring buffer behind a mutex, a condition variable and a close flag. Each definition here is what a
  method does between locking and unlocking the mutex; what it does to the condition variable is
  part of its result (\<open>wakeup\<close>), and a receiver that has to wait returns \<open>Waits\<close>. How goroutines
  interleave these sections is the subject of \<open>Queue_Concurrency\<close>. The theory ends with the
  interpretation of \<open>queue_def\<close> by the adapter.
\<close>

datatype wakeup = NoWake | Signal | Broadcast

record 'a Queue =
  q_buffer :: "'a RingBuffer"
  q_closed :: bool
  q_notifyClosed :: bool  \<comment> \<open>whether the channel \<open>notifyClose\<close> has been closed\<close>

definition NewQueue :: "'a \<Rightarrow> int \<Rightarrow> 'a Queue option" where
  "NewQueue z baseBufferCount = do {
     b \<leftarrow> NewRingBuffer z baseBufferCount;
     Some \<lparr>q_buffer = b, q_closed = False, q_notifyClosed = False\<rparr> }"

definition Queue_Send :: "'a \<Rightarrow> 'a Queue \<Rightarrow> ((bool \<times> wakeup) \<times> 'a Queue) option" where
  "Queue_Send value ch =
     (if q_closed ch then Some ((False, NoWake), ch)
      else do {
        b \<leftarrow> Push value (q_buffer ch);
        Some ((True, Signal), ch\<lparr>q_buffer := b\<rparr>) })"

definition Queue_BatchSend :: "'a list \<Rightarrow> 'a Queue \<Rightarrow> ((bool \<times> wakeup) \<times> 'a Queue) option" where
  "Queue_BatchSend values ch =
     (if q_closed ch then Some ((False, NoWake), ch)
      else do {
        b \<leftarrow> PushBatch values (q_buffer ch);
        let l = length values;
        Some ((True, if l > 1 then Broadcast else if l > 0 then Signal else NoWake),
              ch\<lparr>q_buffer := b\<rparr>) })"

text \<open>One pass of the waiting loop of \<open>Receive\<close> and \<open>ReceiveBatch\<close>.\<close>

definition Queue_Receive :: "'a Queue \<Rightarrow> (('a \<times> bool) wait \<times> 'a Queue) option" where
  "Queue_Receive ch =
     (if Count (q_buffer ch) = 0 \<and> \<not> q_closed ch then Some (Waits, ch)
      else if Count (q_buffer ch) = 0 \<and> q_closed ch then Some (Done (rb_zero (q_buffer ch), False), ch)
      else do {
        ((value, _), b) \<leftarrow> Pop (q_buffer ch);
        Some (Done (value, True), ch\<lparr>q_buffer := b\<rparr>) })"

definition Queue_ReceiveBatch :: "'a Queue \<Rightarrow> (('a list \<times> bool) wait \<times> 'a Queue) option" where
  "Queue_ReceiveBatch ch =
     (if Count (q_buffer ch) = 0 \<and> \<not> q_closed ch then Some (Waits, ch)
      else if Count (q_buffer ch) = 0 \<and> q_closed ch then Some (Done ([], False), ch)
      else do {
        (result, b) \<leftarrow> PopAll (q_buffer ch);
        Some (Done (result, True), ch\<lparr>q_buffer := b\<rparr>) })"

definition Queue_TryReceive :: "'a Queue \<Rightarrow> (('a \<times> bool) \<times> 'a Queue) option" where
  "Queue_TryReceive ch =
     (if Count (q_buffer ch) = 0 then Some ((rb_zero (q_buffer ch), False), ch)
      else do {
        ((value, _), b) \<leftarrow> Pop (q_buffer ch);
        Some ((value, True), ch\<lparr>q_buffer := b\<rparr>) })"

definition Queue_TryReceiveBatch :: "'a Queue \<Rightarrow> (('a list \<times> bool) \<times> 'a Queue) option" where
  "Queue_TryReceiveBatch ch =
     (let n = Count (q_buffer ch) in
      if n = 0 then (if q_closed ch then Some (([], False), ch) else Some (([], True), ch))
      else do {
        (result, b) \<leftarrow> PopAll (q_buffer ch);
        Some ((result, True), ch\<lparr>q_buffer := b\<rparr>) })"

text \<open>Closing the channel \<open>notifyClose\<close> a second time would panic.\<close>

definition Queue_Close :: "'a Queue \<Rightarrow> (wakeup \<times> 'a Queue) option" where
  "Queue_Close ch =
     (if \<not> q_closed ch then
        if q_notifyClosed ch then None
        else Some (Broadcast, ch\<lparr>q_closed := True, q_notifyClosed := True\<rparr>)
      else Some (NoWake, ch))"

definition Queue_Len :: "'a Queue \<Rightarrow> nat" where
  "Queue_Len ch = Count (q_buffer ch)"

definition Queue_IsClosed :: "'a Queue \<Rightarrow> bool" where
  "Queue_IsClosed ch = q_closed ch"

section \<open>The adapter QQueue\<close>

definition QQueue_Init :: "'a \<Rightarrow> int \<Rightarrow> 'a Queue option" where
  "QQueue_Init z baseBufferCount = NewQueue z baseBufferCount"

definition QQueue_Close :: "'a Queue \<Rightarrow> (go_error \<times> 'a Queue) option" where
  "QQueue_Close q = do { (_, q) \<leftarrow> Queue_Close q; Some (None, q) }"

definition QQueue_IsClose :: "'a Queue \<Rightarrow> bool" where
  "QQueue_IsClose q = Queue_IsClosed q"

definition QQueue_Enqueue :: "'a \<Rightarrow> 'a Queue \<Rightarrow> (go_error \<times> 'a Queue) option" where
  "QQueue_Enqueue data q = do {
     ((ok, _), q) \<leftarrow> Queue_Send data q;
     Some (if ok then None else Some ''closed'', q) }"

definition QQueue_Dequeue :: "'a Queue \<Rightarrow> (('a \<times> bool) wait \<times> 'a Queue) option" where
  "QQueue_Dequeue q = Queue_Receive q"

text \<open>\<open>queue.NewQueue\<close>: the factory of \<open>engine/queue/queue.go\<close>.\<close>

definition queue_NewQueue :: "'a \<Rightarrow> int \<Rightarrow> 'a Queue option" where
  "queue_NewQueue z buffLen = QQueue_Init z buffLen"

section \<open>Invariant and behaviour of each critical section\<close>

definition q_inv :: "'a Queue \<Rightarrow> bool" where
  "q_inv ch \<longleftrightarrow> rb_inv (q_buffer ch) \<and> (q_notifyClosed ch \<longleftrightarrow> q_closed ch)"

definition q_list :: "'a Queue \<Rightarrow> 'a list" where
  "q_list ch = rb_list (q_buffer ch)"

lemma Count_q_list: "Count (q_buffer ch) = length (q_list ch)"
  by (simp add: Count_def q_list_def)

lemma NewQueue_spec:
  "NewQueue z n = Some ch \<Longrightarrow> q_inv ch \<and> q_list ch = [] \<and> \<not> q_closed ch"
  using NewRingBuffer_inv [of z n] by (auto simp: NewQueue_def q_inv_def q_list_def)

lemma NewQueue_returns: "0 < n \<Longrightarrow> \<exists>ch. NewQueue z n = Some ch"
  by (simp add: NewQueue_def NewRingBuffer_def)

lemma Queue_Send_spec:
  assumes "q_inv ch"
  shows "\<exists>ch'. Queue_Send v ch = Some ((\<not> q_closed ch, if q_closed ch then NoWake else Signal), ch') \<and>
           q_inv ch' \<and> q_list ch' = (if q_closed ch then q_list ch else q_list ch @ [v]) \<and>
           q_closed ch' = q_closed ch"
  using assms Push_spec [of "q_buffer ch" v]
  by (auto simp: Queue_Send_def q_inv_def q_list_def)

lemma Queue_BatchSend_spec:
  assumes "q_inv ch"
  shows "\<exists>ch'. Queue_BatchSend vs ch = Some ((\<not> q_closed ch,
             if q_closed ch \<or> vs = [] then NoWake else if length vs = 1 then Signal else Broadcast), ch') \<and>
           q_inv ch' \<and> q_list ch' = (if q_closed ch then q_list ch else q_list ch @ vs) \<and>
           q_closed ch' = q_closed ch"
  using assms PushBatch_spec [of "q_buffer ch" vs]
  by (cases vs) (auto simp: Queue_BatchSend_def q_inv_def q_list_def)

lemma Queue_Receive_spec:
  assumes "q_inv ch"
  shows "\<exists>ch'. Queue_Receive ch = Some (case q_list ch of
               [] \<Rightarrow> if q_closed ch then Done (rb_zero (q_buffer ch), False) else Waits
             | v # vs \<Rightarrow> Done (v, True), ch') \<and>
           q_inv ch' \<and> q_list ch' = tl (q_list ch) \<and> q_closed ch' = q_closed ch \<and>
           (q_list ch = [] \<longrightarrow> ch' = ch)"
proof (cases "q_list ch")
  case Nil
  with assms show ?thesis by (simp add: Queue_Receive_def Count_q_list)
next
  case (Cons v vs)
  with assms Pop_spec [of "q_buffer ch" v vs] show ?thesis
    by (auto simp: Queue_Receive_def Count_q_list) (auto simp: q_inv_def q_list_def)
qed

lemma Queue_ReceiveBatch_spec:
  assumes "q_inv ch"
  shows "\<exists>ch'. Queue_ReceiveBatch ch = Some (
             if q_list ch = [] then if q_closed ch then Done ([], False) else Waits
             else Done (q_list ch, True), ch') \<and>
           q_inv ch' \<and> q_list ch' = [] \<and> q_closed ch' = q_closed ch \<and> (q_list ch = [] \<longrightarrow> ch' = ch)"
  using assms PopAll_spec [of "q_buffer ch"]
  by (auto simp: Queue_ReceiveBatch_def Count_q_list) (auto simp: q_inv_def q_list_def)

lemma Queue_TryReceive_spec:
  assumes "q_inv ch"
  shows "\<exists>ch'. Queue_TryReceive ch = Some (case q_list ch of
               [] \<Rightarrow> (rb_zero (q_buffer ch), False) | v # vs \<Rightarrow> (v, True), ch') \<and>
           q_inv ch' \<and> q_list ch' = tl (q_list ch) \<and> q_closed ch' = q_closed ch"
proof (cases "q_list ch")
  case Nil
  with assms show ?thesis by (simp add: Queue_TryReceive_def Count_q_list)
next
  case (Cons v vs)
  with assms Pop_spec [of "q_buffer ch" v vs] show ?thesis
    by (auto simp: Queue_TryReceive_def Count_q_list) (auto simp: q_inv_def q_list_def)
qed

lemma Queue_TryReceiveBatch_spec:
  assumes "q_inv ch"
  shows "\<exists>ch'. Queue_TryReceiveBatch ch =
             Some ((q_list ch, q_list ch \<noteq> [] \<or> \<not> q_closed ch), ch') \<and>
           q_inv ch' \<and> q_list ch' = [] \<and> q_closed ch' = q_closed ch"
  using assms PopAll_spec [of "q_buffer ch"]
  by (auto simp: Queue_TryReceiveBatch_def Count_q_list Let_def) (auto simp: q_inv_def q_list_def)

lemma Queue_Close_spec:
  assumes "q_inv ch"
  shows "\<exists>ch'. Queue_Close ch = Some (if q_closed ch then NoWake else Broadcast, ch') \<and> q_inv ch' \<and>
           q_list ch' = q_list ch \<and> q_closed ch'"
  using assms by (auto simp: Queue_Close_def q_inv_def q_list_def)

lemmas queue_section_specs = Queue_Send_spec Queue_BatchSend_spec Queue_Receive_spec
  Queue_ReceiveBatch_spec Queue_TryReceive_spec Queue_TryReceiveBatch_spec Queue_Close_spec

section \<open>The adapter provides the interface\<close>

interpretation qq: queue_def q_inv q_list QQueue_IsClose QQueue_Enqueue QQueue_Dequeue QQueue_Close
proof unfold_locales
  fix q :: "'a Queue" and v :: 'a and vs
  show "\<exists>q'. QQueue_Enqueue v q = Some (None, q') \<and> q_inv q' \<and> q_list q' = q_list q @ [v] \<and>
          \<not> QQueue_IsClose q'" if "q_inv q" "\<not> QQueue_IsClose q"
    using that Queue_Send_spec [of q v]
    by (auto simp: QQueue_Enqueue_def QQueue_IsClose_def Queue_IsClosed_def)
  show "\<exists>e. QQueue_Enqueue v q = Some (Some e, q)" if "q_inv q" "QQueue_IsClose q"
    using that by (simp add: QQueue_Enqueue_def QQueue_IsClose_def Queue_IsClosed_def Queue_Send_def)
  show "QQueue_Dequeue q = Some (Waits, q)" if "q_inv q" "q_list q = []" "\<not> QQueue_IsClose q"
    using that Queue_Receive_spec [of q]
    by (auto simp: QQueue_Dequeue_def QQueue_IsClose_def Queue_IsClosed_def)
  show "\<exists>z. QQueue_Dequeue q = Some (Done (z, False), q)"
    if "q_inv q" "q_list q = []" "QQueue_IsClose q"
    using that Queue_Receive_spec [of q]
    by (auto simp: QQueue_Dequeue_def QQueue_IsClose_def Queue_IsClosed_def)
  show "\<exists>q'. QQueue_Dequeue q = Some (Done (v, True), q') \<and> q_inv q' \<and> q_list q' = vs \<and>
          QQueue_IsClose q' = QQueue_IsClose q" if "q_inv q" "q_list q = v # vs"
    using that Queue_Receive_spec [of q]
    by (auto simp: QQueue_Dequeue_def QQueue_IsClose_def Queue_IsClosed_def)
  show "\<exists>q'. QQueue_Close q = Some (None, q') \<and> q_inv q' \<and> q_list q' = q_list q \<and> QQueue_IsClose q'"
    if "q_inv q"
    using that Queue_Close_spec [of q]
    by (auto simp: QQueue_Close_def QQueue_IsClose_def Queue_IsClosed_def)
qed

end
