(* ===== verification/Queue_Concurrency.thy ===== *)
theory Queue_Concurrency
  imports Ring_Queue
begin

text \<open>
  The goroutines of \<open>engine/queue/imp/ring/queue.go\<close> running against one queue, as a step relation.
  A step is one critical section (mutex locked to unlocked), one \<open>Signal\<close> or \<open>Broadcast\<close> done
  after unlocking, or one sleeper that re-acquires the mutex. \<open>Cond.Wait\<close> registers the caller
  before it releases the mutex, so going to sleep is part of the section; \<open>Signal\<close> wakes some
  waiter if there is one and is lost otherwise; \<open>Close\<close> broadcasts while it holds the mutex. The
  main results: no step panics, elements leave in the order they entered, and no wake-up is lost:
  the wake-ups under way end, and then nobody sleeps beside an element.
\<close>

text \<open>What a sleeping receiver runs: \<open>Receive\<close> or \<open>ReceiveBatch\<close>.\<close>

datatype receiver = One | Batch

record 'a qsys =
  qs_queue :: "'a Queue"
  qs_signals :: nat  \<comment> \<open>senders that have unlocked the mutex and not yet called \<open>Signal\<close>\<close>
  qs_bcasts :: nat  \<comment> \<open>the same for \<open>Broadcast\<close>\<close>
  qs_asleep :: "receiver multiset"  \<comment> \<open>receivers inside \<open>notEmpty.Wait()\<close>\<close>
  qs_awake :: "receiver multiset"  \<comment> \<open>notified receivers that wait for the mutex\<close>
  qs_sent :: "'a list"  \<comment> \<open>history: the elements of all successful sends\<close>
  qs_received :: "'a list"  \<comment> \<open>history: the elements all receivers returned\<close>

fun attempt :: "receiver \<Rightarrow> 'a Queue \<Rightarrow> ('a list wait \<times> 'a Queue) option" where
  "attempt One ch = do {
     (r, ch) \<leftarrow> Queue_Receive ch;
     Some (case r of Waits \<Rightarrow> Waits | Done (v, ok) \<Rightarrow> Done (if ok then [v] else []), ch) }"
| "attempt Batch ch = do {
     (r, ch) \<leftarrow> Queue_ReceiveBatch ch;
     Some (case r of Waits \<Rightarrow> Waits | Done (vs, ok) \<Rightarrow> Done vs, ch) }"

definition qs_wakes :: "wakeup \<Rightarrow> 'a qsys \<Rightarrow> 'a qsys" where
  "qs_wakes w s = s\<lparr>qs_signals := qs_signals s + (if w = Signal then 1 else 0),
                    qs_bcasts := qs_bcasts s + (if w = Broadcast then 1 else 0)\<rparr>"

definition qs_wake_all :: "'a qsys \<Rightarrow> 'a qsys" where
  "qs_wake_all s = s\<lparr>qs_awake := qs_awake s + qs_asleep s, qs_asleep := {#}\<rparr>"

inductive qstep :: "'a qsys \<Rightarrow> 'a qsys \<Rightarrow> bool" where
  send: "Queue_Send v (qs_queue s) = Some ((ok, w), ch) \<Longrightarrow>
    qstep s (qs_wakes w (s\<lparr>qs_queue := ch, qs_sent := qs_sent s @ (if ok then [v] else [])\<rparr>))"
| batch_send: "Queue_BatchSend vs (qs_queue s) = Some ((ok, w), ch) \<Longrightarrow>
    qstep s (qs_wakes w (s\<lparr>qs_queue := ch, qs_sent := qs_sent s @ (if ok then vs else [])\<rparr>))"
| signal: "0 < qs_signals s \<Longrightarrow> k \<in># qs_asleep s \<Longrightarrow>
    qstep s (s\<lparr>qs_signals := qs_signals s - 1, qs_asleep := qs_asleep s - {#k#},
               qs_awake := add_mset k (qs_awake s)\<rparr>)"
| signal_nobody: "0 < qs_signals s \<Longrightarrow> qs_asleep s = {#} \<Longrightarrow>
    qstep s (s\<lparr>qs_signals := qs_signals s - 1\<rparr>)"
| broadcast: "0 < qs_bcasts s \<Longrightarrow> qstep s ((qs_wake_all s)\<lparr>qs_bcasts := qs_bcasts s - 1\<rparr>)"
| receive_waits: "attempt k (qs_queue s) = Some (Waits, ch) \<Longrightarrow>
    qstep s (s\<lparr>qs_queue := ch, qs_asleep := add_mset k (qs_asleep s)\<rparr>)"
| receive_returns: "attempt k (qs_queue s) = Some (Done vs, ch) \<Longrightarrow>
    qstep s (s\<lparr>qs_queue := ch, qs_received := qs_received s @ vs\<rparr>)"
| resume_waits: "k \<in># qs_awake s \<Longrightarrow> attempt k (qs_queue s) = Some (Waits, ch) \<Longrightarrow>
    qstep s (s\<lparr>qs_queue := ch, qs_awake := qs_awake s - {#k#}, qs_asleep := add_mset k (qs_asleep s)\<rparr>)"
| resume_returns: "k \<in># qs_awake s \<Longrightarrow> attempt k (qs_queue s) = Some (Done vs, ch) \<Longrightarrow>
    qstep s (s\<lparr>qs_queue := ch, qs_awake := qs_awake s - {#k#}, qs_received := qs_received s @ vs\<rparr>)"
| try_receive: "Queue_TryReceive (qs_queue s) = Some ((v, ok), ch) \<Longrightarrow>
    qstep s (s\<lparr>qs_queue := ch, qs_received := qs_received s @ (if ok then [v] else [])\<rparr>)"
| try_receive_batch: "Queue_TryReceiveBatch (qs_queue s) = Some ((vs, ok), ch) \<Longrightarrow>
    qstep s (s\<lparr>qs_queue := ch, qs_received := qs_received s @ vs\<rparr>)"
| close: "Queue_Close (qs_queue s) = Some (w, ch) \<Longrightarrow>
    qstep s ((if w = Broadcast then qs_wake_all s else s)\<lparr>qs_queue := ch\<rparr>)"

definition qs_init :: "'a Queue \<Rightarrow> 'a qsys" where
  "qs_init ch = \<lparr>qs_queue = ch, qs_signals = 0, qs_bcasts = 0, qs_asleep = {#}, qs_awake = {#},
                 qs_sent = [], qs_received = []\<rparr>"

inductive qs_reachable :: "'a \<Rightarrow> int \<Rightarrow> 'a qsys \<Rightarrow> bool" for z n where
  start: "NewQueue z n = Some ch \<Longrightarrow> qs_reachable z n (qs_init ch)"
| step: "qs_reachable z n s \<Longrightarrow> qstep s t \<Longrightarrow> qs_reachable z n t"

section \<open>The invariant\<close>

text \<open>
  While somebody sleeps, every element in the buffer is accounted for by a wake-up that is still
  on its way: a broadcast, a signal not yet delivered, or a receiver already woken.
\<close>

definition qs_inv :: "'a qsys \<Rightarrow> bool" where
  "qs_inv s \<longleftrightarrow> q_inv (qs_queue s) \<and>
     qs_sent s = qs_received s @ q_list (qs_queue s) \<and>
     (q_closed (qs_queue s) \<longrightarrow> qs_asleep s = {#}) \<and>
     (qs_asleep s \<noteq> {#} \<longrightarrow>
        0 < qs_bcasts s \<or> length (q_list (qs_queue s)) \<le> qs_signals s + size (qs_awake s))"

lemma qs_inv_init: "NewQueue z n = Some ch \<Longrightarrow> qs_inv (qs_init ch)"
  using NewQueue_spec [of z n ch] by (simp add: qs_inv_def qs_init_def)

lemma attempt_spec:
  assumes "q_inv ch"
  shows "\<exists>ch' vs. attempt k ch = Some (if q_list ch = [] \<and> \<not> q_closed ch then Waits else Done vs, ch') \<and>
           q_inv ch' \<and> vs @ q_list ch' = q_list ch \<and> q_closed ch' = q_closed ch \<and>
           (q_list ch \<noteq> [] \<longrightarrow> vs \<noteq> [])"
proof (cases k)
  case One
  with Queue_Receive_spec [OF assms] show ?thesis
    by (cases "q_list ch") auto
next
  case Batch
  with Queue_ReceiveBatch_spec [OF assms] show ?thesis
    by (cases "q_list ch") auto
qed

lemma attempt_waits:
  "q_inv ch \<Longrightarrow> attempt k ch = Some (Waits, ch') \<Longrightarrow>
   q_inv ch' \<and> q_list ch = [] \<and> q_list ch' = [] \<and> \<not> q_closed ch' \<and> \<not> q_closed ch"
  using attempt_spec [of ch k] by (auto split: if_splits)

lemma attempt_done:
  "q_inv ch \<Longrightarrow> attempt k ch = Some (Done vs, ch') \<Longrightarrow>
   q_inv ch' \<and> vs @ q_list ch' = q_list ch \<and> q_closed ch' = q_closed ch \<and>
   (q_list ch \<noteq> [] \<longrightarrow> vs \<noteq> [])"
  using attempt_spec [of ch k] by (auto split: if_splits)

lemma attempt_shrinks:
  assumes "q_inv ch" and "attempt k ch = Some (Done vs, ch')"
  shows "length (q_list ch') \<le> length (q_list ch)"
    and "q_list ch = [] \<or> Suc (length (q_list ch')) \<le> length (q_list ch)"
proof -
  have *: "vs @ q_list ch' = q_list ch" "q_list ch \<noteq> [] \<longrightarrow> vs \<noteq> []"
    using attempt_done [OF assms] by auto
  show "length (q_list ch') \<le> length (q_list ch)"
    unfolding *(1) [symmetric] by simp
  show "q_list ch = [] \<or> Suc (length (q_list ch')) \<le> length (q_list ch)"
    using *(2) unfolding *(1) [symmetric] by (cases vs) auto
qed

lemma size_remove1: "k \<in># M \<Longrightarrow> Suc (size (M - {#k#})) = size M"
  by (metis size_Suc_Diff1)

lemma qstep_inv: "qstep s t \<Longrightarrow> qs_inv s \<Longrightarrow> qs_inv t"
proof (induction rule: qstep.induct)
  case (send v s ok w ch)
  then show ?case
    using Queue_Send_spec [of "qs_queue s" v] by (auto simp: qs_inv_def qs_wakes_def)
next
  case (batch_send vs s ok w ch)
  then show ?case
    using Queue_BatchSend_spec [of "qs_queue s" vs]
    by (auto simp: qs_inv_def qs_wakes_def split: if_splits)
next
  case (signal s k)
  then show ?case by (auto simp: qs_inv_def)
next
  case (signal_nobody s)
  then show ?case by (auto simp: qs_inv_def)
next
  case (broadcast s)
  then show ?case by (auto simp: qs_inv_def qs_wake_all_def)
next
  case (receive_waits k s ch)
  then show ?case
    using attempt_waits [of "qs_queue s" k ch] by (auto simp: qs_inv_def)
next
  case (receive_returns k s vs ch)
  then have "q_inv (qs_queue s)" by (simp add: qs_inv_def)
  note attempt_shrinks(1) [OF this receive_returns(1)]
  with receive_returns show ?case
    using attempt_done [of "qs_queue s" k vs ch] by (auto simp: qs_inv_def)
next
  case (resume_waits k s ch)
  then show ?case
    using attempt_waits [of "qs_queue s" k ch] by (auto simp: qs_inv_def)
next
  case (resume_returns k s vs ch)
  then have "q_inv (qs_queue s)" by (simp add: qs_inv_def)
  note attempt_shrinks [OF this resume_returns(2)]
  with resume_returns show ?case
    using attempt_done [of "qs_queue s" k vs ch] size_remove1 [of k "qs_awake s"]
    by (auto simp: qs_inv_def)
next
  case (try_receive s v ok ch)
  then show ?case
    using Queue_TryReceive_spec [of "qs_queue s"]
    by (cases "q_list (qs_queue s)") (auto simp: qs_inv_def)
next
  case (try_receive_batch s vs ok ch)
  then show ?case
    using Queue_TryReceiveBatch_spec [of "qs_queue s"] by (auto simp: qs_inv_def)
next
  case (close s w ch)
  then show ?case
    using Queue_Close_spec [of "qs_queue s"] by (auto simp: qs_inv_def qs_wake_all_def)
qed

lemma qs_reachable_inv: "qs_reachable z n s \<Longrightarrow> qs_inv s"
  by (induction rule: qs_reachable.induct) (blast intro: qs_inv_init qstep_inv)+


section \<open>A concrete run\<close>

text \<open>
  A receiver finds the queue empty and goes to sleep; a sender pushes 7 and has not yet signalled.
\<close>

definition qs_demo :: "nat qsys" where
  "qs_demo = \<lparr>qs_queue = \<lparr>q_buffer = \<lparr>rb_buffer = [7, 0], rb_size = 2, rb_head = 0, rb_tail = 1,
       rb_count = 1, rb_zero = 0\<rparr>, q_closed = False, q_notifyClosed = False\<rparr>,
     qs_signals = 1, qs_bcasts = 0, qs_asleep = {#One#}, qs_awake = {#}, qs_sent = [7],
     qs_received = []\<rparr>"

lemma qs_demo_reachable: "qs_reachable 0 2 qs_demo"
proof -
  define ch where "ch = \<lparr>q_buffer = \<lparr>rb_buffer = [0, 0 :: nat], rb_size = 2, rb_head = 0, rb_tail = 0,
       rb_count = 0, rb_zero = 0\<rparr>, q_closed = False, q_notifyClosed = False\<rparr>"
  define s1 where "s1 = (qs_init ch)\<lparr>qs_queue := ch, qs_asleep := add_mset One {#}\<rparr>"
  have "NewQueue 0 2 = Some ch"
    by (simp add: ch_def NewQueue_def NewRingBuffer_def numeral_2_eq_2)
  then have 0: "qs_reachable 0 2 (qs_init ch)" by (rule qs_reachable.start)
  have "attempt One (qs_queue (qs_init ch)) = Some (Waits, ch)"
    by (simp add: ch_def qs_init_def Queue_Receive_def Count_def)
  then have "qstep (qs_init ch) s1"
    using qstep.receive_waits [of One "qs_init ch" ch] by (simp add: s1_def qs_init_def)
  with 0 have 1: "qs_reachable 0 2 s1" by (rule qs_reachable.step)
  have "Queue_Send 7 (qs_queue s1) = Some ((True, Signal), qs_queue qs_demo)"
    by (simp add: s1_def ch_def qs_demo_def Queue_Send_def Push_def IsFull_def rb_put_def
        go_store_def go_mod_def)
  then have "qstep s1 (qs_wakes Signal (s1\<lparr>qs_queue := qs_queue qs_demo, qs_sent := qs_sent s1 @ [7]\<rparr>))"
    using qstep.send [of 7 s1 True Signal "qs_queue qs_demo"] by simp
  also have "qs_wakes Signal (s1\<lparr>qs_queue := qs_queue qs_demo, qs_sent := qs_sent s1 @ [7]\<rparr>) = qs_demo"
    by (simp add: qs_wakes_def s1_def qs_init_def qs_demo_def)
  finally show ?thesis by (rule qs_reachable.step [OF 1])
qed

lemma qs_demo_state: "qs_asleep qs_demo = {#One#}" "q_list (qs_queue qs_demo) = [7]"
  "qs_sent qs_demo = [7]" "qs_received qs_demo = []" "\<not> q_closed (qs_queue qs_demo)"
  by (simp_all add: qs_demo_def q_list_def rb_list_def rb_slot_def)

section \<open>The wake-ups on their way\<close>

text \<open>
  The steps of \<open>qstep\<close> that only carry out wake-ups already under way: a pending \<open>Signal\<close> or
  \<open>Broadcast\<close> is called, a woken receiver gets the mutex. Nobody sends, closes or calls a receive.
\<close>

inductive wake_step :: "'a qsys \<Rightarrow> 'a qsys \<Rightarrow> bool" where
  signal: "0 < qs_signals s \<Longrightarrow> k \<in># qs_asleep s \<Longrightarrow>
    wake_step s (s\<lparr>qs_signals := qs_signals s - 1, qs_asleep := qs_asleep s - {#k#},
                   qs_awake := add_mset k (qs_awake s)\<rparr>)"
| signal_nobody: "0 < qs_signals s \<Longrightarrow> qs_asleep s = {#} \<Longrightarrow>
    wake_step s (s\<lparr>qs_signals := qs_signals s - 1\<rparr>)"
| broadcast: "0 < qs_bcasts s \<Longrightarrow> wake_step s ((qs_wake_all s)\<lparr>qs_bcasts := qs_bcasts s - 1\<rparr>)"
| resume_waits: "k \<in># qs_awake s \<Longrightarrow> attempt k (qs_queue s) = Some (Waits, ch) \<Longrightarrow>
    wake_step s (s\<lparr>qs_queue := ch, qs_awake := qs_awake s - {#k#}, qs_asleep := add_mset k (qs_asleep s)\<rparr>)"
| resume_returns: "k \<in># qs_awake s \<Longrightarrow> attempt k (qs_queue s) = Some (Done vs, ch) \<Longrightarrow>
    wake_step s (s\<lparr>qs_queue := ch, qs_awake := qs_awake s - {#k#}, qs_received := qs_received s @ vs\<rparr>)"

lemma wake_step_qstep: "wake_step s t \<Longrightarrow> qstep s t"
  by (induction rule: wake_step.induct) (rule qstep.intros; assumption)+

text \<open>How much is left to do: each call may wake every receiver there is.\<close>

definition wake_work :: "'a qsys \<Rightarrow> nat" where
  "wake_work s = (qs_signals s + qs_bcasts s) * Suc (size (qs_asleep s) + size (qs_awake s)) + size (qs_awake s)"

lemma wake_step_works: "wake_step s t \<Longrightarrow> wake_work t < wake_work s"
proof (induction rule: wake_step.induct)
  case (signal s k)
  then obtain m where "qs_signals s = Suc m" by (cases "qs_signals s") auto
  moreover from signal(2) obtain l where "size (qs_asleep s) = Suc l" "size (qs_asleep s - {#k#}) = l"
    using size_remove1 [of k "qs_asleep s"] by simp
  ultimately show ?case by (simp add: wake_work_def)
next
  case (signal_nobody s)
  then show ?case by (cases "qs_signals s") (auto simp: wake_work_def)
next
  case (broadcast s)
  then show ?case by (cases "qs_bcasts s") (auto simp: wake_work_def qs_wake_all_def add.commute)
next
  case (resume_waits k s ch)
  then obtain m where "size (qs_awake s) = Suc m" "size (qs_awake s - {#k#}) = m"
    using size_remove1 [of k "qs_awake s"] by simp
  then show ?case by (simp add: wake_work_def)
next
  case (resume_returns k s vs ch)
  then obtain m where "size (qs_awake s) = Suc m" "size (qs_awake s - {#k#}) = m"
    using size_remove1 [of k "qs_awake s"] by simp
  then show ?case by (simp add: wake_work_def)
qed

lemma wake_steps_bound: "(wake_step ^^ k) s t \<Longrightarrow> k + wake_work t \<le> wake_work s"
proof (induction k arbitrary: t)
  case (Suc k)
  then obtain u where "(wake_step ^^ k) s u" "wake_step u t" by auto
  with Suc.IH [of u] wake_step_works [of u t] show ?case by simp
qed simp

lemma wake_steps_inv: "(wake_step ^^ k) s t \<Longrightarrow> qs_inv s \<Longrightarrow> qs_inv t"
  by (induction k arbitrary: t) (auto intro: qstep_inv wake_step_qstep)

text \<open>Where no such step is left, nobody sleeps beside an element.\<close>

lemma wake_step_progress:
  assumes "qs_inv s" and "\<nexists>t. wake_step s t"
  shows "qs_asleep s = {#} \<or> q_list (qs_queue s) = [] \<and> \<not> q_closed (qs_queue s)"
proof -
  have q: "q_inv (qs_queue s)" using assms(1) by (simp add: qs_inv_def)
  have "qs_signals s = 0"
  proof (rule ccontr)
    assume "qs_signals s \<noteq> 0"
    then show False
      using wake_step.signal [of s] wake_step.signal_nobody [of s] assms(2) by (metis multiset_nonemptyE neq0_conv)
  qed
  moreover have "qs_bcasts s = 0" using wake_step.broadcast [of s] assms(2) by blast
  moreover have "qs_awake s = {#}"
  proof (rule ccontr)
    assume "qs_awake s \<noteq> {#}"
    then obtain k where k: "k \<in># qs_awake s" by blast
    obtain r ch where "attempt k (qs_queue s) = Some (r, ch)" using attempt_spec [OF q, of k] by blast
    with k show False
      using wake_step.resume_waits [of k s ch] wake_step.resume_returns [of k s _ ch] assms(2) by (cases r) auto
  qed
  ultimately show ?thesis using assms(1) by (auto simp: qs_inv_def)
qed

section \<open>Main theorems\<close>

text \<open>
  C2. No wake-up is lost. In every reachable interleaving, while a receiver sleeps the queue is open,
  and unless a broadcast is pending the elements in the buffer are at most as many as the wake-ups on
  their way: the pending signals and the receivers that were woken and wait for the mutex. And these
  do their work: left to themselves, in any order, they come to an end after at most \<open>wake_work\<close> steps,
  and only in a state where nobody sleeps or the queue is empty and open. So no receiver sleeps for
  ever beside an element or on a closed queue. A wake-up may reach another receiver, which then
  takes the element.
\<close>

theorem queue_no_lost_wakeup:
  assumes "qs_reachable z n s" and "(wake_step ^^ k) s t"
  shows "(qs_asleep s \<noteq> {#} \<longrightarrow> \<not> q_closed (qs_queue s) \<and>
      (0 < qs_bcasts s \<or> length (q_list (qs_queue s)) \<le> qs_signals s + size (qs_awake s))) \<and>
    k \<le> wake_work s \<and>
    ((\<exists>u. wake_step t u) \<or> qs_asleep t = {#} \<or> q_list (qs_queue t) = [] \<and> \<not> q_closed (qs_queue t))"
proof -
  have inv: "qs_inv s" using assms(1) by (rule qs_reachable_inv)
  with wake_step_progress [OF wake_steps_inv [OF assms(2) inv]] wake_steps_bound [OF assms(2)] show ?thesis
    by (auto simp: qs_inv_def)
qed

theorem queue_no_lost_wakeup_witness:
  "\<exists>t. qs_reachable 0 2 qs_demo \<and> (wake_step ^^ 1) qs_demo t \<and> qs_asleep t = {#} \<and> qs_awake t = {#One#} \<and>
     qs_asleep qs_demo \<noteq> {#} \<and> 1 \<le> qs_signals qs_demo + size (qs_awake qs_demo) \<and> 1 \<le> wake_work qs_demo"
proof -
  let ?t = "qs_demo\<lparr>qs_signals := 0, qs_asleep := {#}, qs_awake := {#One#}\<rparr>"
  have "(wake_step ^^ 1) qs_demo ?t"
    unfolding relpowp_1 using wake_step.signal [of qs_demo One] by (simp add: qs_demo_def)
  from queue_no_lost_wakeup [OF qs_demo_reachable this] this qs_demo_reachable show ?thesis
    by (intro exI [of _ ?t]) (auto simp: qs_demo_state, simp add: qs_demo_def)
qed

text \<open>
  C3. First in, first out under every interleaving: in every reachable state the elements all
  successful sends put in (in the order of their critical sections) are the elements the receivers
  took out, in order, followed by what is still in the buffer. Nothing is lost, duplicated or
  reordered, also across growth and \<open>Close\<close>.
\<close>

theorem queue_fifo:
  assumes "qs_reachable z n s"
  shows "qs_sent s = qs_received s @ q_list (qs_queue s)"
  using qs_reachable_inv [OF assms] by (auto simp: qs_inv_def)

theorem queue_fifo_witness:
  "qs_reachable 0 2 qs_demo \<and> qs_sent qs_demo = qs_received qs_demo @ q_list (qs_queue qs_demo) \<and>
   qs_sent qs_demo = [7]"
  using queue_fifo [OF qs_demo_reachable] qs_demo_reachable by (simp add: qs_demo_state)

text \<open>
  C4. No critical section panics in any reachable state: every method of the queue returns or goes
  to sleep, and a receiver goes to sleep exactly when the queue is open and empty. In particular
  closing a queue twice does not close \<open>notifyClose\<close> twice.
\<close>

theorem queue_never_panics:
  assumes "qs_reachable z n s"
  shows "Queue_Send v (qs_queue s) \<noteq> None \<and> Queue_BatchSend vs (qs_queue s) \<noteq> None \<and>
    Queue_TryReceive (qs_queue s) \<noteq> None \<and> Queue_TryReceiveBatch (qs_queue s) \<noteq> None \<and>
    Queue_Close (qs_queue s) \<noteq> None \<and>
    (\<exists>r ch. attempt k (qs_queue s) = Some (r, ch) \<and>
       (r = Waits \<longleftrightarrow> q_list (qs_queue s) = [] \<and> \<not> q_closed (qs_queue s)))"
proof -
  have q: "q_inv (qs_queue s)" using qs_reachable_inv [OF assms] by (simp add: qs_inv_def)
  show ?thesis
    using Queue_Send_spec [OF q, of v] Queue_BatchSend_spec [OF q, of vs] Queue_TryReceive_spec [OF q]
      Queue_TryReceiveBatch_spec [OF q] Queue_Close_spec [OF q] attempt_spec [OF q, of k]
    by (intro conjI) (fastforce split: if_splits)+
qed

theorem queue_never_panics_witness:
  "qs_reachable 0 2 qs_demo \<and> Queue_Close (qs_queue qs_demo) \<noteq> None \<and>
   Queue_BatchSend [1, 2, 3] (qs_queue qs_demo) \<noteq> None"
  using queue_never_panics [OF qs_demo_reachable, of 0 "[1, 2, 3]"] qs_demo_reachable by blast

end
