(* ===== verification/Vactor.thy ===== *)
theory Vactor
  imports Prelude
begin

text \<open>
  What dvactor uses of the vactor library, whose source is not part of the repository. Its integer
  types and constants are parameters (\<open>vactor_api\<close>); the values that travel through dvactor's code
  (actor references, messages, envelopes) are modelled by the fields dvactor reads and writes.
\<close>

section \<open>Go integer conversions\<close>

text \<open>
  A Go integer type by its width and signedness, and the conversion \<open>T(x)\<close>: the value is cut to the
  width and read as unsigned or two's complement, whatever the type of \<open>x\<close>.
\<close>

datatype int_type = UInt nat | SInt nat

fun int_width :: "int_type \<Rightarrow> nat" where
  "int_width (UInt w) = w"
| "int_width (SInt w) = w"

fun go_conv :: "int_type \<Rightarrow> int \<Rightarrow> int" where
  "go_conv (UInt w) x = x mod 2 ^ w"
| "go_conv (SInt w) x = (x + 2 ^ (w - 1)) mod 2 ^ w - 2 ^ (w - 1)"

text \<open>\<open>x\<close> is a value of the type.\<close>

definition has_type :: "int_type \<Rightarrow> int \<Rightarrow> bool" where
  "has_type t x \<longleftrightarrow> go_conv t x = x"

definition to_u32 :: "int \<Rightarrow> u32" where "to_u32 x = word_of_int x"

lemma go_conv_idem: "go_conv t (go_conv t x) = go_conv t x"
  by (cases t) simp_all

lemma has_type_conv: "has_type t (go_conv t x)"
  by (simp add: has_type_def go_conv_idem)

lemma go_conv_cong: "x mod 2 ^ int_width t = y mod 2 ^ int_width t \<Longrightarrow> go_conv t x = go_conv t y"
  by (cases t) (auto intro: mod_add_cong)

lemma go_conv_mod: "go_conv t x mod 2 ^ int_width t = x mod 2 ^ int_width t"
proof (cases t)
  case (SInt w)
  have "((x + 2 ^ (w - 1)) mod 2 ^ w - 2 ^ (w - 1)) mod 2 ^ w = (x + 2 ^ (w - 1) - 2 ^ (w - 1)) mod 2 ^ w"
    by (rule mod_diff_left_eq)
  with SInt show ?thesis by simp
qed simp

text \<open>Converting through a wider type first changes nothing.\<close>

lemma go_conv_trans:
  assumes "int_width t \<le> int_width u"
  shows "go_conv t (go_conv u x) = go_conv t x"
proof (rule go_conv_cong)
  have "(2::int) ^ int_width t dvd 2 ^ int_width u" using assms by (rule le_imp_power_dvd)
  with go_conv_mod [of u x] show "go_conv u x mod 2 ^ int_width t = x mod 2 ^ int_width t"
    by (metis mod_mod_cancel)
qed

text \<open>A value of a type of at most 32 bits survives the trip through a \<open>uint32\<close> field.\<close>

lemma go_conv_via_u32:
  assumes "int_width t \<le> 32" and "has_type t x"
  shows "go_conv t (uint (to_u32 x)) = x"
proof -
  have "(2::int) ^ int_width t dvd 2 ^ 32" using assms(1) by (rule le_imp_power_dvd)
  moreover have "uint (to_u32 x) = x mod 2 ^ 32"
    by (simp add: to_u32_def uint_word_of_int)
  ultimately have "uint (to_u32 x) mod 2 ^ int_width t = x mod 2 ^ int_width t"
    by (metis mod_mod_cancel)
  then have "go_conv t (uint (to_u32 x)) = go_conv t x" by (rule go_conv_cong)
  with assms(2) show ?thesis by (simp add: has_type_def)
qed

section \<open>Parameters\<close>

record vactor_api =
  SystemId_t :: int_type
  GroupSlot_t :: int_type
  ActorType_t :: int_type
  WatchType_t :: int_type
  NotifyType_t :: int_type
  CallbackId_t :: int_type
  ErrorCode_t :: int_type
  va_ActorTypeStart :: int
  va_ErrorCodeCustomStart :: int

text \<open>
  The numeric types that travel in \<open>uint32\<close> fields of the wire protocol fit there, and error codes
  fit the \<open>int32\<close> of the protocol's enum: what the protocol presumes of vactor.
\<close>

definition wire_types_ok :: "vactor_api \<Rightarrow> bool" where
  "wire_types_ok V \<longleftrightarrow> int_width (SystemId_t V) \<le> 32 \<and> int_width (GroupSlot_t V) \<le> 32 \<and>
     int_width (ActorType_t V) \<le> 32 \<and> int_width (WatchType_t V) \<le> 32 \<and>
     int_width (NotifyType_t V) \<le> 32 \<and> int_width (CallbackId_t V) \<le> 32 \<and>
     int_width (ErrorCode_t V) \<le> 32 \<and> 0 < int_width (ErrorCode_t V)"

text \<open>A choice of the parameters, for the witnesses.\<close>

definition demo_api :: vactor_api where
  "demo_api = \<lparr>SystemId_t = UInt 16, GroupSlot_t = UInt 16, ActorType_t = UInt 32, WatchType_t = UInt 32,
     NotifyType_t = UInt 8, CallbackId_t = UInt 32, ErrorCode_t = SInt 32, va_ActorTypeStart = 10,
     va_ErrorCodeCustomStart = 100\<rparr>"

section \<open>Actor references, messages, envelopes\<close>

record ActorRefImpl =
  ar_SystemId :: int
  ar_GroupSlot :: int
  ar_ActorType :: int
  ar_ActorId :: string

text \<open>A value of the interface type \<open>vactor.ActorRef\<close>; \<open>None\<close> is \<open>nil\<close>.\<close>

type_synonym ActorRef = "ActorRefImpl option"

text \<open>A value of type \<open>vactor.VAError\<close>, seen through \<open>Code()\<close>; \<open>None\<close> is \<open>nil\<close>.\<close>

type_synonym VAError = "int option"

definition ref_ok :: "vactor_api \<Rightarrow> ActorRefImpl \<Rightarrow> bool" where
  "ref_ok V r \<longleftrightarrow> has_type (SystemId_t V) (ar_SystemId r) \<and> has_type (GroupSlot_t V) (ar_GroupSlot r) \<and>
     has_type (ActorType_t V) (ar_ActorType r)"

text \<open>
  A message is any Go value (\<open>interface{}\<close>). A generated protobuf message is its reflected type and
  its content of type \<open>'p\<close>; a queue or channel is its address. \<open>OtherMsg\<close> stands for values of any
  other type. Types other than \<open>ProtoMsg\<close> do not implement \<open>proto.Message\<close>.
\<close>

datatype 'p message =
    MsgNil
  | ProtoMsg nat 'p
  | InnerWatch int bool
  | OuterWatch int bool nat
  | OuterRequest ActorRef "'p message" nat
  | MsgOnStart
  | MsgOnWatchMsg ActorRef int "'p message"
  | MsgOnEventMsg int "'p message"
  | OtherMsg nat

text \<open>\<open>vactor.Response\<close>: error and message.\<close>

type_synonym 'p Response = "VAError \<times> 'p message"

text \<open>
  The envelopes, with the fields dvactor uses in the order of the composite literals of the code:
  first \<open>FromActorRef\<close>, then \<open>ToActorRef\<close> (or \<open>ToActorRefs\<close>), then the rest. The embedded
  \<open>*Response\<close> and the \<open>*MsgOnWatchMsg\<close> of a notification are pointers that may be \<open>nil\<close>.
  \<open>EnvelopeOther\<close> stands for vactor's internal envelopes.
\<close>

datatype 'p envelope =
    EnvelopeSend ActorRef ActorRef "'p message"
  | EnvelopeBatchSend ActorRef "ActorRef list" "'p message list"
  | EnvelopeRequestAsync ActorRef ActorRef "'p message" int u64
  | EnvelopeResponseAsync ActorRef ActorRef "'p Response option" int u64
  | EnvelopeRequest ActorRef ActorRef "'p message" int
  | EnvelopeResponse ActorRef ActorRef "'p Response option" int
  | EnvelopeWatch ActorRef ActorRef int bool
  | EnvelopeNotify ActorRef "ActorRef list" int "(ActorRef \<times> int \<times> 'p message) option"
  | EnvelopeFireNotify ActorRef ActorRef int int "'p message"
  | EnvelopeOuterRequest ActorRef "'p message" nat
  | EnvelopeOuterWatch ActorRef int bool nat
  | EnvelopeOther ActorRef

text \<open>\<open>GetToActorRef\<close>, for the envelopes that have one addressee.\<close>

fun GetToActorRef :: "'p envelope \<Rightarrow> ActorRef" where
  "GetToActorRef (EnvelopeSend _ t _) = t"
| "GetToActorRef (EnvelopeRequestAsync _ t _ _ _) = t"
| "GetToActorRef (EnvelopeResponseAsync _ t _ _ _) = t"
| "GetToActorRef (EnvelopeRequest _ t _ _) = t"
| "GetToActorRef (EnvelopeResponse _ t _ _) = t"
| "GetToActorRef (EnvelopeWatch _ t _ _) = t"
| "GetToActorRef (EnvelopeFireNotify _ t _ _ _) = t"
| "GetToActorRef (EnvelopeOuterRequest t _ _) = t"
| "GetToActorRef (EnvelopeOuterWatch t _ _ _) = t"
| "GetToActorRef (EnvelopeOther t) = t"
| "GetToActorRef (EnvelopeBatchSend _ _ _) = None"
| "GetToActorRef (EnvelopeNotify _ _ _ _) = None"

section \<open>Error codes of dvactor\<close>

text \<open>The constants of \<open>error.go\<close>.\<close>

definition ErrorCodeMessageCannotSerialize :: "vactor_api \<Rightarrow> int" where
  "ErrorCodeMessageCannotSerialize V = va_ErrorCodeCustomStart V + 1"
definition ErrorCodeMessageNotRegister :: "vactor_api \<Rightarrow> int" where
  "ErrorCodeMessageNotRegister V = va_ErrorCodeCustomStart V + 2"
definition ErrorCodeMessageSerializeFail :: "vactor_api \<Rightarrow> int" where
  "ErrorCodeMessageSerializeFail V = va_ErrorCodeCustomStart V + 3"
definition ErrorCodeMessageLenError :: "vactor_api \<Rightarrow> int" where
  "ErrorCodeMessageLenError V = va_ErrorCodeCustomStart V + 4"
definition ErrorCodeUnknownEnvelope :: "vactor_api \<Rightarrow> int" where
  "ErrorCodeUnknownEnvelope V = va_ErrorCodeCustomStart V + 5"
definition ErrorCodeMessageSendFail :: "vactor_api \<Rightarrow> int" where
  "ErrorCodeMessageSendFail V = va_ErrorCodeCustomStart V + 6"
definition ErrorCodeCustomStart :: "vactor_api \<Rightarrow> int" where
  "ErrorCodeCustomStart V = va_ErrorCodeCustomStart V + 100"

lemmas error_codes = ErrorCodeMessageCannotSerialize_def ErrorCodeMessageNotRegister_def
  ErrorCodeMessageSerializeFail_def ErrorCodeMessageLenError_def ErrorCodeUnknownEnvelope_def
  ErrorCodeMessageSendFail_def ErrorCodeCustomStart_def

end
