(* ===== verification/Protocol.thy ===== *)
theory Protocol
  imports Vactor
begin

text \<open>
  The messages of \<open>protocol/cluster.proto\<close> (Go structs in \<open>cluster.pb.go\<close>), the package numbers,
  and the protobuf library as a parameter: its \<open>Marshal\<close> and \<open>Unmarshal\<close> are not in the repository.
\<close>

section \<open>Package numbers and error codes\<close>

definition PkgTypeEnvelopeSend :: u32 where "PkgTypeEnvelopeSend = 1"
definition PkgTypeEnvelopeBatchSend :: u32 where "PkgTypeEnvelopeBatchSend = 2"
definition PkgTypeEnvelopeRequestAsync :: u32 where "PkgTypeEnvelopeRequestAsync = 3"
definition PkgTypeEnvelopeResponseAsync :: u32 where "PkgTypeEnvelopeResponseAsync = 4"
definition PkgTypeEnvelopeRequest :: u32 where "PkgTypeEnvelopeRequest = 5"
definition PkgTypeEnvelopeResponse :: u32 where "PkgTypeEnvelopeResponse = 6"
definition PkgTypeEnvelopeWatch :: u32 where "PkgTypeEnvelopeWatch = 7"
definition PkgTypeEnvelopeNotify :: u32 where "PkgTypeEnvelopeNotify = 8"
definition PkgTypeEnvelopeFireNotify :: u32 where "PkgTypeEnvelopeFireNotify = 9"
definition PkgTypeRegisterSystemReq :: u32 where "PkgTypeRegisterSystemReq = 10"
definition PkgTypeRegisterSystemRsp :: u32 where "PkgTypeRegisterSystemRsp = 11"

lemmas pkg_types = PkgTypeEnvelopeSend_def PkgTypeEnvelopeBatchSend_def
  PkgTypeEnvelopeRequestAsync_def PkgTypeEnvelopeResponseAsync_def PkgTypeEnvelopeRequest_def
  PkgTypeEnvelopeResponse_def PkgTypeEnvelopeWatch_def PkgTypeEnvelopeNotify_def
  PkgTypeEnvelopeFireNotify_def PkgTypeRegisterSystemReq_def PkgTypeRegisterSystemRsp_def

definition ErrorCodeSuccess :: int where "ErrorCodeSuccess = 0"
definition ErrorCodeTimeout :: int where "ErrorCodeTimeout = 1"
definition ErrorCodeInvalidActor :: int where "ErrorCodeInvalidActor = 2"

section \<open>Messages\<close>

record PMessage =
  pm_Type :: u32
  pm_Data :: bytes

record PActorRef =
  pa_SystemId :: u32
  pa_GroupSlot :: u32
  pa_ActorType :: u32
  pa_ActorId :: string

text \<open>The enum value of a response is an \<open>int32\<close>.\<close>

record PResponse =
  pr_ErrorCode :: int
  pr_Message :: "PMessage option"

text \<open>Fields of message type are pointers (\<open>None\<close> is \<open>nil\<close>), in the order of the proto file.\<close>

datatype pkg =
    PkgEnvelopeSend "PActorRef option" "PActorRef option" "PMessage option"
  | PkgEnvelopeBatchSend "PActorRef option" "PActorRef option list" "PMessage option list"
  | PkgEnvelopeRequestAsync "PActorRef option" "PActorRef option" "PMessage option" u32 u64
  | PkgEnvelopeResponseAsync "PActorRef option" "PActorRef option" "PResponse option" u32 u64
  | PkgEnvelopeRequest "PActorRef option" "PActorRef option" "PMessage option" u32
  | PkgEnvelopeResponse "PActorRef option" "PActorRef option" "PResponse option" u32
  | PkgEnvelopeWatch "PActorRef option" "PActorRef option" u32 bool
  | PkgEnvelopeNotify "PActorRef option" "PActorRef option list" u32 "PActorRef option" u32 "PMessage option"
  | PkgEnvelopeFireNotify "PActorRef option" "PActorRef option" u32 u32 "PMessage option"
  | PkgRegisterSystemReq u32
  | PkgRegisterSystemRsp int

text \<open>The package number under which \<open>Send\<close> and the registration send each message.\<close>

fun pkg_kind :: "pkg \<Rightarrow> u32" where
  "pkg_kind (PkgEnvelopeSend _ _ _) = PkgTypeEnvelopeSend"
| "pkg_kind (PkgEnvelopeBatchSend _ _ _) = PkgTypeEnvelopeBatchSend"
| "pkg_kind (PkgEnvelopeRequestAsync _ _ _ _ _) = PkgTypeEnvelopeRequestAsync"
| "pkg_kind (PkgEnvelopeResponseAsync _ _ _ _ _) = PkgTypeEnvelopeResponseAsync"
| "pkg_kind (PkgEnvelopeRequest _ _ _ _) = PkgTypeEnvelopeRequest"
| "pkg_kind (PkgEnvelopeResponse _ _ _ _) = PkgTypeEnvelopeResponse"
| "pkg_kind (PkgEnvelopeWatch _ _ _ _) = PkgTypeEnvelopeWatch"
| "pkg_kind (PkgEnvelopeNotify _ _ _ _ _ _) = PkgTypeEnvelopeNotify"
| "pkg_kind (PkgEnvelopeFireNotify _ _ _ _ _) = PkgTypeEnvelopeFireNotify"
| "pkg_kind (PkgRegisterSystemReq _) = PkgTypeRegisterSystemReq"
| "pkg_kind (PkgRegisterSystemRsp _) = PkgTypeRegisterSystemRsp"

section \<open>The protobuf library\<close>

text \<open>
  \<open>proto.Marshal\<close> and \<open>proto.Unmarshal\<close>, on the packages above and on the user's messages, which are
  told apart by their reflected type. \<open>None\<close> is an error result. \<open>Unmarshal_pkg k\<close> reads into an
  empty package of kind \<open>k\<close>.
\<close>

record 'p proto_lib =
  Marshal_pkg :: "pkg \<Rightarrow> bytes option"
  Unmarshal_pkg :: "u32 \<Rightarrow> bytes \<Rightarrow> pkg option"
  Marshal_msg :: "nat \<Rightarrow> 'p \<Rightarrow> bytes option"
  Unmarshal_msg :: "nat \<Rightarrow> bytes \<Rightarrow> 'p option"

text \<open>
  The documented behaviour the program relies on: what was marshalled without an error is
  unmarshalled to the same message. A \<open>nil\<close> element of a repeated field is not preserved by
  protobuf (it is written as an empty message), so packages with one are excepted.
\<close>

fun no_nil_elements :: "pkg \<Rightarrow> bool" where
  "no_nil_elements (PkgEnvelopeBatchSend _ rs ms) = (None \<notin> set rs \<and> None \<notin> set ms)"
| "no_nil_elements (PkgEnvelopeNotify _ rs _ _ _ _) = (None \<notin> set rs)"
| "no_nil_elements _ = True"

definition proto_ok :: "'p proto_lib \<Rightarrow> bool" where
  "proto_ok P \<longleftrightarrow>
     (\<forall>p bs. no_nil_elements p \<longrightarrow> Marshal_pkg P p = Some bs \<longrightarrow>
        Unmarshal_pkg P (pkg_kind p) bs = Some p) \<and>
     (\<forall>t c bs. Marshal_msg P t c = Some bs \<longrightarrow> Unmarshal_msg P t bs = Some c)"

lemma proto_ok_pkg:
  "proto_ok P \<Longrightarrow> no_nil_elements p \<Longrightarrow> Marshal_pkg P p = Some bs \<Longrightarrow>
   Unmarshal_pkg P (pkg_kind p) bs = Some p"
  by (simp add: proto_ok_def)

lemma proto_ok_msg:
  "proto_ok P \<Longrightarrow> Marshal_msg P t c = Some bs \<Longrightarrow> Unmarshal_msg P t bs = Some c"
  by (simp add: proto_ok_def)

end
