(* ===== verification/System.thy ===== *)
theory System
  imports Protocol
begin

text \<open>
  The message registry and serialization of \<open>system.go\<close>, the guard on user actor types, the cluster
  configuration, and \<open>errorCodeToVAError\<close> of \<open>error.go\<close>. A message creator is represented by the
  reflected type of the message it creates, all the code observes of it.
\<close>

section \<open>Configuration\<close>

record SystemConfig =
  sc_SystemId :: int
  sc_Host :: string
  sc_Port :: u16
  sc_ActorTypes :: "int list"

record ClusterConfig =
  cc_LocalSystemId :: int
  cc_SystemConfigs :: "SystemConfig list"
  cc_ConnectTimeout :: int

text \<open>A cluster of two systems, for the witnesses; the argument is the local system.\<close>

definition demo_cluster :: "int \<Rightarrow> ClusterConfig" where
  "demo_cluster sid = \<lparr>cc_LocalSystemId = sid, cc_SystemConfigs =
     [\<lparr>sc_SystemId = 1, sc_Host = ''localhost'', sc_Port = 8001, sc_ActorTypes = [5, 20]\<rparr>,
      \<lparr>sc_SystemId = 2, sc_Host = ''localhost'', sc_Port = 8002, sc_ActorTypes = [5, 20]\<rparr>],
     cc_ConnectTimeout = 0\<rparr>"

section \<open>Actor types\<close>

definition ActorTypeStart :: "vactor_api \<Rightarrow> int" where
  "ActorTypeStart V = va_ActorTypeStart V + 10"

definition RequestProxyActorType :: "vactor_api \<Rightarrow> int" where
  "RequestProxyActorType V = va_ActorTypeStart V + 1"

definition WatchProxyActorType :: "vactor_api \<Rightarrow> int" where
  "WatchProxyActorType V = va_ActorTypeStart V + 2"

text \<open>
  \<open>RegisterActorType\<close> panics on a type below the start; \<open>reg\<close> is the registration of the embedded
  vactor system.
\<close>

definition RegisterActorType :: "vactor_api \<Rightarrow> (int \<Rightarrow> 's \<Rightarrow> 's) \<Rightarrow> int \<Rightarrow> 's \<Rightarrow> 's option" where
  "RegisterActorType V reg actorType s =
     (if actorType < ActorTypeStart V then None else Some (reg actorType s))"

section \<open>The message registry\<close>

record msg_registry =
  msgTypeIds :: "nat \<rightharpoonup> u32"
  msgCreators :: "u32 \<rightharpoonup> nat"

definition empty_registry :: msg_registry where
  "empty_registry = \<lparr>msgTypeIds = Map.empty, msgCreators = Map.empty\<rparr>"

definition RegisterMessageType :: "u32 \<Rightarrow> nat \<Rightarrow> msg_registry \<Rightarrow> msg_registry" where
  "RegisterMessageType msgType rtype s =
     s\<lparr>msgTypeIds := (msgTypeIds s)(rtype \<mapsto> msgType),
       msgCreators := (msgCreators s)(msgType \<mapsto> rtype)\<rparr>"

fun register_all :: "(u32 \<times> nat) list \<Rightarrow> msg_registry \<Rightarrow> msg_registry" where
  "register_all [] s = s"
| "register_all ((t, r) # rs) s = register_all rs (RegisterMessageType t r s)"

text \<open>\<open>Inl\<close> is the \<open>VAError\<close>'s code.\<close>

definition MarshalMessage ::
  "vactor_api \<Rightarrow> 'p proto_lib \<Rightarrow> msg_registry \<Rightarrow> 'p message \<Rightarrow> int + PMessage" where
  "MarshalMessage V P s msg =
     (case msg of
        ProtoMsg rtype content \<Rightarrow>
          (case msgTypeIds s rtype of
             None \<Rightarrow> Inl (ErrorCodeMessageNotRegister V)
           | Some msgType \<Rightarrow>
               (case Marshal_msg P rtype content of
                  None \<Rightarrow> Inl (ErrorCodeMessageSerializeFail V)
                | Some d \<Rightarrow>
                    let data = PutUint32 msgType
                    in Inr \<lparr>pm_Type = msgType, pm_Data = data @ d\<rparr>))
      | _ \<Rightarrow> Inl (ErrorCodeMessageCannotSerialize V))"

text \<open>The argument is a pointer: reading a field through \<open>nil\<close> panics.\<close>

definition UnmarshalMessage ::
  "'p proto_lib \<Rightarrow> msg_registry \<Rightarrow> PMessage option \<Rightarrow> (string + 'p message) option" where
  "UnmarshalMessage P s protoMsg =
     (case protoMsg of
        None \<Rightarrow> None
      | Some m \<Rightarrow> Some (
          if length (pm_Data m) < 4 then Inl ''len error''
          else case msgCreators s (pm_Type m) of
                 None \<Rightarrow> Inl ''can not find msg type creator''
               | Some rtype \<Rightarrow>
                   (case Unmarshal_msg P rtype (drop 4 (pm_Data m)) of
                      None \<Rightarrow> Inl ''unmarshal''
                    | Some c \<Rightarrow> Inr (ProtoMsg rtype c))))"

section \<open>Error codes on the wire\<close>

text \<open>\<open>protocol.ErrorCode(e.Code())\<close>, and 0 for no error, as \<open>Send\<close> writes them; and back.\<close>

definition errorCodeToProto :: "VAError \<Rightarrow> int" where
  "errorCodeToProto err =
     (case err of None \<Rightarrow> ErrorCodeSuccess | Some code \<Rightarrow> go_conv (SInt 32) code)"

definition errorCodeToVAError :: "vactor_api \<Rightarrow> int \<Rightarrow> VAError" where
  "errorCodeToVAError V code =
     (if code = ErrorCodeSuccess then None else Some (go_conv (ErrorCode_t V) code))"

section \<open>Behaviour\<close>

text \<open>Which messages \<open>MarshalMessage\<close> accepts.\<close>

definition serializable :: "'p proto_lib \<Rightarrow> msg_registry \<Rightarrow> 'p message \<Rightarrow> bool" where
  "serializable P s msg \<longleftrightarrow> (\<exists>r c t d. msg = ProtoMsg r c \<and> msgTypeIds s r = Some t \<and> Marshal_msg P r c = Some d)"

lemma MarshalMessage_serializable:
  "serializable P s msg \<Longrightarrow> \<exists>m. MarshalMessage V P s msg = Inr m"
  by (auto simp: serializable_def MarshalMessage_def)

lemma MarshalMessage_Inr:
  "MarshalMessage V P s msg = Inr m \<Longrightarrow> serializable P s msg"
  by (auto simp: serializable_def MarshalMessage_def split: message.splits option.splits)

text \<open>
  A registry is consistent for a reflected type when the number it is sent under leads back to it.
\<close>

definition reg_ok :: "msg_registry \<Rightarrow> msg_registry \<Rightarrow> bool" where
  "reg_ok s s' \<longleftrightarrow> (\<forall>r t. msgTypeIds s r = Some t \<longrightarrow> msgCreators s' t = Some r)"

lemma Marshal_Unmarshal:
  assumes "proto_ok P" and "reg_ok s s'" and "MarshalMessage V P s msg = Inr m"
  shows "UnmarshalMessage P s' (Some m) = Some (Inr msg)"
  using assms proto_ok_msg [OF assms(1)]
  by (auto simp: MarshalMessage_def UnmarshalMessage_def reg_ok_def Let_def
      split: message.splits option.splits)

text \<open>
  Registering a list of (number, type) pairs with no number and no type used twice: both maps hold
  exactly the pairs, whatever the order.
\<close>

lemma register_all_ids:
  "distinct (map snd rs) \<Longrightarrow>
   msgTypeIds (register_all rs s) r =
     (case map_of (map (\<lambda>(t, r). (r, t)) rs) r of Some t \<Rightarrow> Some t | None \<Rightarrow> msgTypeIds s r)"
proof (induction rs arbitrary: s)
  case (Cons p rs)
  obtain t r' where p: "p = (t, r')" by (cases p)
  have "r' \<notin> set (map snd rs)" using Cons.prems p by simp
  then have "map_of (map (\<lambda>(t, r). (r, t)) rs) r' = None"
    by (force simp: map_of_eq_None_iff)
  with Cons p show ?case
    by (auto simp: RegisterMessageType_def split: option.splits)
qed simp

lemma register_all_creators:
  "distinct (map fst rs) \<Longrightarrow>
   msgCreators (register_all rs s) t =
     (case map_of rs t of Some r \<Rightarrow> Some r | None \<Rightarrow> msgCreators s t)"
proof (induction rs arbitrary: s)
  case (Cons p rs)
  obtain t' r where p: "p = (t', r)" by (cases p)
  have "t' \<notin> set (map fst rs)" using Cons.prems p by simp
  then have "map_of rs t' = None" by (simp add: map_of_eq_None_iff)
  with Cons p show ?case
    by (auto simp: RegisterMessageType_def split: option.splits)
qed simp

lemma register_all_reg_ok:
  assumes "distinct (map fst rs)" and "distinct (map snd rs)" and "distinct (map fst rs')"
    and "set rs \<subseteq> set rs'"
  shows "reg_ok (register_all rs empty_registry) (register_all rs' empty_registry)"
proof -
  have "map_of rs' t = Some r" if "map_of (map (\<lambda>(t, r). (r, t)) rs) r = Some t" for r t
  proof -
    from that have "(r, t) \<in> set (map (\<lambda>(t, r). (r, t)) rs)" by (rule map_of_SomeD)
    then have "(t, r) \<in> set rs'" using assms(4) by auto
    with assms(3) show ?thesis by simp
  qed
  then show ?thesis
    unfolding reg_ok_def register_all_ids [OF assms(2)] register_all_creators [OF assms(3)]
    by (fastforce simp: empty_registry_def split: option.splits)
qed

lemma errorCodeToProto_nonzero:
  assumes "wire_types_ok V" and "has_type (ErrorCode_t V) code" and "code \<noteq> 0"
  shows "errorCodeToProto (Some code) \<noteq> 0"
proof
  assume "errorCodeToProto (Some code) = 0"
  then have "go_conv (ErrorCode_t V) (go_conv (SInt 32) code) = go_conv (ErrorCode_t V) 0"
    by (simp add: errorCodeToProto_def del: go_conv.simps)
  moreover have "go_conv (ErrorCode_t V) (go_conv (SInt 32) code) = code"
    using go_conv_trans [of "ErrorCode_t V" "SInt 32" code] assms(1,2)
    by (simp add: wire_types_ok_def has_type_def del: go_conv.simps)
  moreover have "go_conv (ErrorCode_t V) 0 = 0"
    using assms(1) by (cases "ErrorCode_t V") (auto simp: wire_types_ok_def mod_pos_pos_trivial)
  ultimately show False using assms(3) by simp
qed

text \<open>An error code comes back from the wire unchanged, and no error stays no error.\<close>

lemma errorCode_roundtrip:
  assumes "wire_types_ok V" and "\<And>code. err = Some code \<Longrightarrow> has_type (ErrorCode_t V) code \<and> code \<noteq> 0"
  shows "errorCodeToVAError V (errorCodeToProto err) = err"
proof (cases err)
  case None
  then show ?thesis by (simp add: errorCodeToVAError_def errorCodeToProto_def ErrorCodeSuccess_def)
next
  case (Some code)
  with assms have code: "has_type (ErrorCode_t V) code" "code \<noteq> 0" by auto
  have "go_conv (ErrorCode_t V) (go_conv (SInt 32) code) = code"
    using go_conv_trans [of "ErrorCode_t V" "SInt 32" code] assms(1) code(1)
    by (simp add: wire_types_ok_def has_type_def del: go_conv.simps)
  with errorCodeToProto_nonzero [OF assms(1) code] Some show ?thesis
    by (simp add: errorCodeToVAError_def errorCodeToProto_def ErrorCodeSuccess_def del: go_conv.simps)
qed

section \<open>Main theorems\<close>

text \<open>
  C12. A user message survives the wire: if the receiving node has registered every (number, type)
  pair of the sending node, in any order and possibly among others, and no number is used for two
  types, then whatever \<open>MarshalMessage\<close> accepts at the sender is turned back into the same message,
  type and content, by \<open>UnmarshalMessage\<close> at the receiver, without panic or error.
\<close>

theorem message_survives_wire:
  assumes "proto_ok P" and "distinct (map fst rs)" and "distinct (map snd rs)"
    and "distinct (map fst rs')" and "set rs \<subseteq> set rs'"
    and "MarshalMessage V P (register_all rs empty_registry) msg = Inr m"
  shows "UnmarshalMessage P (register_all rs' empty_registry) (Some m) = Some (Inr msg)"
  by (rule Marshal_Unmarshal [OF assms(1) register_all_reg_ok [OF assms(2-5)] assms(6)])

text \<open>
  A protobuf library for the witnesses: it marshals user messages, which are byte strings, to
  themselves, and the one package \<open>p\<close> to \<open>bs\<close>; every other package is an error.
\<close>

definition demo_proto :: "pkg \<Rightarrow> bytes \<Rightarrow> bytes proto_lib" where
  "demo_proto p bs = \<lparr>Marshal_pkg = \<lambda>p'. if p' = p then Some bs else None,
     Unmarshal_pkg = \<lambda>k bs'. if k = pkg_kind p \<and> bs' = bs then Some p else None,
     Marshal_msg = \<lambda>t c. Some c, Unmarshal_msg = \<lambda>t b. Some b\<rparr>"

lemma demo_proto_ok: "proto_ok (demo_proto p bs)"
  by (simp add: proto_ok_def demo_proto_def)

theorem message_survives_wire_witness:
  "\<exists>m. MarshalMessage demo_api (demo_proto (PkgRegisterSystemReq 1) [1]) (register_all [(7, 1), (8, 2)] empty_registry) (ProtoMsg 2 [65, 66]) = Inr m \<and>
     UnmarshalMessage (demo_proto (PkgRegisterSystemReq 1) [1]) (register_all [(8, 2), (9, 3), (7, 1)] empty_registry) (Some m) =
       Some (Inr (ProtoMsg 2 [65, 66]))"
proof -
  let ?s = "register_all [(7, 1), (8, 2)] empty_registry"
  have "MarshalMessage demo_api (demo_proto (PkgRegisterSystemReq 1) [1]) ?s (ProtoMsg 2 [65, 66]) =
      Inr \<lparr>pm_Type = 8, pm_Data = PutUint32 8 @ [65, 66]\<rparr>" (is "_ = Inr ?m")
    by (simp add: MarshalMessage_def demo_proto_def RegisterMessageType_def empty_registry_def)
  moreover from this have "UnmarshalMessage (demo_proto (PkgRegisterSystemReq 1) [1])
      (register_all [(8, 2), (9, 3), (7, 1)] empty_registry) (Some ?m) = Some (Inr (ProtoMsg 2 [65, 66]))"
    by (intro message_survives_wire [OF demo_proto_ok, of "[(7, 1), (8, 2)]"]) auto
  ultimately show ?thesis by blast
qed

text \<open>
  C13. Binding a number to a second type confuses the two, on the sending node itself and on any
  node with the same registrations: a message of the first type is still accepted and sent under
  the number, and decoded as a message of the second type from the same bytes, with no error
  beyond those of protobuf.
\<close>

theorem reregistration_confuses_types:
  assumes "s = RegisterMessageType t r' (RegisterMessageType t r s0)" and "r \<noteq> r'"
    and "Marshal_msg P r c = Some d"
  shows "\<exists>m. MarshalMessage V P s (ProtoMsg r c) = Inr m \<and>
    UnmarshalMessage P s (Some m) =
      Some (case Unmarshal_msg P r' d of None \<Rightarrow> Inl ''unmarshal'' | Some c' \<Rightarrow> Inr (ProtoMsg r' c'))"
  using assms
  by (auto simp: MarshalMessage_def UnmarshalMessage_def RegisterMessageType_def Let_def split: option.splits)

theorem reregistration_confuses_types_witness:
  "\<exists>m. MarshalMessage demo_api (demo_proto (PkgRegisterSystemReq 1) [1]) (register_all [(7, 1), (7, 2)] empty_registry) (ProtoMsg 1 [65]) = Inr m \<and>
     UnmarshalMessage (demo_proto (PkgRegisterSystemReq 1) [1]) (register_all [(7, 1), (7, 2)] empty_registry) (Some m) =
       Some (Inr (ProtoMsg 2 [65]))"
  using reregistration_confuses_types [of "register_all [(7, 1), (7, 2)] empty_registry" 7 2 1 empty_registry
      "demo_proto (PkgRegisterSystemReq 1) [1]" "[65]" "[65]" demo_api]
  by (simp add: demo_proto_def)

end
