(* ===== verification/Placement.thy ===== *)
theory Placement
  imports System
begin

text \<open>
  Actor placement and proxy addressing of \<open>router.go\<close>, \<open>watch_proxy.go\<close> and \<open>request_proxy.go\<close>:
  the router's table of declaring systems, the hash of an actor id, \<open>CreateActorRefEx\<close>, the actor
  ids of the proxies and the inverse \<open>GetWatcheeActorRef\<close>. A Go string is its list of bytes.
\<close>

section \<open>The router's table\<close>

record Router =
  rt_systemId :: int
  rt_actorType2SystemIds :: "int \<rightharpoonup> int list"

text \<open>Indexing a map of slices: a missing key gives the \<open>nil\<close> slice.\<close>

definition slice_at :: "('k \<rightharpoonup> 'v list) \<Rightarrow> 'k \<Rightarrow> 'v list" where
  "slice_at m k = (case m k of None \<Rightarrow> [] | Some xs \<Rightarrow> xs)"

fun declare_types :: "int \<Rightarrow> int list \<Rightarrow> (int \<rightharpoonup> int list) \<Rightarrow> (int \<rightharpoonup> int list)" where
  "declare_types sid [] m = m"
| "declare_types sid (t # ts) m = declare_types sid ts (m(t \<mapsto> slice_at m t @ [sid]))"

fun declare_configs :: "SystemConfig list \<Rightarrow> (int \<rightharpoonup> int list) \<Rightarrow> (int \<rightharpoonup> int list)" where
  "declare_configs [] m = m"
| "declare_configs (c # cs) m = declare_configs cs (declare_types (sc_SystemId c) (sc_ActorTypes c) m)"

definition NewRouter :: "ClusterConfig \<Rightarrow> Router" where
  "NewRouter cfg = \<lparr>rt_systemId = cc_LocalSystemId cfg,
     rt_actorType2SystemIds = declare_configs (cc_SystemConfigs cfg) Map.empty\<rparr>"

section \<open>CreateActorRefEx\<close>

text \<open>
  The hash loop: \<open>i\<close> counts up, byte \<open>i\<close> from the end is xor-ed into accumulator \<open>i % 4\<close>; \<open>k\<close> is
  the number of rounds left.
\<close>

fun hash_loop :: "nat \<Rightarrow> nat \<Rightarrow> string \<Rightarrow> u8 list \<Rightarrow> u8 list option" where
  "hash_loop 0 i actorId hashs = Some hashs"
| "hash_loop (Suc k) i actorId hashs = do {
     let endIndex = length actorId - 1;
     c \<leftarrow> go_index actorId (endIndex - i);
     h \<leftarrow> go_index hashs (i mod 4);
     hashs \<leftarrow> go_store hashs (i mod 4) (h XOR of_char c);
     hash_loop k (Suc i) actorId hashs }"

definition join_hash :: "u8 list \<Rightarrow> u32" where
  "join_hash hashs = push_bit 24 (ucast (hashs ! 3)) OR push_bit 16 (ucast (hashs ! 2)) OR
     push_bit 8 (ucast (hashs ! 1)) OR ucast (hashs ! 0)"

definition CreateActorRefEx ::
  "vactor_api \<Rightarrow> Router \<Rightarrow> int \<Rightarrow> int \<Rightarrow> string \<Rightarrow> ActorRefImpl option" where
  "CreateActorRefEx V r systemId actorType actorId = do {
     let systemIds = slice_at (rt_actorType2SystemIds r) actorType;
     hashs \<leftarrow> hash_loop (length actorId) 0 actorId [0, 0, 0, 0];
     let hash = join_hash hashs;
     let systemCount = (of_nat (length systemIds) :: u32);
     sid \<leftarrow> (if systemId = 0 then
               if systemCount = 0 then Some (rt_systemId r)
               else go_index systemIds (unat (hash mod systemCount))
             else Some systemId);
     let slot = (if systemCount > 0
                 then go_conv (GroupSlot_t V) (uint (((hash div systemCount) AND 0xFFFF) + 1))
                 else go_conv (GroupSlot_t V) (uint ((hash AND 0xFFFF) + 1)));
     let slot = (if slot = 0 then 1 else slot);
     Some \<lparr>ar_SystemId = sid, ar_GroupSlot = slot, ar_ActorType = actorType, ar_ActorId = actorId\<rparr> }"

section \<open>Proxy addresses\<close>

text \<open>\<open>fmt.Sprintf("%v", n)\<close> on an integer.\<close>

definition digit :: "nat \<Rightarrow> char" where
  "digit d = char_of (48 + d)"

fun show_nat :: "nat \<Rightarrow> string" where
  "show_nat n = (if n < 10 then [digit n] else show_nat (n div 10) @ [digit (n mod 10)])"

declare show_nat.simps [simp del]

definition show_int :: "int \<Rightarrow> string" where
  "show_int x = (if x < 0 then CHR ''-'' # show_nat (nat (- x)) else show_nat (nat x))"

definition proxy_id :: "ActorRefImpl \<Rightarrow> string" where
  "proxy_id ref = show_int (ar_ActorType ref) @ CHR ''-'' # ar_ActorId ref"

text \<open>
  \<open>system.CreateActorRefEx\<close> is the router's, which \<open>NewSystem\<close> installs. A \<open>nil\<close> reference panics.
\<close>

definition GetWatchProxyActorRef ::
  "vactor_api \<Rightarrow> Router \<Rightarrow> int \<Rightarrow> ActorRef \<Rightarrow> ActorRefImpl option" where
  "GetWatchProxyActorRef V r systemId watchee = do {
     w \<leftarrow> watchee;
     CreateActorRefEx V r systemId (WatchProxyActorType V) (proxy_id w) }"

definition GetRequestProxyActorRef ::
  "vactor_api \<Rightarrow> Router \<Rightarrow> int \<Rightarrow> ActorRef \<Rightarrow> ActorRefImpl option" where
  "GetRequestProxyActorRef V r systemId toActorRef = do {
     w \<leftarrow> toActorRef;
     CreateActorRefEx V r systemId (RequestProxyActorType V) (proxy_id w) }"

text \<open>\<open>strings.SplitN(s, "-", 2)\<close>\<close>

definition SplitN2 :: "string \<Rightarrow> string list" where
  "SplitN2 s = (case dropWhile (\<lambda>c. c \<noteq> CHR ''-'') s of
                  [] \<Rightarrow> [s]
                | _ # rest \<Rightarrow> [takeWhile (\<lambda>c. c \<noteq> CHR ''-'') s, rest])"

text \<open>\<open>strconv.ParseUint(s, 10, 32)\<close>: \<open>None\<close> on a syntax or range error.\<close>

definition is_digit :: "char \<Rightarrow> bool" where
  "is_digit c \<longleftrightarrow> 48 \<le> (of_char c :: nat) \<and> (of_char c :: nat) \<le> 57"

fun digits_value :: "nat \<Rightarrow> string \<Rightarrow> nat" where
  "digits_value acc [] = acc"
| "digits_value acc (c # cs) = digits_value (10 * acc + (of_char c - 48)) cs"

definition ParseUint32 :: "string \<Rightarrow> nat option" where
  "ParseUint32 s =
     (if s = [] \<or> \<not> list_all is_digit s then None
      else let v = digits_value 0 s in if v < 2 ^ 32 then Some v else None)"

text \<open>\<open>create\<close> is \<open>ctx.CreateActorRef\<close>; the inner \<open>None\<close> is the \<open>nil\<close> result.\<close>

definition GetWatcheeActorRef ::
  "vactor_api \<Rightarrow> (int \<Rightarrow> string \<Rightarrow> ActorRefImpl option) \<Rightarrow> string \<Rightarrow> ActorRef option" where
  "GetWatcheeActorRef V create actorId =
     (let parts = SplitN2 actorId in
      if length parts \<noteq> 2 then Some None
      else case ParseUint32 (parts ! 0) of
             None \<Rightarrow> Some None
           | Some u64 \<Rightarrow> map_option Some (create (go_conv (ActorType_t V) (int u64)) (parts ! 1)))"

section \<open>The table\<close>

text \<open>The systems that declare a type, in configuration order, once per declaration.\<close>

definition declaring :: "SystemConfig list \<Rightarrow> int \<Rightarrow> int list" where
  "declaring cs t = concat (map (\<lambda>c. replicate (count_list (sc_ActorTypes c) t) (sc_SystemId c)) cs)"

lemma slice_at_declare_types:
  "slice_at (declare_types sid ts m) t = slice_at m t @ replicate (count_list ts t) sid"
  by (induction ts arbitrary: m) (auto simp: slice_at_def replicate_append_same [symmetric])

lemma slice_at_declare_configs:
  "slice_at (declare_configs cs m) t = slice_at m t @ declaring cs t"
  by (induction cs arbitrary: m) (simp_all add: slice_at_declare_types declaring_def)

lemma NewRouter_table:
  "slice_at (rt_actorType2SystemIds (NewRouter cfg)) t = declaring (cc_SystemConfigs cfg) t"
  by (simp add: NewRouter_def slice_at_declare_configs) (simp add: slice_at_def)

lemma set_declaring:
  "set (declaring cs t) = {sc_SystemId c | c. c \<in> set cs \<and> t \<in> set (sc_ActorTypes c)}"
  by (auto simp: declaring_def count_list_0_iff)

section \<open>No panic\<close>

lemma hash_loop_returns:
  "i + k \<le> length actorId \<Longrightarrow> length hashs = 4 \<Longrightarrow>
   \<exists>hs. hash_loop k i actorId hashs = Some hs \<and> length hs = 4"
proof (induction k arbitrary: i hashs)
  case (Suc k)
  then have "length actorId - 1 - i < length actorId" by simp
  with Suc show ?case by (simp add: Let_def go_index_Some go_store_Some)
qed simp

text \<open>The hash as a total function.\<close>

definition actor_hash :: "string \<Rightarrow> u32" where
  "actor_hash actorId = join_hash (the (hash_loop (length actorId) 0 actorId [0, 0, 0, 0]))"

definition group_slot :: "vactor_api \<Rightarrow> u32 \<Rightarrow> u32 \<Rightarrow> int" where
  "group_slot V hash systemCount =
     (let slot = go_conv (GroupSlot_t V)
        (uint (((if systemCount = 0 then hash else hash div systemCount) AND 0xFFFF) + 1))
      in if slot = 0 then 1 else slot)"

definition placed_at :: "Router \<Rightarrow> int \<Rightarrow> string \<Rightarrow> int" where
  "placed_at r actorType actorId =
     (let systemIds = slice_at (rt_actorType2SystemIds r) actorType;
          systemCount = of_nat (length systemIds) :: u32
      in if systemCount = 0 then rt_systemId r
         else systemIds ! unat (actor_hash actorId mod systemCount))"

lemma CreateActorRefEx_eq:
  "CreateActorRefEx V r systemId actorType actorId =
     Some \<lparr>ar_SystemId = if systemId = 0 then placed_at r actorType actorId else systemId,
           ar_GroupSlot = group_slot V (actor_hash actorId)
             (of_nat (length (slice_at (rt_actorType2SystemIds r) actorType))),
           ar_ActorType = actorType, ar_ActorId = actorId\<rparr>"
proof -
  let ?ids = "slice_at (rt_actorType2SystemIds r) actorType"
  let ?n = "of_nat (length ?ids) :: u32"
  obtain hs where hs: "hash_loop (length actorId) 0 actorId [0, 0, 0, 0] = Some hs"
    using hash_loop_returns [of 0 "length actorId" actorId "[0, 0, 0, 0]"] by auto
  have "unat (h mod ?n) < length ?ids" if "?n \<noteq> 0" for h
  proof -
    have "unat (h mod ?n) < unat ?n"
      using that by (simp add: unat_mod unat_gt_0)
    also have "\<dots> \<le> length ?ids"
      by (simp add: unat_of_nat take_bit_eq_mod)
    finally show ?thesis .
  qed
  then show ?thesis
    by (auto simp: CreateActorRefEx_def hs actor_hash_def placed_at_def group_slot_def Let_def
        go_index_Some word_neq_0_conv)
qed


lemma placed_at_declared:
  assumes "declaring (cc_SystemConfigs cfg) t \<noteq> []"
    and "length (declaring (cc_SystemConfigs cfg) t) < 2 ^ 32"
  shows "placed_at (NewRouter cfg) t actorId \<in> set (declaring (cc_SystemConfigs cfg) t)"
    and "placed_at (NewRouter cfg) t actorId = declaring (cc_SystemConfigs cfg) t !
           (unat (actor_hash actorId) mod length (declaring (cc_SystemConfigs cfg) t))"
proof -
  let ?ids = "declaring (cc_SystemConfigs cfg) t"
  have n: "unat (of_nat (length ?ids) :: u32) = length ?ids"
    using assms(2) by (simp add: unat_of_nat take_bit_eq_mod)
  with assms(1) have "(of_nat (length ?ids) :: u32) \<noteq> 0" by (metis length_0_conv unat_0)
  with n show *: "placed_at (NewRouter cfg) t actorId = ?ids ! (unat (actor_hash actorId) mod length ?ids)"
    by (simp add: placed_at_def NewRouter_table Let_def unat_mod)
  then show "placed_at (NewRouter cfg) t actorId \<in> set ?ids"
    using assms(1) by simp
qed

lemma placed_at_undeclared:
  "declaring (cc_SystemConfigs cfg) t = [] \<Longrightarrow> placed_at (NewRouter cfg) t actorId = cc_LocalSystemId cfg"
  by (simp add: placed_at_def NewRouter_table) (simp add: NewRouter_def)

lemma group_slot_nonzero: "group_slot V h n \<noteq> 0"
  by (simp add: group_slot_def Let_def)

lemma group_slot_type: "has_type (GroupSlot_t V) 1 \<Longrightarrow> has_type (GroupSlot_t V) (group_slot V h n)"
  by (simp add: group_slot_def Let_def has_type_conv)

section \<open>Printing and parsing the actor type\<close>

lemma of_char_digit: "d < 10 \<Longrightarrow> (of_char (digit d) :: nat) = 48 + d"
  by (simp add: digit_def of_char_of)

lemma is_digit_digit: "d < 10 \<Longrightarrow> is_digit (digit d)"
  by (simp add: is_digit_def of_char_digit)

lemma show_nat_digits: "show_nat n \<noteq> [] \<and> list_all is_digit (show_nat n)"
proof (induction n rule: show_nat.induct)
  case (1 n)
  then show ?case by (subst (1 2) show_nat.simps) (simp add: is_digit_digit)
qed

lemma digits_value_snoc: "digits_value acc (cs @ [c]) = 10 * digits_value acc cs + (of_char c - 48)"
  by (induction cs arbitrary: acc) simp_all

lemma digits_value_show: "digits_value 0 (show_nat n) = n"
proof (induction n rule: show_nat.induct)
  case (1 n)
  then show ?case
    by (subst show_nat.simps) (simp add: of_char_digit digits_value_snoc)
qed

lemma ParseUint32_show: "n < 2 ^ 32 \<Longrightarrow> ParseUint32 (show_nat n) = Some n"
  using show_nat_digits [of n] by (simp add: ParseUint32_def digits_value_show)

lemma dash_not_digit: "list_all is_digit s \<Longrightarrow> CHR ''-'' \<notin> set s"
  by (auto simp: list_all_iff is_digit_def)

lemma SplitN2_dash:
  assumes "CHR ''-'' \<notin> set xs"
  shows "SplitN2 (xs @ CHR ''-'' # ys) = [xs, ys]"
proof -
  have "\<forall>c \<in> set xs. c \<noteq> CHR ''-''" using assms by auto
  then show ?thesis by (simp add: SplitN2_def)
qed

lemma GetWatcheeActorRef_proxy_id:
  assumes "0 \<le> ar_ActorType w" and "ar_ActorType w < 2 ^ 32" and "has_type (ActorType_t V) (ar_ActorType w)"
  shows "GetWatcheeActorRef V create (proxy_id w) =
           map_option Some (create (ar_ActorType w) (ar_ActorId w))"
proof -
  have "SplitN2 (proxy_id w) = [show_nat (nat (ar_ActorType w)), ar_ActorId w]"
    using assms(1) show_nat_digits dash_not_digit
    by (simp add: proxy_id_def show_int_def SplitN2_dash)
  moreover have "ParseUint32 (show_nat (nat (ar_ActorType w))) = Some (nat (ar_ActorType w))"
    using assms(1,2) by (intro ParseUint32_show) (simp add: nat_less_iff)
  ultimately show ?thesis
    using assms(1,3) by (simp add: GetWatcheeActorRef_def has_type_def)
qed

text \<open>Distinct targets have distinct proxies, as far as type and id tell them apart.\<close>

lemma proxy_id_inj:
  assumes "0 \<le> ar_ActorType w" and "0 \<le> ar_ActorType w'" and "proxy_id w = proxy_id w'"
  shows "ar_ActorType w = ar_ActorType w' \<and> ar_ActorId w = ar_ActorId w'"
proof -
  have "SplitN2 (proxy_id v) = [show_nat (nat (ar_ActorType v)), ar_ActorId v]"
    if "0 \<le> ar_ActorType v" for v
    using that show_nat_digits dash_not_digit by (simp add: proxy_id_def show_int_def SplitN2_dash)
  with assms have "show_nat (nat (ar_ActorType w)) = show_nat (nat (ar_ActorType w'))"
      and "ar_ActorId w = ar_ActorId w'" by (metis list.inject)+
  with assms(1,2) show ?thesis by (metis digits_value_show nat_eq_iff)
qed

lemma declaring_nonempty_iff:
  "declaring configs t \<noteq> [] \<longleftrightarrow> (\<exists>c \<in> set configs. t \<in> set (sc_ActorTypes c))"
proof -
  have "declaring configs t \<noteq> [] \<longleftrightarrow> set (declaring configs t) \<noteq> {}" by simp
  also have "\<dots> \<longleftrightarrow> (\<exists>c \<in> set configs. t \<in> set (sc_ActorTypes c))"
    unfolding set_declaring by blast
  finally show ?thesis .
qed

section \<open>Main theorems\<close>

text \<open>
  C8. \<open>CreateActorRefEx\<close> never panics (no division by zero for an undeclared type, every index in
  range) and places as documented: an explicit system id is kept; without one the actor goes to a
  system whose configuration declares its type, the one the hash of its id selects, and to the
  local system when nobody declares the type. Type and id are unchanged, and the group slot is
  never 0, whatever the width of the slot type.
\<close>

theorem CreateActorRefEx_places:
  assumes "length (declaring (cc_SystemConfigs cfg) t) < 2 ^ 32"
  shows "\<exists>ref. CreateActorRefEx V (NewRouter cfg) sid t actorId = Some ref \<and>
    ar_ActorType ref = t \<and> ar_ActorId ref = actorId \<and> ar_GroupSlot ref \<noteq> 0 \<and>
    ar_SystemId ref =
      (if sid \<noteq> 0 then sid
       else if \<exists>c \<in> set (cc_SystemConfigs cfg). t \<in> set (sc_ActorTypes c)
       then declaring (cc_SystemConfigs cfg) t !
              (unat (actor_hash actorId) mod length (declaring (cc_SystemConfigs cfg) t))
       else cc_LocalSystemId cfg) \<and>
    (sid = 0 \<longrightarrow> (\<exists>c \<in> set (cc_SystemConfigs cfg). t \<in> set (sc_ActorTypes c)) \<longrightarrow>
      (\<exists>c \<in> set (cc_SystemConfigs cfg). t \<in> set (sc_ActorTypes c) \<and> ar_SystemId ref = sc_SystemId c))"
proof -
  have "(\<exists>c \<in> set (cc_SystemConfigs cfg). t \<in> set (sc_ActorTypes c)) \<longleftrightarrow>
      declaring (cc_SystemConfigs cfg) t \<noteq> []"
    by (simp add: declaring_nonempty_iff)
  with placed_at_declared [OF _ assms, of actorId] placed_at_undeclared [of cfg t actorId]
  show ?thesis
    by (auto simp: CreateActorRefEx_eq group_slot_nonzero set_declaring)
qed

lemma demo_declaring:
  "declaring (cc_SystemConfigs (demo_cluster s)) 20 = [1, 2]"
  "declaring (cc_SystemConfigs (demo_cluster s)) 99 = []"
  by (simp_all add: demo_cluster_def declaring_def)

lemma demo_hash: "actor_hash ''1'' = 49"
  by (simp add: actor_hash_def go_defs Let_def join_hash_def)

lemma demo_slot: "[1, 2] ! (49 mod Suc (Suc 0)) = (2 :: int)"
  unfolding numeral_2_eq_2 [symmetric] by simp

theorem CreateActorRefEx_places_witness:
  "\<exists>ref. CreateActorRefEx demo_api (NewRouter (demo_cluster 1)) 0 20 ''1'' = Some ref \<and>
     ar_SystemId ref = 2 \<and> ar_GroupSlot ref \<noteq> 0"
  using CreateActorRefEx_places [of "demo_cluster 1" 20 demo_api 0 "''1''"]
  by (auto simp: demo_declaring demo_hash demo_slot) (auto simp: demo_cluster_def)

text \<open>
  C9. When nodes agree: two nodes with the same list of system configurations, whatever their own
  ids, give an actor the same reference (system, group slot, type, id) exactly if the system id is
  explicit or some system declares its type, or the nodes have the same id. So a request for a
  declared type reaches the one actor from any node, while the fallback for an undeclared type
  splits the actor: every node addresses its own.
\<close>

theorem placement_agreement:
  assumes "cc_SystemConfigs cfg = cc_SystemConfigs cfg'"
    and "length (declaring (cc_SystemConfigs cfg) t) < 2 ^ 32"
  shows "CreateActorRefEx V (NewRouter cfg) sid t actorId = CreateActorRefEx V (NewRouter cfg') sid t actorId \<longleftrightarrow>
    sid \<noteq> 0 \<or> (\<exists>c \<in> set (cc_SystemConfigs cfg). t \<in> set (sc_ActorTypes c)) \<or> cc_LocalSystemId cfg = cc_LocalSystemId cfg'"
proof (cases "declaring (cc_SystemConfigs cfg) t = []")
  case True
  then have "\<not> (\<exists>c \<in> set (cc_SystemConfigs cfg). t \<in> set (sc_ActorTypes c))"
    using declaring_nonempty_iff by blast
  with True assms(1) show ?thesis by (simp add: CreateActorRefEx_eq NewRouter_table placed_at_undeclared)
next
  case False
  then have "\<exists>c \<in> set (cc_SystemConfigs cfg). t \<in> set (sc_ActorTypes c)"
    using declaring_nonempty_iff by blast
  with False assms show ?thesis
    using placed_at_declared(2) [of cfg t actorId] placed_at_declared(2) [of cfg' t actorId]
    by (simp add: CreateActorRefEx_eq NewRouter_table)
qed

theorem placement_agreement_witness:
  "CreateActorRefEx demo_api (NewRouter (demo_cluster 1)) 0 20 ''abc'' =
     CreateActorRefEx demo_api (NewRouter (demo_cluster 2)) 0 20 ''abc'' \<and>
   CreateActorRefEx demo_api (NewRouter (demo_cluster 1)) 0 99 ''abc'' \<noteq>
     CreateActorRefEx demo_api (NewRouter (demo_cluster 2)) 0 99 ''abc''"
proof -
  have "cc_SystemConfigs (demo_cluster 1) = cc_SystemConfigs (demo_cluster 2)"
    and "\<exists>c \<in> set (cc_SystemConfigs (demo_cluster 1)). 20 \<in> set (sc_ActorTypes c)"
    and "\<not> (\<exists>c \<in> set (cc_SystemConfigs (demo_cluster 1)). 99 \<in> set (sc_ActorTypes c))"
    and "cc_LocalSystemId (demo_cluster 1) \<noteq> cc_LocalSystemId (demo_cluster 2)"
    and "length (declaring (cc_SystemConfigs (demo_cluster 1)) 99) < 2 ^ 32"
    by (simp_all add: demo_cluster_def declaring_def)
  then show ?thesis
    using placement_agreement [of "demo_cluster 1" "demo_cluster 2" 20 demo_api 0 "''abc''"]
      placement_agreement [of "demo_cluster 1" "demo_cluster 2" 99 demo_api 0 "''abc''"]
    by (simp add: demo_declaring)
qed

text \<open>
  A watch proxy finds its watchee: from the actor id \<open>"<type>-<id>"\<close> under which
  \<open>GetWatchProxyActorRef\<close> creates the proxy, \<open>GetWatcheeActorRef\<close> recovers the watchee's actor type
  and actor id, also when the id itself contains dashes, and passes them to \<open>CreateActorRef\<close>.
\<close>

theorem watchee_type_and_id_recovered:
  assumes "GetWatchProxyActorRef V r sid (Some w) = Some proxy"
    and "0 \<le> ar_ActorType w" and "ar_ActorType w < 2 ^ 32" and "has_type (ActorType_t V) (ar_ActorType w)"
  shows "GetWatcheeActorRef V create (ar_ActorId proxy) =
           map_option Some (create (ar_ActorType w) (ar_ActorId w))"
proof -
  have "ar_ActorId proxy = proxy_id w"
    using assms(1) by (auto simp: GetWatchProxyActorRef_def CreateActorRefEx_eq)
  with GetWatcheeActorRef_proxy_id [OF assms(2-4)] show ?thesis by simp
qed

theorem watchee_type_and_id_recovered_witness:
  "\<exists>proxy. GetWatchProxyActorRef demo_api (NewRouter (demo_cluster 1)) 1
       (Some \<lparr>ar_SystemId = 2, ar_GroupSlot = 1, ar_ActorType = 20, ar_ActorId = ''a-b''\<rparr>) = Some proxy \<and>
     GetWatcheeActorRef demo_api (\<lambda>t i. Some \<lparr>ar_SystemId = 9, ar_GroupSlot = 9, ar_ActorType = t, ar_ActorId = i\<rparr>)
       (ar_ActorId proxy) =
     Some (Some \<lparr>ar_SystemId = 9, ar_GroupSlot = 9, ar_ActorType = 20, ar_ActorId = ''a-b''\<rparr>)"
proof -
  let ?w = "\<lparr>ar_SystemId = 2, ar_GroupSlot = 1, ar_ActorType = 20, ar_ActorId = ''a-b''\<rparr>"
  obtain proxy where p: "GetWatchProxyActorRef demo_api (NewRouter (demo_cluster 1)) 1 (Some ?w) = Some proxy"
    by (simp add: GetWatchProxyActorRef_def CreateActorRefEx_eq)
  from watchee_type_and_id_recovered [OF p] p show ?thesis
    by (auto simp: has_type_def demo_api_def)
qed

text \<open>
  C11. The proxy's actor id does not carry the watchee's system id, so a watchee placed on an
  explicitly chosen system is recovered only if that system happens to be the one the hash selects:
  for a reference made by \<open>CreateActorRefEx\<close> with system id \<open>sid\<close>, the proxy (whose
  \<open>ctx.CreateActorRef\<close> is \<open>CreateActorRefEx\<close> with system id 0) watches the right actor iff \<open>sid\<close> is
  0 or the hash-selected system. In every other case it watches an actor of the same type and id
  on a different node.
\<close>

theorem watchee_recovered_iff_default_system:
  assumes "CreateActorRefEx V r sid t actorId = Some w" and "GetWatchProxyActorRef V r self (Some w) = Some proxy"
    and "0 \<le> t" and "t < 2 ^ 32" and "has_type (ActorType_t V) t"
  shows "GetWatcheeActorRef V (CreateActorRefEx V r 0) (ar_ActorId proxy) = Some (Some w) \<longleftrightarrow>
           sid = 0 \<or> sid = placed_at r t actorId"
proof -
  have "ar_ActorId proxy = proxy_id w" and "ar_ActorType w = t" and "ar_ActorId w = actorId"
    using assms(1,2) by (auto simp: GetWatchProxyActorRef_def CreateActorRefEx_eq)
  with GetWatcheeActorRef_proxy_id [of w V "CreateActorRefEx V r 0"] assms(3-5)
  have "GetWatcheeActorRef V (CreateActorRefEx V r 0) (ar_ActorId proxy) =
      map_option Some (CreateActorRefEx V r 0 t actorId)" by simp
  with assms(1) show ?thesis
    by (cases "sid = 0") (auto simp: CreateActorRefEx_eq)
qed

theorem watchee_recovered_iff_default_system_witness:
  "\<exists>w proxy. CreateActorRefEx demo_api (NewRouter (demo_cluster 1)) 1 20 ''1'' = Some w \<and>
     GetWatchProxyActorRef demo_api (NewRouter (demo_cluster 1)) 1 (Some w) = Some proxy \<and>
     GetWatcheeActorRef demo_api (CreateActorRefEx demo_api (NewRouter (demo_cluster 1)) 0)
       (ar_ActorId proxy) \<noteq> Some (Some w)"
proof -
  obtain w where w: "CreateActorRefEx demo_api (NewRouter (demo_cluster 1)) 1 20 ''1'' = Some w"
    by (simp add: CreateActorRefEx_eq)
  obtain proxy where p: "GetWatchProxyActorRef demo_api (NewRouter (demo_cluster 1)) 1 (Some w) = Some proxy"
    by (simp add: GetWatchProxyActorRef_def CreateActorRefEx_eq)
  have "placed_at (NewRouter (demo_cluster 1)) 20 ''1'' = 2"
    using placed_at_declared(2) [of "demo_cluster 1" 20 "''1''"] by (simp add: demo_declaring demo_hash demo_slot)
  with watchee_recovered_iff_default_system [OF w p] w p show ?thesis
    by (auto simp: has_type_def demo_api_def)
qed

end
