(* ===== verification/Envelope_Codec.thy ===== *)
theory Envelope_Codec
  imports System
begin

text \<open>
  How envelopes cross the network (\<open>cluster_net.go\<close>): the package \<open>Send\<close> builds for an envelope, and
  the envelope \<open>OnMessage\<close> hands to the local router for a package. The main lemma says that the
  second undoes the first.
\<close>

section \<open>Actor references\<close>

definition ActorRefToProto :: "ActorRef \<Rightarrow> PActorRef option" where
  "ActorRefToProto actorRef =
     (case actorRef of
        None \<Rightarrow> None
      | Some ref \<Rightarrow> Some \<lparr>pa_SystemId = to_u32 (ar_SystemId ref), pa_GroupSlot = to_u32 (ar_GroupSlot ref),
                         pa_ActorType = to_u32 (ar_ActorType ref), pa_ActorId = ar_ActorId ref\<rparr>)"

definition ActorRefFromProto :: "vactor_api \<Rightarrow> PActorRef option \<Rightarrow> ActorRef" where
  "ActorRefFromProto V actorRef =
     (case actorRef of
        None \<Rightarrow> None
      | Some p \<Rightarrow> Some \<lparr>ar_SystemId = go_conv (SystemId_t V) (uint (pa_SystemId p)),
                       ar_GroupSlot = go_conv (GroupSlot_t V) (uint (pa_GroupSlot p)),
                       ar_ActorType = go_conv (ActorType_t V) (uint (pa_ActorType p)),
                       ar_ActorId = pa_ActorId p\<rparr>)"

lemma ActorRefToProto_None [simp]:
  "ActorRefToProto r = None \<longleftrightarrow> r = None" "None = ActorRefToProto r \<longleftrightarrow> r = None"
  by (auto simp: ActorRefToProto_def split: option.splits)

lemma ActorRef_roundtrip:
  assumes "wire_types_ok V" and "\<And>r'. r = Some r' \<Longrightarrow> ref_ok V r'"
  shows "ActorRefFromProto V (ActorRefToProto r) = r"
  using assms
  by (cases r) (auto simp: ActorRefFromProto_def ActorRefToProto_def ref_ok_def wire_types_ok_def
      go_conv_via_u32 simp del: go_conv.simps)

section \<open>Sending: the package of an envelope\<close>

text \<open>The loop of the batch case: messages that cannot be marshalled are logged and skipped.\<close>

fun marshal_batch :: "vactor_api \<Rightarrow> 'p proto_lib \<Rightarrow> msg_registry \<Rightarrow> 'p message list \<Rightarrow> PMessage list" where
  "marshal_batch V P s [] = []"
| "marshal_batch V P s (message # rest) =
     (case MarshalMessage V P s message of
        Inl err \<Rightarrow> marshal_batch V P s rest
      | Inr msg \<Rightarrow> msg # marshal_batch V P s rest)"

text \<open>The error code of a response: success, or \<open>protocol.ErrorCode(e.Error.Code())\<close>.\<close>

definition proto_response :: "VAError \<Rightarrow> PMessage \<Rightarrow> PResponse" where
  "proto_response err msg = \<lparr>pr_ErrorCode = errorCodeToProto err, pr_Message = Some msg\<rparr>"

definition marshalled ::
  "vactor_api \<Rightarrow> 'p proto_lib \<Rightarrow> msg_registry \<Rightarrow> 'p message \<Rightarrow> (PMessage \<Rightarrow> u32 \<times> pkg) \<Rightarrow> (int + u32 \<times> pkg) option" where
  "marshalled V P s message k =
     (case MarshalMessage V P s message of Inl err \<Rightarrow> Some (Inl err) | Inr msg \<Rightarrow> Some (Inr (k msg)))"

text \<open>
  The type switch of \<open>Send\<close>. Reading the message through a \<open>nil\<close> response or notification panics;
  \<open>Inl\<close> is the returned error code.
\<close>

fun Send_pkg :: "vactor_api \<Rightarrow> 'p proto_lib \<Rightarrow> msg_registry \<Rightarrow> 'p envelope \<Rightarrow> (int + u32 \<times> pkg) option" where
  "Send_pkg V P s (EnvelopeSend from to message) =
     marshalled V P s message (\<lambda>msg. (PkgTypeEnvelopeSend,
       PkgEnvelopeSend (ActorRefToProto from) (ActorRefToProto to) (Some msg)))"
| "Send_pkg V P s (EnvelopeBatchSend from toRefs messages) =
     (let messages = marshal_batch V P s messages in
      if length messages \<le> 0 then Some (Inl (ErrorCodeMessageLenError V))
      else let stringActorRefs = map ActorRefToProto toRefs in
        Some (Inr (PkgTypeEnvelopeBatchSend,
          PkgEnvelopeBatchSend (ActorRefToProto from) stringActorRefs (map Some messages))))"
| "Send_pkg V P s (EnvelopeRequestAsync from to message callbackId callbackAddress) =
     marshalled V P s message (\<lambda>msg. (PkgTypeEnvelopeRequestAsync,
       PkgEnvelopeRequestAsync (ActorRefToProto from) (ActorRefToProto to) (Some msg)
         (to_u32 callbackId) callbackAddress))"
| "Send_pkg V P s (EnvelopeResponseAsync from to response callbackId callbackAddress) =
     (case response of
        None \<Rightarrow> None
      | Some (err, message) \<Rightarrow>
          marshalled V P s message (\<lambda>msg. (PkgTypeEnvelopeResponseAsync,
            PkgEnvelopeResponseAsync (ActorRefToProto from) (ActorRefToProto to)
              (Some (proto_response err msg)) (to_u32 callbackId) callbackAddress)))"
| "Send_pkg V P s (EnvelopeRequest from to message requestId) =
     marshalled V P s message (\<lambda>msg. (PkgTypeEnvelopeRequest,
       PkgEnvelopeRequest (ActorRefToProto from) (ActorRefToProto to) (Some msg) (to_u32 requestId)))"
| "Send_pkg V P s (EnvelopeResponse from to response requestId) =
     (case response of
        None \<Rightarrow> None
      | Some (err, message) \<Rightarrow>
          marshalled V P s message (\<lambda>msg. (PkgTypeEnvelopeResponse,
            PkgEnvelopeResponse (ActorRefToProto from) (ActorRefToProto to)
              (Some (proto_response err msg)) (to_u32 requestId))))"
| "Send_pkg V P s (EnvelopeWatch from to watchType isWatch) =
     Some (Inr (PkgTypeEnvelopeWatch,
       PkgEnvelopeWatch (ActorRefToProto from) (ActorRefToProto to) (to_u32 watchType) isWatch))"
| "Send_pkg V P s (EnvelopeNotify from toRefs notifyType message) =
     (case message of
        None \<Rightarrow> None
      | Some (actorRef, watchType, m) \<Rightarrow>
          marshalled V P s m (\<lambda>msg. (PkgTypeEnvelopeNotify,
            PkgEnvelopeNotify (ActorRefToProto from) (map ActorRefToProto toRefs) (to_u32 notifyType)
              (ActorRefToProto actorRef) (to_u32 watchType) (Some msg))))"
| "Send_pkg V P s (EnvelopeFireNotify from to notifyType watchType message) =
     marshalled V P s message (\<lambda>msg. (PkgTypeEnvelopeFireNotify,
       PkgEnvelopeFireNotify (ActorRefToProto from) (ActorRefToProto to) (to_u32 notifyType)
         (to_u32 watchType) (Some msg)))"
| "Send_pkg V P s _ = Some (Inl (ErrorCodeUnknownEnvelope V))"

section \<open>Receiving: the envelope of a package\<close>

text \<open>
  Every case of \<open>OnMessage\<close> returns an error or calls \<open>LocalRouter\<close> once; the model returns the error
  and the envelopes routed. \<open>None\<close> is a panic: a peer's package may lack the message or response
  it should carry.
\<close>

type_synonym 'p outcome = "(go_error \<times> 'p envelope list) option"

definition unmarshalled ::
  "'p proto_lib \<Rightarrow> msg_registry \<Rightarrow> PMessage option \<Rightarrow> ('p message \<Rightarrow> 'p envelope) \<Rightarrow> 'p outcome" where
  "unmarshalled P s m k = do {
     r \<leftarrow> UnmarshalMessage P s m;
     Some (case r of Inl err \<Rightarrow> (Some err, []) | Inr msg \<Rightarrow> (None, [k msg])) }"

fun unmarshal_batch :: "'p proto_lib \<Rightarrow> msg_registry \<Rightarrow> PMessage option list \<Rightarrow> 'p message list option" where
  "unmarshal_batch P s [] = Some []"
| "unmarshal_batch P s (protoMsg # rest) = do {
     r \<leftarrow> UnmarshalMessage P s protoMsg;
     msgs \<leftarrow> unmarshal_batch P s rest;
     Some (case r of Inl err \<Rightarrow> msgs | Inr msg \<Rightarrow> msg # msgs) }"

definition OnPkgEnvelopeSend where
  "OnPkgEnvelopeSend V P s from to message =
     unmarshalled P s message (\<lambda>msg. EnvelopeSend (ActorRefFromProto V from) (ActorRefFromProto V to) msg)"

definition OnPkgEnvelopeBatchSend where
  "OnPkgEnvelopeBatchSend V P s from toRefs messages = do {
     msgs \<leftarrow> unmarshal_batch P s messages;
     let toActorRefs = map (ActorRefFromProto V) toRefs;
     Some (None, [EnvelopeBatchSend (ActorRefFromProto V from) toActorRefs msgs]) }"

definition OnPkgEnvelopeRequestAsync where
  "OnPkgEnvelopeRequestAsync V P s from to message callbackId callbackAddress =
     unmarshalled P s message (\<lambda>msg.
       EnvelopeRequestAsync (ActorRefFromProto V from) (ActorRefFromProto V to) msg
         (go_conv (CallbackId_t V) (uint callbackId)) callbackAddress)"

text \<open>The two response cases unmarshal the message only if there is one.\<close>

definition unmarshalled_response ::
  "vactor_api \<Rightarrow> 'p proto_lib \<Rightarrow> msg_registry \<Rightarrow> PResponse option \<Rightarrow> ('p Response \<Rightarrow> 'p envelope) \<Rightarrow> 'p outcome" where
  "unmarshalled_response V P s response k =
     (case response of
        None \<Rightarrow> None
      | Some rsp \<Rightarrow>
          (case pr_Message rsp of
             None \<Rightarrow> Some (None, [k (errorCodeToVAError V (pr_ErrorCode rsp), MsgNil)])
           | Some m \<Rightarrow> unmarshalled P s (Some m) (\<lambda>msg. k (errorCodeToVAError V (pr_ErrorCode rsp), msg))))"

definition OnPkgEnvelopeResponseAsync where
  "OnPkgEnvelopeResponseAsync V P s from to response callbackId callbackAddress =
     unmarshalled_response V P s response (\<lambda>rsp.
       EnvelopeResponseAsync (ActorRefFromProto V from) (ActorRefFromProto V to) (Some rsp)
         (go_conv (CallbackId_t V) (uint callbackId)) callbackAddress)"

definition OnPkgEnvelopeRequest where
  "OnPkgEnvelopeRequest V P s from to message requestId =
     unmarshalled P s message (\<lambda>msg.
       EnvelopeRequest (ActorRefFromProto V from) (ActorRefFromProto V to) msg
         (go_conv (CallbackId_t V) (uint requestId)))"

definition OnPkgEnvelopeResponse where
  "OnPkgEnvelopeResponse V P s from to response requestId =
     unmarshalled_response V P s response (\<lambda>rsp.
       EnvelopeResponse (ActorRefFromProto V from) (ActorRefFromProto V to) (Some rsp)
         (go_conv (CallbackId_t V) (uint requestId)))"

definition OnPkgEnvelopeWatch :: "vactor_api \<Rightarrow> PActorRef option \<Rightarrow> PActorRef option \<Rightarrow> u32 \<Rightarrow> bool \<Rightarrow> 'p outcome" where
  "OnPkgEnvelopeWatch V from to watchType isWatch =
     Some (None, [EnvelopeWatch (ActorRefFromProto V from) (ActorRefFromProto V to)
       (go_conv (WatchType_t V) (uint watchType)) isWatch])"

definition OnPkgEnvelopeNotify where
  "OnPkgEnvelopeNotify V P s from toRefs notifyType actorRef watchType message =
     unmarshalled P s message (\<lambda>msg.
       EnvelopeNotify (ActorRefFromProto V from) (map (ActorRefFromProto V) toRefs)
         (go_conv (NotifyType_t V) (uint notifyType))
         (Some (ActorRefFromProto V actorRef, go_conv (WatchType_t V) (uint watchType), msg)))"

definition OnPkgEnvelopeFireNotify where
  "OnPkgEnvelopeFireNotify V P s from to notifyType watchType message =
     unmarshalled P s message (\<lambda>msg.
       EnvelopeFireNotify (ActorRefFromProto V from) (ActorRefFromProto V to)
         (go_conv (NotifyType_t V) (uint notifyType)) (go_conv (WatchType_t V) (uint watchType)) msg)"

text \<open>
  The switch on the package number. The Go type of \<open>pkg\<close> in each case is the one the number stands
  for, so the cases of other packages do not arise. Other numbers are ignored without an error.
\<close>

fun dispatch_pkg :: "vactor_api \<Rightarrow> 'p proto_lib \<Rightarrow> msg_registry \<Rightarrow> pkg \<Rightarrow> 'p outcome" where
  "dispatch_pkg V P s (PkgEnvelopeSend f t m) = OnPkgEnvelopeSend V P s f t m"
| "dispatch_pkg V P s (PkgEnvelopeBatchSend f ts ms) = OnPkgEnvelopeBatchSend V P s f ts ms"
| "dispatch_pkg V P s (PkgEnvelopeRequestAsync f t m c a) = OnPkgEnvelopeRequestAsync V P s f t m c a"
| "dispatch_pkg V P s (PkgEnvelopeResponseAsync f t r c a) = OnPkgEnvelopeResponseAsync V P s f t r c a"
| "dispatch_pkg V P s (PkgEnvelopeRequest f t m r) = OnPkgEnvelopeRequest V P s f t m r"
| "dispatch_pkg V P s (PkgEnvelopeResponse f t rsp r) = OnPkgEnvelopeResponse V P s f t rsp r"
| "dispatch_pkg V P s (PkgEnvelopeWatch f t w b) = OnPkgEnvelopeWatch V f t w b"
| "dispatch_pkg V P s (PkgEnvelopeNotify f ts n a w m) = OnPkgEnvelopeNotify V P s f ts n a w m"
| "dispatch_pkg V P s (PkgEnvelopeFireNotify f t n w m) = OnPkgEnvelopeFireNotify V P s f t n w m"
| "dispatch_pkg V P s _ = Some (None, [])"

definition OnMessage :: "vactor_api \<Rightarrow> 'p proto_lib \<Rightarrow> msg_registry \<Rightarrow> u32 \<Rightarrow> bytes \<Rightarrow> 'p outcome" where
  "OnMessage V P s msgId data =
     (if msgId \<in> {PkgTypeEnvelopeSend, PkgTypeEnvelopeBatchSend, PkgTypeEnvelopeRequestAsync,
                   PkgTypeEnvelopeResponseAsync, PkgTypeEnvelopeRequest, PkgTypeEnvelopeResponse,
                   PkgTypeEnvelopeWatch, PkgTypeEnvelopeNotify, PkgTypeEnvelopeFireNotify}
      then case Unmarshal_pkg P msgId data of
             None \<Rightarrow> Some (Some ''unmarshal'', [])
           | Some pkg \<Rightarrow> dispatch_pkg V P s pkg
      else Some (None, []))"

section \<open>What crosses and how it arrives\<close>

text \<open>
  The well-typed envelopes: every number is a value of its Go type, an error code is not the code
  of success, and no addressee in a list is \<open>nil\<close> (protobuf has no \<open>nil\<close> in a repeated field).
\<close>

definition opt_ref_ok :: "vactor_api \<Rightarrow> ActorRef \<Rightarrow> bool" where
  "opt_ref_ok V r \<longleftrightarrow> (case r of None \<Rightarrow> True | Some r \<Rightarrow> ref_ok V r)"

definition error_ok :: "vactor_api \<Rightarrow> VAError \<Rightarrow> bool" where
  "error_ok V err \<longleftrightarrow> (case err of None \<Rightarrow> True | Some code \<Rightarrow> has_type (ErrorCode_t V) code \<and> code \<noteq> 0)"

definition refs_ok :: "vactor_api \<Rightarrow> ActorRef list \<Rightarrow> bool" where
  "refs_ok V rs \<longleftrightarrow> (\<forall>r \<in> set rs. r \<noteq> None \<and> opt_ref_ok V r)"

fun envelope_ok :: "vactor_api \<Rightarrow> 'p envelope \<Rightarrow> bool" where
  "envelope_ok V (EnvelopeSend f t m) \<longleftrightarrow> opt_ref_ok V f \<and> opt_ref_ok V t"
| "envelope_ok V (EnvelopeBatchSend f ts ms) \<longleftrightarrow> opt_ref_ok V f \<and> refs_ok V ts"
| "envelope_ok V (EnvelopeRequestAsync f t m c a) \<longleftrightarrow> opt_ref_ok V f \<and> opt_ref_ok V t \<and> has_type (CallbackId_t V) c"
| "envelope_ok V (EnvelopeResponseAsync f t r c a) \<longleftrightarrow> opt_ref_ok V f \<and> opt_ref_ok V t \<and>
     has_type (CallbackId_t V) c \<and> (\<forall>err m. r = Some (err, m) \<longrightarrow> error_ok V err)"
| "envelope_ok V (EnvelopeRequest f t m i) \<longleftrightarrow> opt_ref_ok V f \<and> opt_ref_ok V t \<and> has_type (CallbackId_t V) i"
| "envelope_ok V (EnvelopeResponse f t r i) \<longleftrightarrow> opt_ref_ok V f \<and> opt_ref_ok V t \<and>
     has_type (CallbackId_t V) i \<and> (\<forall>err m. r = Some (err, m) \<longrightarrow> error_ok V err)"
| "envelope_ok V (EnvelopeWatch f t w b) \<longleftrightarrow> opt_ref_ok V f \<and> opt_ref_ok V t \<and> has_type (WatchType_t V) w"
| "envelope_ok V (EnvelopeNotify f ts n m) \<longleftrightarrow> opt_ref_ok V f \<and> refs_ok V ts \<and> has_type (NotifyType_t V) n \<and>
     (\<forall>a w x. m = Some (a, w, x) \<longrightarrow> opt_ref_ok V a \<and> has_type (WatchType_t V) w)"
| "envelope_ok V (EnvelopeFireNotify f t n w m) \<longleftrightarrow> opt_ref_ok V f \<and> opt_ref_ok V t \<and>
     has_type (NotifyType_t V) n \<and> has_type (WatchType_t V) w"
| "envelope_ok V _ \<longleftrightarrow> True"

text \<open>
  What arrives: the envelope itself, only that the messages of a batch which cannot be marshalled
  are missing.
\<close>

definition accepted :: "vactor_api \<Rightarrow> 'p proto_lib \<Rightarrow> msg_registry \<Rightarrow> 'p message \<Rightarrow> bool" where
  "accepted V P s m \<longleftrightarrow> (case MarshalMessage V P s m of Inl _ \<Rightarrow> False | Inr _ \<Rightarrow> True)"

fun arriving :: "vactor_api \<Rightarrow> 'p proto_lib \<Rightarrow> msg_registry \<Rightarrow> 'p envelope \<Rightarrow> 'p envelope" where
  "arriving V P s (EnvelopeBatchSend f ts ms) = EnvelopeBatchSend f ts (filter (accepted V P s) ms)"
| "arriving V P s e = e"

lemma opt_ref_roundtrip [simp]:
  "wire_types_ok V \<Longrightarrow> opt_ref_ok V r \<Longrightarrow> ActorRefFromProto V (ActorRefToProto r) = r"
  by (rule ActorRef_roundtrip) (auto simp: opt_ref_ok_def)

lemma refs_roundtrip [simp]:
  "wire_types_ok V \<Longrightarrow> refs_ok V rs \<Longrightarrow> map (ActorRefFromProto V \<circ> ActorRefToProto) rs = rs"
  by (induction rs) (auto simp: refs_ok_def)

lemma refs_no_nil: "refs_ok V rs \<Longrightarrow> None \<notin> set (map ActorRefToProto rs)"
  by (induction rs) (auto simp: refs_ok_def)

lemma error_roundtrip [simp]:
  "wire_types_ok V \<Longrightarrow> error_ok V err \<Longrightarrow> errorCodeToVAError V (errorCodeToProto err) = err"
  by (rule errorCode_roundtrip) (auto simp: error_ok_def)

lemma wire_conv [simp]:
  assumes "wire_types_ok V"
  shows "has_type (CallbackId_t V) x \<Longrightarrow> go_conv (CallbackId_t V) (uint (to_u32 x)) = x"
    and "has_type (WatchType_t V) x \<Longrightarrow> go_conv (WatchType_t V) (uint (to_u32 x)) = x"
    and "has_type (NotifyType_t V) x \<Longrightarrow> go_conv (NotifyType_t V) (uint (to_u32 x)) = x"
  using assms by (simp_all add: wire_types_ok_def go_conv_via_u32 del: go_conv.simps)

lemma unmarshalled_roundtrip:
  "proto_ok P \<Longrightarrow> reg_ok s s' \<Longrightarrow> MarshalMessage V P s m = Inr pm \<Longrightarrow>
   unmarshalled P s' (Some pm) k = Some (None, [k m])"
  by (simp add: unmarshalled_def Marshal_Unmarshal)

lemma batch_roundtrip:
  assumes "proto_ok P" and "reg_ok s s'"
  shows "unmarshal_batch P s' (map Some (marshal_batch V P s ms)) = Some (filter (accepted V P s) ms)"
  by (induction ms) (auto simp: accepted_def Marshal_Unmarshal [OF assms] split: sum.splits)

lemma marshal_batch_empty: "marshal_batch V P s ms = [] \<longleftrightarrow> filter (accepted V P s) ms = []"
  by (induction ms) (auto simp: accepted_def split: sum.splits)

lemma marshalled_Inr:
  "marshalled V P s m k = Some (Inr r) \<longleftrightarrow> (\<exists>pm. MarshalMessage V P s m = Inr pm \<and> r = k pm)"
  by (auto simp: marshalled_def split: sum.splits)

lemmas pkg_handlers = OnPkgEnvelopeSend_def OnPkgEnvelopeBatchSend_def OnPkgEnvelopeRequestAsync_def
  OnPkgEnvelopeResponseAsync_def OnPkgEnvelopeRequest_def OnPkgEnvelopeResponse_def
  OnPkgEnvelopeWatch_def OnPkgEnvelopeNotify_def OnPkgEnvelopeFireNotify_def

text \<open>
  The number \<open>Send\<close> writes in the frame is the one of its package, one that \<open>OnMessage\<close> handles and
  that fits the one byte of the frame.
\<close>

definition envelope_kinds :: "u32 set" where
  "envelope_kinds = {PkgTypeEnvelopeSend, PkgTypeEnvelopeBatchSend, PkgTypeEnvelopeRequestAsync,
     PkgTypeEnvelopeResponseAsync, PkgTypeEnvelopeRequest, PkgTypeEnvelopeResponse,
     PkgTypeEnvelopeWatch, PkgTypeEnvelopeNotify, PkgTypeEnvelopeFireNotify}"

lemma envelope_kinds_byte: "k \<in> envelope_kinds \<Longrightarrow> k \<le> 0xFF"
  by (auto simp: envelope_kinds_def pkg_types)

lemma Send_pkg_kind:
  "Send_pkg V P s e = Some (Inr (k, pkg)) \<Longrightarrow> k = pkg_kind pkg \<and> k \<in> envelope_kinds"
  by (cases e) (auto simp: marshalled_Inr Let_def envelope_kinds_def split: option.splits if_splits)

lemma Send_pkg_no_nil:
  "Send_pkg V P s e = Some (Inr (k, pkg)) \<Longrightarrow> envelope_ok V e \<Longrightarrow> no_nil_elements pkg"
  using refs_no_nil
  by (cases e) (auto simp: marshalled_Inr Let_def split: option.splits if_splits)

lemma dispatch_Send_pkg:
  assumes "wire_types_ok V" and "proto_ok P" and "reg_ok s s'" and "envelope_ok V e"
    and "Send_pkg V P s e = Some (Inr (k, pkg))"
  shows "dispatch_pkg V P s' pkg = Some (None, [arriving V P s e])"
  using assms unmarshalled_roundtrip [OF assms(2,3)] batch_roundtrip [OF assms(2,3)]
  by (cases e) (auto simp: marshalled_Inr Let_def pkg_handlers unmarshalled_response_def proto_response_def
      split: option.splits if_splits)

lemma OnMessage_dispatch:
  "k \<in> envelope_kinds \<Longrightarrow> OnMessage V P s k data =
     (case Unmarshal_pkg P k data of None \<Rightarrow> Some (Some ''unmarshal'', []) | Some pkg \<Rightarrow> dispatch_pkg V P s pkg)"
  by (simp add: OnMessage_def envelope_kinds_def)

lemma OnMessage_other: "k \<notin> envelope_kinds \<Longrightarrow> OnMessage V P s k data = Some (None, [])"
  by (simp add: OnMessage_def envelope_kinds_def)

text \<open>The packages that lack the message or response \<open>OnMessage\<close> dereferences.\<close>

fun lacks_payload :: "pkg \<Rightarrow> bool" where
  "lacks_payload (PkgEnvelopeSend _ _ m) \<longleftrightarrow> m = None"
| "lacks_payload (PkgEnvelopeBatchSend _ _ ms) \<longleftrightarrow> None \<in> set ms"
| "lacks_payload (PkgEnvelopeRequestAsync _ _ m _ _) \<longleftrightarrow> m = None"
| "lacks_payload (PkgEnvelopeResponseAsync _ _ r _ _) \<longleftrightarrow> r = None"
| "lacks_payload (PkgEnvelopeRequest _ _ m _) \<longleftrightarrow> m = None"
| "lacks_payload (PkgEnvelopeResponse _ _ r _) \<longleftrightarrow> r = None"
| "lacks_payload (PkgEnvelopeNotify _ _ _ _ _ m) \<longleftrightarrow> m = None"
| "lacks_payload (PkgEnvelopeFireNotify _ _ _ _ m) \<longleftrightarrow> m = None"
| "lacks_payload _ \<longleftrightarrow> False"

lemma UnmarshalMessage_nil [simp]: "UnmarshalMessage P s None = None"
  by (simp add: UnmarshalMessage_def)

lemma UnmarshalMessage_Some: "\<exists>r. UnmarshalMessage P s (Some m) = Some r"
  by (simp add: UnmarshalMessage_def)

lemma unmarshalled_None: "unmarshalled P s m k = None \<longleftrightarrow> m = None"
proof (cases m)
  case (Some x)
  then obtain r where "UnmarshalMessage P s m = Some r" using UnmarshalMessage_Some by metis
  with Some show ?thesis by (simp add: unmarshalled_def)
qed (simp add: unmarshalled_def)

lemma unmarshal_batch_None: "unmarshal_batch P s ms = None \<longleftrightarrow> None \<in> set ms"
proof (induction ms)
  case (Cons m ms)
  show ?case
  proof (cases m)
    case (Some x)
    obtain r where "UnmarshalMessage P s m = Some r" using UnmarshalMessage_Some Some by metis
    with Cons Some show ?thesis by (cases "unmarshal_batch P s ms") auto
  qed simp
qed simp

lemma unmarshalled_response_None: "unmarshalled_response V P s r k = None \<longleftrightarrow> r = None"
proof (cases r)
  case (Some x)
  then show ?thesis
    using unmarshalled_None [of P s "pr_Message x"]
    by (cases "pr_Message x") (simp_all add: unmarshalled_response_def unmarshalled_None del: not_None_eq)
qed (simp add: unmarshalled_response_def)

lemma unmarshalled_one:
  assumes "unmarshalled P s m k = Some (err, es)"
  shows "length es \<le> 1 \<and> (err \<noteq> None \<longrightarrow> es = [])"
proof -
  from assms obtain r where "(case r of Inl err \<Rightarrow> (Some err, []) | Inr msg \<Rightarrow> (None, [k msg])) = (err, es)"
    by (auto simp: unmarshalled_def)
  then show ?thesis by (cases r) auto
qed

lemma unmarshalled_response_one:
  "unmarshalled_response V P s r k = Some (err, es) \<Longrightarrow> length es \<le> 1 \<and> (err \<noteq> None \<longrightarrow> es = [])"
  by (auto simp: unmarshalled_response_def split: option.splits dest: unmarshalled_one)

lemma dispatch_pkg_None: "dispatch_pkg V P s pkg = None \<longleftrightarrow> lacks_payload pkg"
proof (cases pkg)
  case (PkgEnvelopeBatchSend f ts ms)
  then show ?thesis
    by (cases "unmarshal_batch P s ms") (auto simp: OnPkgEnvelopeBatchSend_def unmarshal_batch_None [of P s, symmetric])
qed (simp_all add: pkg_handlers unmarshalled_None unmarshalled_response_None)

lemma OnMessage_Send_pkg:
  assumes "wire_types_ok V" and "proto_ok P" and "reg_ok s s'" and "envelope_ok V e"
    and "Send_pkg V P s e = Some (Inr (k, pkg))" and "Marshal_pkg P pkg = Some data"
  shows "OnMessage V P s' k data = Some (None, [arriving V P s e])"
proof -
  from Send_pkg_kind [OF assms(5)] have k: "k = pkg_kind pkg" "k \<in> envelope_kinds" by auto
  from Send_pkg_no_nil [OF assms(5,4)] have "Unmarshal_pkg P k data = Some pkg"
    unfolding k(1) by (rule proto_ok_pkg [OF assms(2) _ assms(6)])
  with k(2) dispatch_Send_pkg [OF assms(1-5)] show ?thesis by (simp add: OnMessage_dispatch)
qed

section \<open>Main theorems\<close>

text \<open>
  C14. Every envelope that \<open>Send\<close> turns into a package arrives unchanged: addresses, ids, watch and
  notification types, callback address, error code and message. The one exception is a batch, which
  arrives without the messages that could not be marshalled. It presumes that the receiver knows
  the sender's message numbers and that the protobuf library inverts its own marshalling.
\<close>

theorem envelope_roundtrip:
  assumes "wire_types_ok V" and "proto_ok P" and "reg_ok s s'" and "envelope_ok V e"
    and "Send_pkg V P s e = Some (Inr (k, pkg))" and "Marshal_pkg P pkg = Some data"
  shows "OnMessage V P s' k data = Some (None, [arriving V P s e])"
  by (rule OnMessage_Send_pkg [OF assms])

definition demo_ref :: "int \<Rightarrow> string \<Rightarrow> ActorRef" where
  "demo_ref sid i = Some \<lparr>ar_SystemId = sid, ar_GroupSlot = 1, ar_ActorType = 20, ar_ActorId = i\<rparr>"

definition demo_registry :: msg_registry where
  "demo_registry = register_all [(7, 1), (8, 2)] empty_registry"

lemma demo_registry_ok: "reg_ok demo_registry demo_registry"
  unfolding demo_registry_def by (rule register_all_reg_ok) auto

lemma demo_wire_types_ok: "wire_types_ok demo_api"
  by (simp add: wire_types_ok_def demo_api_def)

lemma demo_ref_ok [simp]: "0 \<le> sid \<Longrightarrow> sid < 65536 \<Longrightarrow> opt_ref_ok demo_api (demo_ref sid i)"
  by (simp add: opt_ref_ok_def ref_ok_def demo_ref_def demo_api_def has_type_def)

theorem envelope_roundtrip_witness:
  "\<exists>k pkg. Send_pkg demo_api (demo_proto pkg [9]) demo_registry
       (EnvelopeBatchSend (demo_ref 1 ''a'') [demo_ref 2 ''b''] [ProtoMsg 2 [65], MsgNil]) = Some (Inr (k, pkg)) \<and>
     OnMessage demo_api (demo_proto pkg [9]) demo_registry k [9] =
       Some (None, [EnvelopeBatchSend (demo_ref 1 ''a'') [demo_ref 2 ''b''] [ProtoMsg 2 [65]]])"
proof -
  let ?e = "EnvelopeBatchSend (demo_ref 1 ''a'') [demo_ref 2 ''b''] [ProtoMsg 2 [65], MsgNil]"
  let ?pkg = "PkgEnvelopeBatchSend (ActorRefToProto (demo_ref 1 ''a'')) [ActorRefToProto (demo_ref 2 ''b'')]
    [Some \<lparr>pm_Type = 8, pm_Data = PutUint32 8 @ [65]\<rparr>]"
  let ?P = "demo_proto ?pkg [9]"
  have reg: "MarshalMessage demo_api ?P demo_registry (ProtoMsg 2 [65]) = Inr \<lparr>pm_Type = 8, pm_Data = PutUint32 8 @ [65]\<rparr>"
    "MarshalMessage demo_api ?P demo_registry MsgNil = Inl (ErrorCodeMessageCannotSerialize demo_api)"
    by (simp_all add: MarshalMessage_def demo_registry_def demo_proto_def RegisterMessageType_def empty_registry_def)
  have send: "Send_pkg demo_api ?P demo_registry ?e = Some (Inr (PkgTypeEnvelopeBatchSend, ?pkg))"
    by (simp add: reg Let_def)
  have "OnMessage demo_api ?P demo_registry PkgTypeEnvelopeBatchSend [9] = Some (None, [arriving demo_api ?P demo_registry ?e])"
    by (rule envelope_roundtrip [OF demo_wire_types_ok demo_proto_ok demo_registry_ok _ send])
      (simp_all add: refs_ok_def demo_proto_def, simp add: demo_ref_def)
  then have "OnMessage demo_api ?P demo_registry PkgTypeEnvelopeBatchSend [9] =
      Some (None, [EnvelopeBatchSend (demo_ref 1 ''a'') [demo_ref 2 ''b''] [ProtoMsg 2 [65]]])"
    by (simp add: accepted_def reg)
  with send show ?thesis by blast
qed

text \<open>
  C15. An error response without a message cannot be sent to another node, whatever the error: both
  response cases of \<open>Send\<close> marshal the message first and give up with
  \<open>ErrorCodeMessageCannotSerialize\<close>. The receiving side is prepared for such a response: if a peer
  sends the package without a message, it arrives as the error response.
\<close>

theorem error_response_cannot_cross:
  assumes "wire_types_ok V" and "proto_ok P" and "envelope_ok V e"
    and "e = EnvelopeResponse f t (Some (err, MsgNil)) i"
  shows "Send_pkg V P s e = Some (Inl (ErrorCodeMessageCannotSerialize V)) \<and>
    Send_pkg V P s (EnvelopeResponseAsync f t (Some (err, MsgNil)) c a) = Some (Inl (ErrorCodeMessageCannotSerialize V)) \<and>
    (Marshal_pkg P (PkgEnvelopeResponse (ActorRefToProto f) (ActorRefToProto t)
        (Some \<lparr>pr_ErrorCode = errorCodeToProto err, pr_Message = None\<rparr>) (to_u32 i)) = Some data \<longrightarrow>
      OnMessage V P s PkgTypeEnvelopeResponse data = Some (None, [e]))"
  using assms proto_ok_pkg [OF assms(2), of "PkgEnvelopeResponse (ActorRefToProto f) (ActorRefToProto t)
        (Some \<lparr>pr_ErrorCode = errorCodeToProto err, pr_Message = None\<rparr>) (to_u32 i)" data]
  by (auto simp: marshalled_def MarshalMessage_def OnMessage_dispatch envelope_kinds_def pkg_handlers
      unmarshalled_response_def)

theorem error_response_cannot_cross_witness:
  "Send_pkg demo_api (demo_proto (PkgRegisterSystemReq 1) []) demo_registry
     (EnvelopeResponse (demo_ref 1 ''a'') (demo_ref 2 ''b'') (Some (Some 2, MsgNil)) 42) =
   Some (Inl (ErrorCodeMessageCannotSerialize demo_api))"
  by (rule conjunct1 [OF error_response_cannot_cross [OF demo_wire_types_ok demo_proto_ok _ refl]])
    (simp add: error_ok_def has_type_def demo_api_def demo_ref_ok [unfolded demo_api_def])

text \<open>
  C16. \<open>OnMessage\<close> panics exactly when the package of a peer lacks the message or response it
  should carry (an element of a batch never lacks). Any other data, in particular data that does
  not parse, an unknown message number or a number of no package, is answered by an error or
  ignored, and at most one envelope is routed.
\<close>

theorem OnMessage_panics_iff:
  "(OnMessage V P s k data = None \<longleftrightarrow>
      k \<in> envelope_kinds \<and> (\<exists>pkg. Unmarshal_pkg P k data = Some pkg \<and> lacks_payload pkg)) \<and>
   (\<forall>err es. OnMessage V P s k data = Some (err, es) \<longrightarrow> length es \<le> 1 \<and> (err \<noteq> None \<longrightarrow> es = []))"
proof -
  have "length es \<le> 1 \<and> (err \<noteq> None \<longrightarrow> es = [])" if "dispatch_pkg V P s pkg = Some (err, es)" for pkg err es
    using that by (cases pkg) (auto simp: pkg_handlers dest: unmarshalled_one unmarshalled_response_one)
  then show ?thesis
    by (cases "k \<in> envelope_kinds") (auto simp: OnMessage_dispatch OnMessage_other dispatch_pkg_None split: option.splits)
qed

theorem OnMessage_panics_iff_witness:
  "OnMessage demo_api (demo_proto (PkgEnvelopeSend None None None) []) demo_registry PkgTypeEnvelopeSend [] = None"
  using OnMessage_panics_iff [of demo_api "demo_proto (PkgEnvelopeSend None None None) []" demo_registry PkgTypeEnvelopeSend "[]"]
  by (simp add: demo_proto_def envelope_kinds_def)

end
