(* ===== verification/Frame_Receiver.thy ===== *)
theory Frame_Receiver
  imports Prelude
begin

text \<open>
  What the receive loops of \<open>NetClient\<close> and \<open>NetServer\<close> rely on in a packet splitter, as a locale:
  a complete frame at the front of the buffer is taken off, an incomplete one is left alone, and
  the loop hands the frames to the message handler one by one. Proved once for any such splitter:
  however the byte stream is cut into chunks, the handler sees exactly the frames that have
  arrived completely, in order.
\<close>

text \<open>Running a handler over a list of messages; \<open>None\<close> is a panic of the handler.\<close>

primrec handle_all :: "('m \<Rightarrow> 's \<Rightarrow> 's option) \<Rightarrow> 'm list \<Rightarrow> 's \<Rightarrow> 's option" where
  "handle_all h [] s = Some s"
| "handle_all h (m # ms) s = Option.bind (h m s) (handle_all h ms)"

lemma handle_all_append:
  "handle_all h (ms @ ns) s = Option.bind (handle_all h ms s) (handle_all h ns)"
  by (induction ms arbitrary: s) (auto split: bind_splits)

text \<open>Feeding chunks one after the other to an on-data callback.\<close>

primrec feed :: "(bytes \<Rightarrow> 'p \<Rightarrow> 's \<Rightarrow> ('p \<times> 's) option) \<Rightarrow> bytes list \<Rightarrow> 'p \<Rightarrow> 's \<Rightarrow> ('p \<times> 's) option" where
  "feed ondata [] p s = Some (p, s)"
| "feed ondata (c # cs) p s = Option.bind (ondata c p s) (\<lambda>(p, s). feed ondata cs p s)"

locale frame_receiver =
  fixes encode :: "'m \<Rightarrow> bytes"
    and wf :: "'m \<Rightarrow> bool"
    and limit :: nat
    and buf :: "'p \<Rightarrow> bytes"
    and append :: "bytes \<Rightarrow> 'p \<Rightarrow> 'p"
    and next_frame :: "'p \<Rightarrow> ('m option \<times> 'p) option"
    and loop :: "('m \<Rightarrow> 's \<Rightarrow> 's option) \<Rightarrow> 'p \<Rightarrow> 's \<Rightarrow> ('p \<times> 's) option"
  assumes buf_append: "buf (append d p) = buf p @ d"
    and next_full: "wf m \<Longrightarrow> buf p = encode m @ r \<Longrightarrow> length (buf p) < limit \<Longrightarrow>
      \<exists>p'. next_frame p = Some (Some m, p') \<and> buf p' = r"
    and next_partial: "wf m \<Longrightarrow> encode m = buf p @ r \<Longrightarrow> r \<noteq> [] \<Longrightarrow> length (buf p) < limit \<Longrightarrow>
      \<exists>p'. next_frame p = Some (None, p') \<and> buf p' = buf p"
    and next_empty: "buf p = [] \<Longrightarrow> \<exists>p'. next_frame p = Some (None, p') \<and> buf p' = []"
    and loop_more: "next_frame p = Some (Some m, p') \<Longrightarrow> loop h p s = Option.bind (h m s) (loop h p')"
    and loop_stop: "next_frame p = Some (None, p') \<Longrightarrow> loop h p s = Some (p', s)"
begin

text \<open>What is left in the buffer is a proper part of the next frame.\<close>

definition short :: "'m list \<Rightarrow> 'p \<Rightarrow> bool" where
  "short ms p \<longleftrightarrow> (case ms of [] \<Rightarrow> buf p = [] | m # _ \<Rightarrow> length (buf p) < length (encode m))"

lemma short_complete: "short ms p \<Longrightarrow> buf p = concat (map encode ms) \<Longrightarrow> ms = []"
  by (cases ms) (auto simp: short_def)

lemma loop_frames:
  assumes "\<forall>m \<in> set ms. wf m" and "buf p @ rest = concat (map encode ms)" and "length (buf p) < limit"
  shows "\<exists>done left p'. ms = done @ left \<and> buf p' @ rest = concat (map encode left) \<and> short left p' \<and>
           (\<forall>s. loop h p s = map_option (Pair p') (handle_all h done s))"
  using assms
proof (induction ms arbitrary: p)
  case Nil
  then obtain p' where "next_frame p = Some (None, p')" "buf p' = []"
    using next_empty [of p] by auto
  with Nil show ?case
    by (intro exI [of _ "[]"] exI [of _ p']) (simp add: short_def loop_stop)
next
  case (Cons m ms)
  show ?case
  proof (cases "length (encode m) \<le> length (buf p)")
    case True
    have "take (length (encode m)) (buf p @ rest) = encode m" using Cons.prems(2) by simp
    with True have "buf p = encode m @ drop (length (encode m)) (buf p)"
      by (metis append_take_drop_id diff_is_0_eq take_0 append_Nil2 take_append)
    then obtain r where r: "buf p = encode m @ r" by blast
    with Cons.prems(2) have "r @ rest = concat (map encode ms)" by simp
    note r = r this
    obtain p1 where p1: "next_frame p = Some (Some m, p1)" "buf p1 = r"
      using next_full [of m p r] r Cons.prems by auto
    then obtain dn lft p' where IH: "ms = dn @ lft" "buf p' @ rest = concat (map encode lft)" "short lft p'"
        "\<And>s. loop h p1 s = map_option (Pair p') (handle_all h dn s)"
      using Cons.IH [of p1] Cons.prems r by auto
    have "loop h p s = map_option (Pair p') (handle_all h (m # dn) s)" for s
      by (cases "h m s") (simp_all add: loop_more [OF p1(1)] IH(4))
    with IH show ?thesis by (intro exI [of _ "m # dn"] exI [of _ lft] exI [of _ p']) simp
  next
    case False
    with Cons.prems(2) obtain r where r: "buf p @ r = encode m"
      by (auto simp: append_eq_append_conv2)
    with False have "encode m = buf p @ r" "r \<noteq> []" by auto
    note r = this
    then obtain p' where "next_frame p = Some (None, p')" "buf p' = buf p"
      using next_partial [of m p r] Cons.prems by auto
    with Cons.prems False show ?thesis
      by (intro exI [of _ "[]"] exI [of _ "m # ms"] exI [of _ p']) (simp add: short_def loop_stop)
  qed
qed

text \<open>
  The chunks \<open>cs\<close> arrive while the splitter holds \<open>buf p\<close>; \<open>rest\<close> is what the peer has sent and
  has not arrived. \<open>bound\<close> is the longest frame, \<open>chunk\<close> the longest chunk.
\<close>

lemma feed_frames:
  assumes "\<forall>m \<in> set ms. wf m \<and> length (encode m) \<le> bound" and "\<forall>c \<in> set cs. length c \<le> chunk"
    and "bound + chunk < limit" and "short ms p" and "buf p @ concat cs @ rest = concat (map encode ms)"
  shows "\<exists>done left p'. ms = done @ left \<and> buf p' @ rest = concat (map encode left) \<and> short left p' \<and>
    (\<forall>s. feed (\<lambda>d p. loop h (append d p)) cs p s = map_option (Pair p') (handle_all h done s))"
  using assms
proof (induction cs arbitrary: ms p)
  case Nil
  then show ?case by (intro exI [of _ "[]"] exI [of _ ms] exI [of _ p]) simp
next
  case (Cons c cs)
  have "length (buf p) \<le> bound"
    using Cons.prems(1,4) by (cases ms) (auto simp: short_def)
  then have "length (buf (append c p)) < limit"
    using Cons.prems(2,3) by (simp add: buf_append)
  then obtain dn lft p1 where 1: "ms = dn @ lft" "buf p1 @ concat cs @ rest = concat (map encode lft)"
      "short lft p1" "\<And>s. loop h (append c p) s = map_option (Pair p1) (handle_all h dn s)"
    using loop_frames [of ms "append c p" "concat cs @ rest" h] Cons.prems(1,5)
    by (auto simp: buf_append)
  obtain dn' lft' p' where 2: "lft = dn' @ lft'" "buf p' @ rest = concat (map encode lft')" "short lft' p'"
      "\<And>s. feed (\<lambda>d p. loop h (append d p)) cs p1 s = map_option (Pair p') (handle_all h dn' s)"
    using Cons.IH [of lft p1] Cons.prems(1-3) 1 by auto
  have "feed (\<lambda>d p. loop h (append d p)) (c # cs) p s =
      map_option (Pair p') (handle_all h (dn @ dn') s)" for s
    by (cases "handle_all h dn s") (simp_all add: 1(4) 2(4) handle_all_append)
  with 1 2 show ?case
    by (intro exI [of _ "dn @ dn'"] exI [of _ lft'] exI [of _ p']) simp
qed

text \<open>When everything has arrived, everything has been handled and the buffer is empty.\<close>

lemma feed_all:
  assumes "\<forall>m \<in> set ms. wf m \<and> length (encode m) \<le> bound" and "\<forall>c \<in> set cs. length c \<le> chunk"
    and "bound + chunk < limit" and "buf p = []" and "concat cs = concat (map encode ms)"
    and "\<forall>m. wf m \<longrightarrow> encode m \<noteq> []"
  shows "\<exists>p'. buf p' = [] \<and>
    feed (\<lambda>d p. loop h (append d p)) cs p s = map_option (Pair p') (handle_all h ms s)"
proof -
  have "short ms p" using assms(1,4,6) by (cases ms) (auto simp: short_def)
  with feed_frames [OF assms(1-3), of p "[]" h] assms(4,5)
  obtain dn lft p' where *: "ms = dn @ lft" "buf p' = concat (map encode lft)" "short lft p'"
      "\<And>s. feed (\<lambda>d p. loop h (append d p)) cs p s = map_option (Pair p') (handle_all h dn s)"
    by auto
  with short_complete have "lft = []" by blast
  with * show ?thesis by auto
qed

end

end
