(* ===== verification/Packet.thy ===== *)
theory Packet
  imports Frame_Receiver
begin

text \<open>
  The wire format of \<open>engine/net/connect/packet.go\<close>, \<open>len(4, big endian) + msgId(1) + data\<close>:
  \<open>PackMessage\<close>, the stateful \<open>PacketSplitter\<close>, and the receive loop that \<open>client.go\<close> and
  \<open>server.go\<close> install as the connection's on-data callback. All length arithmetic is on 32-bit
  words, as in the code, so the wrap-around of \<open>dataLen + PacketHeaderSize\<close> is part of the model.
\<close>

definition PacketHeaderSize :: nat where "PacketHeaderSize = 5"
definition MaxMsgId :: u32 where "MaxMsgId = 0xFF"

text \<open>\<open>Inl\<close> is the error result. The length field is \<open>uint32(len(data))\<close>, which truncates.\<close>

definition PackMessage :: "u32 \<Rightarrow> bytes \<Rightarrow> string + bytes" where
  "PackMessage msgId data =
     (if msgId > MaxMsgId then Inl ''msgId exceeds 1 byte range''
      else
        let l = length data;
            pkt = PutUint32 (of_nat l) @ [ucast msgId]
        in Inr (pkt @ data))"

record PacketSplitter = ps_buf :: bytes

definition ps_empty :: PacketSplitter where "ps_empty = \<lparr>ps_buf = []\<rparr>"

definition Append :: "bytes \<Rightarrow> PacketSplitter \<Rightarrow> PacketSplitter" where
  "Append data p = p\<lparr>ps_buf := ps_buf p @ data\<rparr>"

definition Next :: "PacketSplitter \<Rightarrow> ((u32 \<times> bytes \<times> bool) \<times> PacketSplitter) option" where
  "Next p =
     (let l = of_nat (length (ps_buf p)) :: u32 in
      if l < of_nat PacketHeaderSize then Some ((0, [], False), p)
      else do {
        hdr \<leftarrow> go_slice (ps_buf p) 0 4;
        dataLen \<leftarrow> Uint32 hdr;
        let msgLen = dataLen + of_nat PacketHeaderSize;
        if l < msgLen then Some ((0, [], False), p)
        else do {
          msgId \<leftarrow> go_index (ps_buf p) 4;
          payload \<leftarrow> go_slice (ps_buf p) PacketHeaderSize (unat msgLen);
          rest \<leftarrow> go_slice (ps_buf p) (unat msgLen) (length (ps_buf p));
          Some ((ucast msgId, payload, True), p\<lparr>ps_buf := rest\<rparr>) } })"

text \<open>
  The callback installed by \<open>netClient.Connect\<close> and by the accept handler of \<open>netServer.Start\<close>:
  append, then hand every complete frame to \<open>onMessage\<close> (its error result is ignored). \<open>s\<close> is
  whatever state \<open>onMessage\<close> works on.
\<close>

partial_function (option) OnData_loop ::
  "(u32 \<times> bytes \<Rightarrow> 's \<Rightarrow> 's option) \<Rightarrow> PacketSplitter \<Rightarrow> 's \<Rightarrow> (PacketSplitter \<times> 's) option" where
  "OnData_loop onMessage p s =
     Option.bind (Next p) (\<lambda>((msgId, payload, ok), p).
       if \<not> ok then Some (p, s)
       else Option.bind (onMessage (msgId, payload) s) (OnData_loop onMessage p))"

definition OnData ::
  "(u32 \<times> bytes \<Rightarrow> 's \<Rightarrow> 's option) \<Rightarrow> bytes \<Rightarrow> PacketSplitter \<Rightarrow> 's \<Rightarrow> (PacketSplitter \<times> 's) option" where
  "OnData onMessage data p s = OnData_loop onMessage (Append data p) s"

section \<open>Packing\<close>

text \<open>The frame of a message whose id fits one byte, as a plain function.\<close>

definition frame :: "u32 \<times> bytes \<Rightarrow> bytes" where
  "frame m = PutUint32 (of_nat (length (snd m))) @ ucast (fst m) # snd m"

text \<open>The messages the format can carry: one-byte id, and a length the receiver can add 5 to.\<close>

definition msg_fits :: "u32 \<times> bytes \<Rightarrow> bool" where
  "msg_fits m \<longleftrightarrow> fst m \<le> MaxMsgId \<and> length (snd m) + PacketHeaderSize < 2 ^ 32"

lemma PackMessage_frame: "msgId \<le> MaxMsgId \<Longrightarrow> PackMessage msgId data = Inr (frame (msgId, data))"
  by (simp add: PackMessage_def frame_def Let_def)

lemma PackMessage_too_large: "MaxMsgId < msgId \<Longrightarrow> \<exists>e. PackMessage msgId data = Inl e"
  by (simp add: PackMessage_def)

lemma length_frame: "length (frame m) = length (snd m) + PacketHeaderSize"
  by (simp add: frame_def PacketHeaderSize_def)

lemma ucast_byte: "m \<le> MaxMsgId \<Longrightarrow> ucast (ucast m :: u8) = (m :: u32)"
proof -
  assume "m \<le> MaxMsgId"
  then have "m < 256" by (simp add: MaxMsgId_def word_le_nat_alt word_less_nat_alt)
  then show ?thesis
    by (simp add: unsigned_ucast_eq take_bit_eq_mod mod_word_less)
qed

section \<open>Splitting\<close>

text \<open>The buffer is shorter than $2^{32}$ bytes in all that follows, so \<open>uint32(len(p.buf))\<close> is exact.\<close>

lemma unat_len: "length xs < 2 ^ 32 \<Longrightarrow> unat (of_nat (length xs) :: u32) = length xs"
  by (simp add: unat_of_nat take_bit_eq_mod)

lemma unat_msgLen:
  "length xs + 5 < 2 ^ 32 \<Longrightarrow> unat ((of_nat (length xs) :: u32) + 5) = length xs + 5"
proof -
  assume "length xs + 5 < 2 ^ 32"
  then have "unat (of_nat (length xs + 5) :: u32) = length xs + 5"
    by (simp only: unat_of_nat take_bit_eq_mod) simp
  then show ?thesis by (simp add: add.commute)
qed

lemma Next_frame:
  assumes "msg_fits m" and "ps_buf p = frame m @ r" and "length (ps_buf p) < 2 ^ 32"
  shows "Next p = Some ((fst m, snd m, True), p\<lparr>ps_buf := r\<rparr>)"
proof -
  obtain i d where m: "m = (i, d)" by (cases m)
  have i: "i \<le> MaxMsgId" and d: "length d + 5 < 2 ^ 32"
    using assms(1) by (auto simp: msg_fits_def PacketHeaderSize_def m)
  let ?l = "of_nat (length (ps_buf p)) :: u32"
  have len: "length (ps_buf p) = length d + 5 + length r"
    using assms(2) by (simp add: length_frame PacketHeaderSize_def m)
  have l: "unat ?l = length d + 5 + length r"
    using unat_len [OF assms(3)] len by simp
  have hdr: "go_slice (ps_buf p) 0 4 = Some (PutUint32 (of_nat (length d)))"
    using len by (simp add: go_slice_Some assms(2) frame_def m)
  have "\<not> ?l < 5" "\<not> ?l < of_nat (length d) + 5"
    using l unat_msgLen [OF d] by (auto simp: word_less_nat_alt)
  moreover have "go_index (ps_buf p) 4 = Some (ucast i)"
    using len by (simp add: go_index_Some assms(2) frame_def m nth_append)
  moreover have "go_slice (ps_buf p) 5 (length d + 5) = Some d"
    using len by (simp add: go_slice_Some) (simp add: assms(2) frame_def m)
  moreover have "go_slice (ps_buf p) (length d + 5) (length (ps_buf p)) = Some r"
    using len by (simp add: go_slice_Some) (simp add: assms(2) frame_def m)
  ultimately show ?thesis
    using unat_msgLen [OF d] ucast_byte [OF i] hdr
    by (simp add: Next_def Let_def PacketHeaderSize_def m)
qed

lemma Next_partial:
  assumes "msg_fits m" and "frame m = ps_buf p @ r" and "r \<noteq> []"
  shows "Next p = Some ((0, [], False), p)"
proof -
  obtain i d where m: "m = (i, d)" by (cases m)
  have d: "length d + 5 < 2 ^ 32"
    using assms(1) by (auto simp: msg_fits_def PacketHeaderSize_def m)
  let ?l = "of_nat (length (ps_buf p)) :: u32"
  have lt: "length (ps_buf p) < length d + 5"
    using arg_cong [OF assms(2), of length] assms(3)
    by (simp add: length_frame PacketHeaderSize_def m)
  then have l: "unat ?l = length (ps_buf p)" using d by (intro unat_len) simp
  show ?thesis
  proof (cases "length (ps_buf p) < 5")
    case True
    with l have "?l < 5" by (simp add: word_less_nat_alt)
    then show ?thesis by (simp add: Next_def Let_def PacketHeaderSize_def)
  next
    case False
    then have "take 4 (ps_buf p) = PutUint32 (of_nat (length d))"
      using arg_cong [OF assms(2), of "take 4"] by (simp add: frame_def m)
    with False have hdr: "go_slice (ps_buf p) 0 4 = Some (PutUint32 (of_nat (length d)))"
      by (simp add: go_slice_Some)
    have "\<not> ?l < 5" "?l < of_nat (length d) + 5"
      using l lt unat_msgLen [OF d] False by (auto simp: word_less_nat_alt)
    with hdr show ?thesis by (simp add: Next_def Let_def PacketHeaderSize_def)
  qed
qed

lemma Next_empty: "ps_buf p = [] \<Longrightarrow> Next p = Some ((0, [], False), p)"
  by (simp add: Next_def PacketHeaderSize_def)

section \<open>The splitter provides the receiver interface\<close>

definition Next_msg :: "PacketSplitter \<Rightarrow> ((u32 \<times> bytes) option \<times> PacketSplitter) option" where
  "Next_msg p = map_option (\<lambda>((i, d, ok), p). (if ok then Some (i, d) else None, p)) (Next p)"

lemma Next_msg_more: "Next_msg p = Some (Some m, p') \<Longrightarrow> Next p = Some ((fst m, snd m, True), p')"
  by (auto simp: Next_msg_def split: if_splits)

lemma Next_msg_stop: "Next_msg p = Some (None, p') \<Longrightarrow> \<exists>i d. Next p = Some ((i, d, False), p')"
  unfolding Next_msg_def by (cases "Next p") (auto split: if_splits)

interpretation pk: frame_receiver frame msg_fits "2 ^ 32" ps_buf Append Next_msg OnData_loop
proof unfold_locales
  fix m and p :: PacketSplitter and d r and h :: "u32 \<times> bytes \<Rightarrow> 's \<Rightarrow> 's option" and p' s
  show "ps_buf (Append d p) = ps_buf p @ d" by (simp add: Append_def)
  show "\<exists>p'. Next_msg p = Some (Some m, p') \<and> ps_buf p' = r"
    if "msg_fits m" "ps_buf p = frame m @ r" "length (ps_buf p) < 2 ^ 32"
    using Next_frame [OF that] by (simp add: Next_msg_def)
  show "\<exists>p'. Next_msg p = Some (None, p') \<and> ps_buf p' = ps_buf p"
    if "msg_fits m" "frame m = ps_buf p @ r" "r \<noteq> []" "length (ps_buf p) < 2 ^ 32"
    using Next_partial [OF that(1-3)] by (simp add: Next_msg_def)
  show "\<exists>p'. Next_msg p = Some (None, p') \<and> ps_buf p' = []" if "ps_buf p = []"
    using Next_empty [OF that] that by (simp add: Next_msg_def)
  show "OnData_loop h p s = Option.bind (h m s) (OnData_loop h p')" if "Next_msg p = Some (Some m, p')"
    using Next_msg_more [OF that] by (subst OnData_loop.simps) simp
  show "OnData_loop h p s = Some (p', s)" if "Next_msg p = Some (None, p')"
    using Next_msg_stop [OF that] by (subst OnData_loop.simps) auto
qed

lemma OnData_feed: "OnData h = (\<lambda>d p. OnData_loop h (Append d p))"
  by (simp add: OnData_def fun_eq_iff)


text \<open>A list of packets that were all packed without an error.\<close>

lemma PackMessage_all_fit:
  "map (\<lambda>(i, d). PackMessage i d) ms = map Inr pkts \<Longrightarrow> \<forall>m \<in> set ms. fst m \<le> MaxMsgId"
proof (induction ms arbitrary: pkts)
  case (Cons m ms)
  then show ?case
    by (cases m; cases pkts) (auto simp: PackMessage_def not_less split: if_splits)
qed simp

lemma PackMessage_all_frames:
  "map (\<lambda>(i, d). PackMessage i d) ms = map Inr pkts \<Longrightarrow> pkts = map frame ms"
proof (induction ms arbitrary: pkts)
  case (Cons m ms)
  then show ?case
    by (cases m; cases pkts) (auto simp: PackMessage_def frame_def Let_def split: if_splits)
qed simp

section \<open>Hostile headers\<close>

lemma unat_add_wrap:
  fixes a b :: u32
  shows "unat (a + b) = (unat a + unat b) mod 2 ^ 32"
  by (simp add: unat_word_ariths)

text \<open>\<open>dataLen + 5\<close> wraps around exactly for the five largest lengths.\<close>

lemma msgLen_wraps_iff: "unat (v + 5 :: u32) < 5 \<longleftrightarrow> 0xFFFFFFFB \<le> v"
proof -
  have "unat v < 2 ^ 32" using unsigned_less [of v] by simp
  moreover have "unat (v + 5) = (unat v + 5) mod 2 ^ 32" by (simp add: unat_add_wrap)
  ultimately show ?thesis
    by (cases "unat v + 5 < 2 ^ 32") (auto simp: word_le_nat_alt le_mod_geq)
qed

section \<open>Main theorems\<close>

text \<open>
  C5. Framing survives TCP: the frames \<open>PackMessage\<close> produced for the messages \<open>ms\<close>, sent one
  after the other and received as any chunks \<open>cs\<close> whatever (several frames in one chunk, a frame
  spread over many), make the on-data callback call \<open>onMessage\<close> on exactly the messages \<open>ms\<close>, in
  order, and leave the splitter empty. Chunks and payloads are bounded so that a buffered frame
  plus one chunk stays below $2^{32}$ bytes (the receiver reads chunks of at most 4096 bytes).
\<close>

theorem framing_roundtrip:
  assumes "map (\<lambda>(i, d). PackMessage i d) ms = map Inr pkts"
    and "\<forall>(i, d) \<in> set ms. length d \<le> bound" and "\<forall>c \<in> set cs. length c \<le> chunk"
    and "bound + PacketHeaderSize + chunk < 2 ^ 32" and "concat cs = concat pkts"
  shows "feed (OnData onMessage) cs ps_empty s = map_option (Pair ps_empty) (handle_all onMessage ms s)"
proof -
  have "\<forall>m \<in> set ms. msg_fits m \<and> length (frame m) \<le> bound + PacketHeaderSize"
    using PackMessage_all_fit [OF assms(1)] assms(2,4) by (auto simp: msg_fits_def length_frame)
  moreover have "concat cs = concat (map frame ms)"
    using assms(5) PackMessage_all_frames [OF assms(1)] by simp
  ultimately obtain p' where "ps_buf p' = []" "feed (OnData onMessage) cs ps_empty s =
      map_option (Pair p') (handle_all onMessage ms s)"
    using pk.feed_all [of ms "bound + PacketHeaderSize" cs chunk ps_empty onMessage s] assms(3,4)
    by (auto simp: OnData_feed ps_empty_def frame_def)
  moreover from this(1) have "p' = ps_empty" by (cases p') (simp add: ps_empty_def)
  ultimately show ?thesis by simp
qed

theorem framing_roundtrip_witness:
  "feed (OnData (\<lambda>m log. Some (log @ [m]))) [[0, 0, 0], [2, 1, 104], [105, 0, 0, 0, 0, 11]] ps_empty [] =
     Some (ps_empty, [(1, [104, 105]), (11, [])])"
  using framing_roundtrip [of "[(1, [104, 105]), (11, [])]" "[[0, 0, 0, 2, 1, 104, 105], [0, 0, 0, 0, 11]]"
    2 "[[0, 0, 0], [2, 1, 104], [105, 0, 0, 0, 0, 11]]" 6 "\<lambda>m log. Some (log @ [m])" "[]"]
  by (simp add: PackMessage_def MaxMsgId_def PutUint32_def PacketHeaderSize_def)

text \<open>
  At every moment exactly the frames that have arrived completely have been handled: when the
  chunks \<open>cs\<close> are only a part of the stream and \<open>rest\<close> is still to come, the messages split into
  \<open>done\<close> and \<open>left\<close>, \<open>onMessage\<close> has run on \<open>done\<close>, and the splitter holds a proper prefix of the
  first frame of \<open>left\<close>.
\<close>

theorem framing_prefix:
  assumes "map (\<lambda>(i, d). PackMessage i d) ms = map Inr pkts"
    and "\<forall>(i, d) \<in> set ms. length d \<le> bound" and "\<forall>c \<in> set cs. length c \<le> chunk"
    and "bound + PacketHeaderSize + chunk < 2 ^ 32" and "concat cs @ rest = concat pkts"
  shows "\<exists>done left b. ms = done @ left \<and> b @ rest = concat (map frame left) \<and>
    (case left of [] \<Rightarrow> b = [] | m # _ \<Rightarrow> length b < length (frame m)) \<and>
    feed (OnData onMessage) cs ps_empty s =
      map_option (Pair \<lparr>ps_buf = b\<rparr>) (handle_all onMessage done s)"
proof -
  have fits: "\<forall>m \<in> set ms. msg_fits m \<and> length (frame m) \<le> bound + PacketHeaderSize"
    using PackMessage_all_fit [OF assms(1)] assms(2,4) by (auto simp: msg_fits_def length_frame)
  have "pk.short ms ps_empty"
    by (cases ms) (auto simp: pk.short_def ps_empty_def length_frame PacketHeaderSize_def)
  moreover have "ps_buf ps_empty @ concat cs @ rest = concat (map frame ms)"
    using assms(5) PackMessage_all_frames [OF assms(1)] by (simp add: ps_empty_def)
  ultimately obtain dn lft p' where *: "ms = dn @ lft" "ps_buf p' @ rest = concat (map frame lft)"
      "pk.short lft p'" "feed (OnData onMessage) cs ps_empty s = map_option (Pair p') (handle_all onMessage dn s)"
    using pk.feed_frames [OF fits assms(3), of ps_empty rest onMessage] assms(4)
    by (auto simp: OnData_feed)
  moreover obtain b where "p' = \<lparr>ps_buf = b\<rparr>" by (cases p')
  ultimately have "ms = dn @ lft \<and> b @ rest = concat (map frame lft) \<and>
      (case lft of [] \<Rightarrow> b = [] | m # _ \<Rightarrow> length b < length (frame m)) \<and>
      feed (OnData onMessage) cs ps_empty s =
        map_option (Pair \<lparr>ps_buf = b\<rparr>) (handle_all onMessage dn s)"
    by (cases lft) (simp_all add: pk.short_def)
  then show ?thesis by blast
qed

theorem framing_prefix_witness:
  "\<exists>done left b. [(1, [104, 105]), (11, [])] = done @ left \<and> b @ [0, 11] = concat (map frame left) \<and>
    (case left of [] \<Rightarrow> b = [] | m # _ \<Rightarrow> length b < length (frame m)) \<and>
    feed (OnData (\<lambda>m log. Some (log @ [m]))) [[0, 0, 0, 2, 1, 104, 105, 0, 0, 0]] ps_empty [] =
      map_option (Pair \<lparr>ps_buf = b\<rparr>) (handle_all (\<lambda>m log. Some (log @ [m])) done [])"
  using framing_prefix [of "[(1, [104, 105]), (11, [])]" "[[0, 0, 0, 2, 1, 104, 105], [0, 0, 0, 0, 11]]"
    2 "[[0, 0, 0, 2, 1, 104, 105, 0, 0, 0]]" 10 "[0, 11]" "\<lambda>m log. Some (log @ [m])" "[]"]
  by (simp add: PackMessage_def MaxMsgId_def PutUint32_def PacketHeaderSize_def)

text \<open>
  C7. \<open>Next\<close> panics on exactly the headers whose length field is one of the five largest 32-bit
  values: there \<open>dataLen + PacketHeaderSize\<close> wraps around, the check for missing bytes passes, and
  the payload slice has its bounds the wrong way round. Five bytes from any peer suffice.
\<close>

theorem Next_panics_iff:
  assumes "length (ps_buf p) < 2 ^ 32"
  shows "Next p = None \<longleftrightarrow>
    (\<exists>v. Uint32 (take 4 (ps_buf p)) = Some v \<and> PacketHeaderSize \<le> length (ps_buf p) \<and> 0xFFFFFFFB \<le> v)"
proof (cases "length (ps_buf p) < 5")
  case True
  then have "(of_nat (length (ps_buf p)) :: u32) < 5"
    using unat_len [OF assms] by (simp add: word_less_nat_alt)
  with True show ?thesis by (simp add: Next_def Let_def PacketHeaderSize_def)
next
  case False
  let ?l = "of_nat (length (ps_buf p)) :: u32"
  have l: "unat ?l = length (ps_buf p)" by (rule unat_len [OF assms])
  obtain v where v: "Uint32 (take 4 (ps_buf p)) = Some v"
    using Uint32_None_iff [of "take 4 (ps_buf p)"] False by (cases "Uint32 (take 4 (ps_buf p))") auto
  have "\<not> ?l < 5" using l False by (simp add: word_less_nat_alt)
  with False v have "Next p = (if ?l < v + 5 then Some ((0, [], False), p) else do {
      msgId \<leftarrow> go_index (ps_buf p) 4;
      payload \<leftarrow> go_slice (ps_buf p) 5 (unat (v + 5));
      rest \<leftarrow> go_slice (ps_buf p) (unat (v + 5)) (length (ps_buf p));
      Some ((ucast msgId, payload, True), p\<lparr>ps_buf := rest\<rparr>) })"
    by (simp add: Next_def Let_def PacketHeaderSize_def go_slice_Some)
  also have "\<dots> = None \<longleftrightarrow> unat (v + 5) < 5"
    using l False by (auto simp: word_less_nat_alt go_defs Let_def)
  finally show ?thesis using v False msgLen_wraps_iff by (simp add: PacketHeaderSize_def)
qed

theorem Next_panics_iff_witness:
  "Next \<lparr>ps_buf = [255, 255, 255, 255, 1]\<rparr> = None"
  using Next_panics_iff [of "\<lparr>ps_buf = [255, 255, 255, 255, 1]\<rparr>"]
  by (simp add: Uint32_def PacketHeaderSize_def)

end
