(* ===== verification/Conn.thy ===== *)
theory Conn
  imports Ring_Queue
begin

text \<open>
  One socket connection (\<open>engine/net/connect/socket/conn.go\<close>): the operations \<open>SendData\<close> and
  \<open>Disconnect\<close> that any goroutine may call, and the two goroutines \<open>senderRun\<close> and \<open>receiverRun\<close>,
  as a step relation. What the network does (how much of a write succeeds, what a read returns) is
  the environment's choice.
\<close>

section \<open>State\<close>

text \<open>
  The state of the sender: at \<open>Dequeue\<close>, writing the rest of a packet, or returned; of the receiver:
  at \<open>Read\<close>, about to check \<open>IsClose\<close> after an error, about to call \<open>Disconnect\<close>, about to call
  \<open>onDisconnectFunc\<close>, or returned. \<open>Read\<close> results are handed to \<open>onDataFunc\<close> within one step.
\<close>

datatype sender = SDequeue | SWrite bytes | SReturned
datatype receiver_state = RRead | RCheckClose | RDisconnect | RCallback | RReturned

record ConnSocket =
  cs_q :: "bytes Queue"
  cs_sender :: sender
  cs_receiver :: receiver_state
  cs_closed :: bool  \<comment> \<open>\<open>conn.Close()\<close> was called\<close>
  cs_accepted :: "bytes list"  \<comment> \<open>history: the packets for which \<open>SendData\<close> returned \<open>nil\<close>\<close>
  cs_written :: bytes  \<comment> \<open>history: the bytes handed to the network\<close>
  cs_write_failed :: bool  \<comment> \<open>history: \<open>Write\<close> returned an error\<close>
  cs_read :: "bytes list"  \<comment> \<open>history: the chunks passed to \<open>onDataFunc\<close>\<close>
  cs_callbacks :: nat  \<comment> \<open>history: calls of \<open>onDisconnectFunc\<close>\<close>

text \<open>\<open>newConn\<close> makes the queue with a base size of 32; then the two goroutines are started.\<close>

definition newConn :: "ConnSocket option" where
  "newConn = do {
     q \<leftarrow> queue_NewQueue [] 32;
     Some \<lparr>cs_q = q, cs_sender = SDequeue, cs_receiver = RRead, cs_closed = False, cs_accepted = [],
           cs_written = [], cs_write_failed = False, cs_read = [], cs_callbacks = 0\<rparr> }"

section \<open>Operations\<close>

definition Conn_Disconnect :: "ConnSocket \<Rightarrow> (go_error \<times> ConnSocket) option" where
  "Conn_Disconnect c = do {
     (err, q) \<leftarrow> QQueue_Close (cs_q c);
     Some (err, c\<lparr>cs_q := q\<rparr>) }"

definition SendData :: "bytes \<Rightarrow> ConnSocket \<Rightarrow> (go_error \<times> ConnSocket) option" where
  "SendData data c = do {
     (err, q) \<leftarrow> QQueue_Enqueue data (cs_q c);
     Some (err, c\<lparr>cs_q := q, cs_accepted := cs_accepted c @ (if err = None then [data] else [])\<rparr>) }"

text \<open>Back to the top of the sender's loop once the packet is written (\<open>for len(msg) > 0\<close>).\<close>

definition sender_writes :: "bytes \<Rightarrow> sender" where
  "sender_writes msg = (if 0 < length msg then SWrite msg else SDequeue)"

section \<open>The goroutines\<close>

text \<open>
  The sender takes a packet or ends. \<open>Write\<close> takes \<open>n\<close> bytes, at most all; with an error the
  sender returns, whatever was written.
\<close>

inductive sender_step :: "ConnSocket \<Rightarrow> ConnSocket \<Rightarrow> bool" where
  dequeue: "cs_sender c = SDequeue \<Longrightarrow> QQueue_Dequeue (cs_q c) = Some (Done (data, True), q) \<Longrightarrow>
    sender_step c (c\<lparr>cs_q := q, cs_sender := sender_writes data\<rparr>)"
| dequeue_end: "cs_sender c = SDequeue \<Longrightarrow> QQueue_Dequeue (cs_q c) = Some (Done (data, False), q) \<Longrightarrow>
    sender_step c (c\<lparr>cs_q := q, cs_closed := True, cs_sender := SReturned\<rparr>)"
| write_some: "cs_sender c = SWrite msg \<Longrightarrow> n \<le> length msg \<Longrightarrow>
    sender_step c (c\<lparr>cs_written := cs_written c @ take n msg, cs_sender := sender_writes (drop n msg)\<rparr>)"
| write_error: "cs_sender c = SWrite msg \<Longrightarrow> n \<le> length msg \<Longrightarrow>
    sender_step c (c\<lparr>cs_written := cs_written c @ take n msg, cs_write_failed := True, cs_sender := SReturned\<rparr>)"

text \<open>
  The receiver: \<open>Read\<close> fails, or returns a chunk which \<open>onDataFunc\<close> accepts (\<open>ok\<close>) or refuses with
  an error.
\<close>

inductive receiver_step :: "ConnSocket \<Rightarrow> ConnSocket \<Rightarrow> bool" where
  read: "cs_receiver c = RRead \<Longrightarrow>
    receiver_step c (c\<lparr>cs_read := cs_read c @ [chunk], cs_receiver := (if ok then RRead else RCheckClose)\<rparr>)"
| read_error: "cs_receiver c = RRead \<Longrightarrow> receiver_step c (c\<lparr>cs_receiver := RCheckClose\<rparr>)"
| check: "cs_receiver c = RCheckClose \<Longrightarrow>
    receiver_step c (c\<lparr>cs_receiver := (if \<not> QQueue_IsClose (cs_q c) then RDisconnect else RReturned)\<rparr>)"
| disconnect: "cs_receiver c = RDisconnect \<Longrightarrow> Conn_Disconnect c = Some (err, c') \<Longrightarrow>
    receiver_step c (c'\<lparr>cs_receiver := RCallback\<rparr>)"
| callback: "cs_receiver c = RCallback \<Longrightarrow>
    receiver_step c (c\<lparr>cs_callbacks := cs_callbacks c + 1, cs_receiver := RReturned\<rparr>)"

text \<open>One step of the connection: a goroutine's, or a call from outside.\<close>

inductive conn_step :: "ConnSocket \<Rightarrow> ConnSocket \<Rightarrow> bool" where
  sender: "sender_step c c' \<Longrightarrow> conn_step c c'"
| receiver: "receiver_step c c' \<Longrightarrow> conn_step c c'"
| send: "SendData data c = Some (err, c') \<Longrightarrow> conn_step c c'"
| local_disconnect: "Conn_Disconnect c = Some (err, c') \<Longrightarrow> conn_step c c'"

inductive conn_reachable :: "ConnSocket \<Rightarrow> bool" where
  new: "newConn = Some c \<Longrightarrow> conn_reachable c"
| step: "conn_reachable c \<Longrightarrow> conn_step c c' \<Longrightarrow> conn_reachable c'"

inductive_cases conn_stepE: "conn_step c c'"
inductive_cases sender_stepE: "sender_step c c'"
inductive_cases receiver_stepE: "receiver_step c c'"

section \<open>Invariant\<close>

text \<open>The bytes taken from the queue and not yet written.\<close>

fun in_flight :: "sender \<Rightarrow> bytes" where
  "in_flight (SWrite msg) = msg"
| "in_flight _ = []"

fun receiver_ok :: "receiver_state \<Rightarrow> bool \<Rightarrow> nat \<Rightarrow> bool" where
  "receiver_ok RCallback queue_closed callbacks \<longleftrightarrow> queue_closed \<and> callbacks = 0"
| "receiver_ok RReturned queue_closed callbacks \<longleftrightarrow> queue_closed \<and> callbacks \<le> 1"
| "receiver_ok _ queue_closed callbacks \<longleftrightarrow> callbacks = 0"

lemma receiver_ok_close: "receiver_ok r b n \<Longrightarrow> receiver_ok r True n"
  by (cases r) auto

definition conn_inv :: "ConnSocket \<Rightarrow> bool" where
  "conn_inv c \<longleftrightarrow> q_inv (cs_q c) \<and>
     (\<not> cs_write_failed c \<longrightarrow>
        concat (cs_accepted c) = cs_written c @ in_flight (cs_sender c) @ concat (q_list (cs_q c))) \<and>
     (\<exists>rest. concat (cs_accepted c) = cs_written c @ rest) \<and>
     (cs_write_failed c \<longrightarrow> cs_sender c = SReturned \<and> \<not> cs_closed c) \<and>
     (\<not> cs_write_failed c \<longrightarrow> (cs_sender c = SReturned \<longleftrightarrow> cs_closed c)) \<and>
     (cs_closed c \<longrightarrow> QQueue_IsClose (cs_q c) \<and> q_list (cs_q c) = []) \<and>
     receiver_ok (cs_receiver c) (QQueue_IsClose (cs_q c)) (cs_callbacks c)"

lemma conn_inv_q: "conn_inv c \<Longrightarrow> q_inv (cs_q c)"
  by (simp add: conn_inv_def)

lemma newConn_inv: "newConn = Some c \<Longrightarrow> conn_inv c"
  by (auto dest!: NewQueue_spec simp: newConn_def QQueue_IsClose_def Queue_IsClosed_def queue_NewQueue_def QQueue_Init_def conn_inv_def)

lemma newConn_returns: "\<exists>c. newConn = Some c"
  using NewQueue_returns [of 32 "[]"] by (auto simp: newConn_def queue_NewQueue_def QQueue_Init_def)

text \<open>A new connection is open and idle.\<close>

lemma newConn_fresh:
  assumes "newConn = Some c"
  shows "q_inv (cs_q c)" and "\<not> QQueue_IsClose (cs_q c)" and "cs_receiver c = RRead" and "cs_accepted c = []" and "cs_read c = []"
  using conn_inv_q [OF newConn_inv [OF assms]] assms
  by (auto simp: newConn_def queue_NewQueue_def QQueue_Init_def NewQueue_def QQueue_IsClose_def Queue_IsClosed_def)

lemma SendData_open:
  assumes "q_inv (cs_q c)" and "\<not> QQueue_IsClose (cs_q c)"
  shows "\<exists>c'. SendData data c = Some (None, c') \<and> cs_receiver c' = cs_receiver c \<and> cs_read c' = cs_read c"
proof -
  obtain q where "QQueue_Enqueue data (cs_q c) = Some (None, q)" using qq.enqueue_open [OF assms] by blast
  then show ?thesis by (simp add: SendData_def)
qed

lemma in_flight_writes [simp]: "in_flight (sender_writes msg) = msg"
  by (simp add: sender_writes_def)

lemma sender_writes_running [simp]: "sender_writes msg \<noteq> SReturned"
  by (simp add: sender_writes_def)

lemma SendData_returned:
  assumes "q_inv (cs_q c)" and "SendData data c = Some (err, c')"
  shows "\<exists>q. c' = c\<lparr>cs_q := q, cs_accepted := cs_accepted c @ (if err = None then [data] else [])\<rparr> \<and>
    q_inv q \<and> QQueue_IsClose q = QQueue_IsClose (cs_q c) \<and> (err = None \<longleftrightarrow> \<not> QQueue_IsClose (cs_q c)) \<and>
    q_list q = (if QQueue_IsClose (cs_q c) then q_list (cs_q c) else q_list (cs_q c) @ [data])"
  using assms qq.enqueue_returned [OF assms(1)] by (auto simp: SendData_def)

lemma Conn_Disconnect_returned:
  assumes "q_inv (cs_q c)" and "Conn_Disconnect c = Some (err, c')"
  shows "\<exists>q. c' = c\<lparr>cs_q := q\<rparr> \<and> q_inv q \<and> QQueue_IsClose q \<and> q_list q = q_list (cs_q c) \<and> err = None"
  using assms qq.close_returned [OF assms(1)] by (auto simp: Conn_Disconnect_def)

lemma sender_step_inv:
  assumes "sender_step c c'" and "conn_inv c"
  shows "conn_inv c'"
  using assms
proof cases
  case (dequeue data q)
  with assms(2) qq.dequeue_element [of "cs_q c" data q] show ?thesis
    by (auto simp: conn_inv_def)
next
  case (dequeue_end data q)
  with assms(2) qq.dequeue_end [of "cs_q c" data q] show ?thesis
    by (auto simp: conn_inv_def intro: receiver_ok_close)
next
  case (write_some msg n)
  have "msg @ r = take n msg @ drop n msg @ r" for r by simp
  then have "\<exists>rest. msg @ r = take n msg @ rest" for r by blast
  from this [of "[]"] this write_some assms(2) show ?thesis by (auto simp: conn_inv_def)
next
  case (write_error msg n)
  have "msg @ r = take n msg @ drop n msg @ r" for r by simp
  with write_error assms(2) show ?thesis by (auto simp: conn_inv_def)
qed

lemma receiver_step_inv:
  assumes "receiver_step c c'" and "conn_inv c"
  shows "conn_inv c'"
  using assms
proof cases
  case (disconnect err d)
  with assms(2) Conn_Disconnect_returned [of c err d] show ?thesis by (auto simp: conn_inv_def)
qed (auto simp: conn_inv_def)

lemma conn_step_inv:
  assumes "conn_step c c'" and "conn_inv c"
  shows "conn_inv c'"
  using assms
proof cases
  case (send data err)
  with assms(2) SendData_returned [of c data err c'] show ?thesis
    by (auto simp: conn_inv_def intro: receiver_ok_close)
next
  case (local_disconnect err)
  with assms(2) Conn_Disconnect_returned [of c err c'] show ?thesis
    by (auto simp: conn_inv_def intro: receiver_ok_close)
qed (auto intro: sender_step_inv receiver_step_inv)

lemma conn_reachable_inv: "conn_reachable c \<Longrightarrow> conn_inv c"
  by (induction rule: conn_reachable.induct) (auto intro: newConn_inv conn_step_inv)

section \<open>Main theorems\<close>

text \<open>
  C17. The sender writes the accepted packets in order and without a gap: what was written, the
  rest of the packet being written and the queue together are the packets \<open>SendData\<close> accepted.
  After a write error what was written is still a prefix of them. When the sender closes the
  socket, every accepted packet has been written completely: \<open>Disconnect\<close> flushes.
\<close>

theorem conn_writes_in_order:
  assumes "conn_reachable c"
  shows "(\<not> cs_write_failed c \<longrightarrow>
      concat (cs_accepted c) = cs_written c @ in_flight (cs_sender c) @ concat (q_list (cs_q c))) \<and>
    (\<exists>rest. concat (cs_accepted c) = cs_written c @ rest) \<and>
    (cs_closed c \<longrightarrow> cs_written c = concat (cs_accepted c))"
  using conn_reachable_inv [OF assms] by (cases "cs_sender c") (auto simp: conn_inv_def)

text \<open>A run for the witnesses: a packet is sent, written, and the connection closed.\<close>

lemma demo_sent:
  "\<exists>c. conn_reachable c \<and> cs_sender c = SWrite [1, 2, 3] \<and> cs_receiver c = RRead \<and>
     cs_accepted c = [[1, 2, 3]] \<and> cs_written c = [] \<and> \<not> QQueue_IsClose (cs_q c) \<and> q_list (cs_q c) = []"
proof -
  obtain q :: "bytes Queue" where q: "NewQueue [] 32 = Some q" "q_inv q" "q_list q = []" "\<not> QQueue_IsClose q"
    using NewQueue_returns [of 32 "[] :: bytes"] by (auto dest: NewQueue_spec simp: QQueue_IsClose_def Queue_IsClosed_def)
  obtain q1 where q1: "QQueue_Enqueue [1, 2, 3] q = Some (None, q1)" "q_inv q1" "q_list q1 = [[1, 2, 3]]" "\<not> QQueue_IsClose q1"
    using qq.enqueue_open [of q "[1, 2, 3]"] q by auto
  obtain q2 where q2: "QQueue_Dequeue q1 = Some (Done ([1, 2, 3], True), q2)" "q_list q2 = []" "\<not> QQueue_IsClose q2"
    using qq.dequeue_some [of q1 "[1, 2, 3]" "[]"] q1 by auto
  let ?c = "\<lparr>cs_q = q, cs_sender = SDequeue, cs_receiver = RRead, cs_closed = False, cs_accepted = [],
    cs_written = [], cs_write_failed = False, cs_read = [], cs_callbacks = 0\<rparr>"
  have "conn_reachable ?c"
    by (rule conn_reachable.new) (simp add: newConn_def queue_NewQueue_def QQueue_Init_def q)
  then have "conn_reachable (?c\<lparr>cs_q := q1, cs_accepted := [[1, 2, 3]]\<rparr>)"
    by (rule conn_reachable.step) (rule conn_step.send [of "[1, 2, 3]" _ None], simp add: SendData_def q1)
  then have "conn_reachable (?c\<lparr>cs_q := q1, cs_accepted := [[1, 2, 3]], cs_q := q2, cs_sender := sender_writes [1, 2, 3]\<rparr>)"
    by (rule conn_reachable.step) (rule conn_step.sender, rule sender_step.dequeue, simp_all add: q2)
  with q2 show ?thesis
    by (intro exI [of _ "?c\<lparr>cs_q := q1, cs_accepted := [[1, 2, 3]], cs_q := q2, cs_sender := sender_writes [1, 2, 3]\<rparr>"])
      (auto simp: sender_writes_def)
qed

lemma demo_closed: "\<exists>c. conn_reachable c \<and> cs_closed c \<and> cs_accepted c = [[1, 2, 3]]"
proof -
  obtain c where c: "conn_reachable c" "cs_sender c = SWrite [1, 2, 3]" "cs_accepted c = [[1, 2, 3]]"
      "q_list (cs_q c) = []"
    using demo_sent by blast
  have q: "q_inv (cs_q c)" using conn_reachable_inv [OF c(1)] by (simp add: conn_inv_def)
  let ?d = "c\<lparr>cs_written := cs_written c @ take 3 [1, 2, 3], cs_sender := sender_writes (drop 3 [1, 2, 3])\<rparr>"
  have d: "conn_reachable ?d"
    by (rule conn_reachable.step [OF c(1)], rule conn_step.sender, rule sender_step.write_some) (simp_all add: c)
  obtain q1 where q1: "QQueue_Close (cs_q c) = Some (None, q1)" "q_inv q1" "q_list q1 = []" "QQueue_IsClose q1"
    using qq.close_closes [OF q] c(4) by auto
  have e: "conn_reachable (?d\<lparr>cs_q := q1\<rparr>)"
    by (rule conn_reachable.step [OF d], rule conn_step.local_disconnect [of _ None])
      (simp add: Conn_Disconnect_def q1)
  obtain z where "QQueue_Dequeue q1 = Some (Done (z, False), q1)"
    using qq.dequeue_closed [OF q1(2-4)] by auto
  then have "conn_reachable (?d\<lparr>cs_q := q1, cs_q := q1, cs_closed := True, cs_sender := SReturned\<rparr>)"
    by (intro conn_reachable.step [OF e] conn_step.sender sender_step.dequeue_end) (simp_all add: sender_writes_def)
  with c(3) show ?thesis
    by (intro exI [of _ "?d\<lparr>cs_q := q1, cs_q := q1, cs_closed := True, cs_sender := SReturned\<rparr>"]) auto
qed

theorem conn_writes_in_order_witness:
  "\<exists>c. conn_reachable c \<and> cs_closed c \<and> cs_written c = [1, 2, 3]"
proof -
  obtain c where "conn_reachable c" "cs_closed c" "cs_accepted c = [[1, 2, 3]]" using demo_closed by blast
  with conn_writes_in_order [of c] show ?thesis by auto
qed

text \<open>A closed connection whose receiver has not passed its check stays so, and the callback is not called.\<close>

definition silent :: "ConnSocket \<Rightarrow> bool" where
  "silent c \<longleftrightarrow> QQueue_IsClose (cs_q c) \<and> cs_receiver c \<in> {RRead, RCheckClose, RReturned}"

lemma conn_steps_inv: "conn_step\<^sup>*\<^sup>* c c' \<Longrightarrow> conn_inv c \<Longrightarrow> conn_inv c'"
  by (induction rule: rtranclp_induct) (auto intro: conn_step_inv)

lemma closed_stays:
  assumes "conn_step\<^sup>*\<^sup>* c c'" and "conn_inv c" and "QQueue_IsClose (cs_q c)"
  shows "QQueue_IsClose (cs_q c')"
  using assms
proof (induction rule: rtranclp_induct)
  case (step y z)
  then have y: "conn_inv y" "q_inv (cs_q y)" by (blast intro: conn_inv_q conn_steps_inv)+
  with step show ?case
    by (auto elim!: conn_stepE sender_stepE receiver_stepE
        dest: qq.dequeue_element qq.dequeue_end SendData_returned Conn_Disconnect_returned)
qed

lemma silent_stays:
  assumes "conn_step\<^sup>*\<^sup>* c c'" and "conn_inv c" and "silent c"
  shows "silent c' \<and> cs_callbacks c' = cs_callbacks c"
  using assms
proof (induction rule: rtranclp_induct)
  case (step y z)
  then have y: "conn_inv y" "q_inv (cs_q y)" by (blast intro: conn_inv_q conn_steps_inv)+
  have "QQueue_IsClose (cs_q z)"
    using step y closed_stays [of y z] by (auto simp: silent_def)
  with step y show ?case
    by (auto simp: silent_def elim!: conn_stepE sender_stepE receiver_stepE
        dest: SendData_returned Conn_Disconnect_returned)
qed auto

text \<open>From \<open>Disconnect\<close> on, and before it while the queue is open, the receiver can go on to the callback.\<close>

lemma callback_ahead:
  assumes "conn_inv c" and "cs_receiver c \<in> {RDisconnect, RCallback} \<or> cs_receiver c \<in> {RRead, RCheckClose} \<and> \<not> QQueue_IsClose (cs_q c)"
  shows "\<exists>c'. conn_step\<^sup>*\<^sup>* c c' \<and> cs_callbacks c < cs_callbacks c'"
proof -
  have callback: "\<exists>c'. conn_step\<^sup>*\<^sup>* c c' \<and> cs_callbacks c < cs_callbacks c'" if "cs_receiver c = RCallback" for c
    using conn_step.receiver [OF receiver_step.callback [OF that]]
    by (intro exI [of _ "c\<lparr>cs_callbacks := cs_callbacks c + 1, cs_receiver := RReturned\<rparr>"]) auto
  have disconnect: "\<exists>c'. conn_step\<^sup>*\<^sup>* c c' \<and> cs_callbacks c < cs_callbacks c'"
    if r: "cs_receiver c = RDisconnect" and q: "q_inv (cs_q c)" for c
  proof -
    obtain q where "Conn_Disconnect c = Some (None, c\<lparr>cs_q := q\<rparr>)"
      using qq.close_closes [OF q] by (auto simp: Conn_Disconnect_def)
    from conn_step.receiver [OF receiver_step.disconnect [OF r this]]
      callback [of "c\<lparr>cs_q := q, cs_receiver := RCallback\<rparr>"]
    show ?thesis by (auto intro: converse_rtranclp_into_rtranclp)
  qed
  have check: "\<exists>c'. conn_step\<^sup>*\<^sup>* c c' \<and> cs_callbacks c < cs_callbacks c'"
    if "cs_receiver c = RCheckClose" and "\<not> QQueue_IsClose (cs_q c)" and "q_inv (cs_q c)" for c
    using conn_step.receiver [OF receiver_step.check [OF that(1)]] that(2,3) disconnect [of "c\<lparr>cs_receiver := RDisconnect\<rparr>"]
    by (auto intro: converse_rtranclp_into_rtranclp)
  have q: "q_inv (cs_q c)" using assms(1) by (rule conn_inv_q)
  have "\<exists>c'. conn_step\<^sup>*\<^sup>* c c' \<and> cs_callbacks c < cs_callbacks c'"
    if "cs_receiver c = RRead" and "\<not> QQueue_IsClose (cs_q c)"
    using conn_step.receiver [OF receiver_step.read_error [OF that(1)]] that(2) q check [of "c\<lparr>cs_receiver := RCheckClose\<rparr>"]
    by (auto intro: converse_rtranclp_into_rtranclp)
  with assms(2) q callback disconnect check show ?thesis by blast
qed

text \<open>
  C18. \<open>onDisconnectFunc\<close> is called at most once, and when it can still be called is decided by the
  receiver's check of \<open>IsClose\<close>: never again once the queue is closed before the check, whatever
  happens, but once the check has passed it can be called, also when the local side disconnects in
  between.
\<close>

theorem onDisconnect_at_most_once:
  assumes "conn_reachable c"
  shows "cs_callbacks c \<le> 1 \<and>
    ((\<exists>c'. conn_step\<^sup>*\<^sup>* c c' \<and> cs_callbacks c < cs_callbacks c') \<longleftrightarrow>
       cs_receiver c \<in> {RDisconnect, RCallback} \<or>
       cs_receiver c \<in> {RRead, RCheckClose} \<and> \<not> QQueue_IsClose (cs_q c))"
proof -
  have inv: "conn_inv c" using assms by (rule conn_reachable_inv)
  then have "cs_callbacks c \<le> 1" by (cases "cs_receiver c") (auto simp: conn_inv_def)
  moreover have "silent c \<or> cs_receiver c \<in> {RDisconnect, RCallback} \<or>
      cs_receiver c \<in> {RRead, RCheckClose} \<and> \<not> QQueue_IsClose (cs_q c)"
    using inv by (cases "cs_receiver c") (auto simp: conn_inv_def silent_def)
  moreover have "cs_callbacks c' = cs_callbacks c" if "silent c" and "conn_step\<^sup>*\<^sup>* c c'" for c'
    using silent_stays [OF that(2) inv that(1)] by simp
  ultimately show ?thesis using callback_ahead [OF inv] by (metis less_irrefl)
qed

theorem onDisconnect_at_most_once_witness:
  "\<exists>c d. conn_reachable c \<and> QQueue_IsClose (cs_q c) \<and> \<not> (\<exists>c'. conn_step\<^sup>*\<^sup>* c c' \<and> cs_callbacks c < cs_callbacks c') \<and>
     conn_reachable d \<and> \<not> QQueue_IsClose (cs_q d) \<and> (\<exists>d'. conn_step\<^sup>*\<^sup>* d d' \<and> cs_callbacks d < cs_callbacks d')"
proof -
  obtain c where c: "conn_reachable c" "cs_receiver c = RRead" "\<not> QQueue_IsClose (cs_q c)" using demo_sent by blast
  from c(1) have q: "q_inv (cs_q c)" by (blast intro: conn_reachable_inv conn_inv_q)
  obtain q1 where q1: "QQueue_Close (cs_q c) = Some (None, q1)" "QQueue_IsClose q1"
    using qq.close_closes [OF q] by auto
  let ?d = "c\<lparr>cs_q := q1\<rparr>"
  have d: "conn_reachable ?d"
    by (rule conn_reachable.step [OF c(1)], rule conn_step.local_disconnect [of _ None])
      (simp add: Conn_Disconnect_def q1)
  have "\<not> (\<exists>c'. conn_step\<^sup>*\<^sup>* ?d c' \<and> cs_callbacks ?d < cs_callbacks c')"
    using conjunct2 [OF onDisconnect_at_most_once [OF d]] c(2) q1(2) by simp
  moreover have "\<exists>d'. conn_step\<^sup>*\<^sup>* c d' \<and> cs_callbacks c < cs_callbacks d'"
    using conjunct2 [OF onDisconnect_at_most_once [OF c(1)]] c(2,3) by simp
  ultimately show ?thesis
    by - (rule exI [of _ ?d], rule exI [of _ c], use c q1(2) d in simp)
qed

lemma failed_stays:
  assumes "conn_step\<^sup>*\<^sup>* c c'" and "conn_inv c" and "cs_write_failed c"
  shows "conn_inv c' \<and> cs_write_failed c' \<and> cs_written c' = cs_written c"
  using assms
proof (induction rule: rtranclp_induct)
  case (step y z)
  then have y: "conn_inv y" "q_inv (cs_q y)" "cs_sender y = SReturned"
    by (blast intro: conn_inv_q, blast intro: conn_inv_q, simp add: conn_inv_def)
  from step(2) y(1) have "conn_inv z" by (rule conn_step_inv)
  with step y show ?case
    by (auto elim!: conn_stepE sender_stepE receiver_stepE
        dest: SendData_returned Conn_Disconnect_returned)
qed auto

text \<open>
  C19. After a write error the connection is half dead: the sender has returned without closing the
  socket, nothing ever closes it, nothing more is written, and as long as nobody disconnects
  \<open>SendData\<close> goes on accepting packets without an error.
\<close>

theorem write_error_leaks_connection:
  assumes "conn_reachable c" and "cs_write_failed c" and "conn_step\<^sup>*\<^sup>* c c'"
  shows "\<not> cs_closed c' \<and> cs_written c' = cs_written c \<and>
    (\<not> QQueue_IsClose (cs_q c') \<longrightarrow> (\<exists>c''. SendData data c' = Some (None, c'')))"
proof -
  from failed_stays [OF assms(3) conn_reachable_inv [OF assms(1)] assms(2)]
  have "conn_inv c'" "cs_write_failed c'" "cs_written c' = cs_written c" by auto
  moreover from this(1) have "q_inv (cs_q c')" by (simp add: conn_inv_def)
  ultimately show ?thesis
    using qq.enqueue_open [of "cs_q c'" data] by (auto simp: conn_inv_def SendData_def)
qed

theorem write_error_leaks_connection_witness:
  "\<exists>c c''. conn_reachable c \<and> cs_accepted c = [[1, 2, 3]] \<and> cs_written c = [1, 2] \<and> \<not> cs_closed c \<and>
     SendData [4] c = Some (None, c'')"
proof -
  obtain c where c: "conn_reachable c" "cs_sender c = SWrite [1, 2, 3]" "cs_accepted c = [[1, 2, 3]]"
      "cs_written c = []" "\<not> QQueue_IsClose (cs_q c)" "q_list (cs_q c) = []"
    using demo_sent by blast
  let ?d = "c\<lparr>cs_written := cs_written c @ take 2 [1, 2, 3], cs_write_failed := True, cs_sender := SReturned\<rparr>"
  have "conn_reachable ?d"
    by (rule conn_reachable.step [OF c(1)], rule conn_step.sender, rule sender_step.write_error) (simp_all add: c)
  moreover from write_error_leaks_connection [OF this _ rtranclp.rtrancl_refl, of "[4]"] c
  obtain c'' where "SendData [4] ?d = Some (None, c'')" "\<not> cs_closed ?d" by auto
  moreover have "cs_written ?d = [1, 2]" "cs_accepted ?d = [[1, 2, 3]]" using c by auto
  ultimately show ?thesis by blast
qed

end
