(* ===== verification/Session.thy ===== *)
theory Session
  imports Packet Conn
begin

text \<open>
  Sessions and their manager (\<open>engine/net/session\<close>), the network client (\<open>engine/net/client\<close>) and the
  network server (\<open>engine/net/server\<close>), over a heap of connections. The session of an accepted
  connection and the client of a dialled one are stored at the address of their connection: each
  connection has exactly one of them, and the closures the code installs refer to that connection.
\<close>

section \<open>State\<close>

text \<open>
  The bind object is a pointer to a \<open>systemInfo\<close>, here the system id under which the cluster net
  keeps it. \<open>ns_conn\<close> is \<open>nil\<close> after \<open>Close\<close>; the send closure keeps its own reference.
\<close>

record netSession =
  ns_id :: u32
  ns_bindObject :: "int option"
  ns_conn :: "nat option"

record sessionMgr =
  sm_sessions :: "u32 \<rightharpoonup> nat"
  sm_genUId :: u32

record net =
  nt_conns :: "nat \<rightharpoonup> ConnSocket"
  nt_sessions :: "nat \<rightharpoonup> netSession"
  nt_clients :: "nat \<rightharpoonup> int"  \<comment> \<open>dialled connections, with the system whose \<open>clusterClient\<close> handles their events\<close>
  nt_splitters :: "nat \<Rightarrow> PacketSplitter"  \<comment> \<open>the splitter of the session or client\<close>
  nt_mgr :: sessionMgr

section \<open>Session manager\<close>

definition NewSessionMgr :: sessionMgr where
  "NewSessionMgr = \<lparr>sm_sessions = Map.empty, sm_genUId = 0\<rparr>"

definition NewSession :: "nat \<Rightarrow> sessionMgr \<Rightarrow> u32 \<times> sessionMgr" where
  "NewSession v m =
     (let i = sm_genUId m + 1
      in (i, m\<lparr>sm_genUId := i, sm_sessions := (sm_sessions m)(i \<mapsto> v)\<rparr>))"

definition RemoveSession :: "u32 \<Rightarrow> sessionMgr \<Rightarrow> sessionMgr" where
  "RemoveSession sID m = m\<lparr>sm_sessions := (sm_sessions m)(sID := None)\<rparr>"

definition GetSession :: "u32 \<Rightarrow> sessionMgr \<Rightarrow> nat option" where
  "GetSession sID m = sm_sessions m sID"

text \<open>
  \<open>TravelSession\<close> goes through the sessions until \<open>f\<close> says stop; \<open>order\<close> is the order in which Go happens
  to iterate the map, \<open>f\<close> may have effects on its own state.
\<close>

fun TravelSession :: "(nat \<Rightarrow> 's \<Rightarrow> bool \<times> 's) \<Rightarrow> nat list \<Rightarrow> 's \<Rightarrow> 's" where
  "TravelSession f [] st = st"
| "TravelSession f (v # order) st = (let (more, st) = f v st in if \<not> more then st else TravelSession f order st)"

lemma TravelSession_visits:
  "TravelSession (\<lambda>v seen. (P v, seen @ [v])) order seen = seen @ takeWhile P order @ take 1 (dropWhile P order)"
  by (induction order arbitrary: seen) auto

section \<open>Operations on a session or client\<close>

definition new_net :: net where
  "new_net = \<lparr>nt_conns = Map.empty, nt_sessions = Map.empty, nt_clients = Map.empty, nt_splitters = (\<lambda>_. ps_empty),
              nt_mgr = NewSessionMgr\<rparr>"

text \<open>\<open>conn.SendData\<close> and \<open>conn.Disconnect\<close> on a connection of the heap.\<close>

definition net_SendData :: "nat \<Rightarrow> bytes \<Rightarrow> net \<Rightarrow> (go_error \<times> net) option" where
  "net_SendData a data n = do {
     c \<leftarrow> nt_conns n a;
     (err, c) \<leftarrow> SendData data c;
     Some (err, n\<lparr>nt_conns := (nt_conns n)(a \<mapsto> c)\<rparr>) }"

definition net_Disconnect :: "nat \<Rightarrow> net \<Rightarrow> (go_error \<times> net) option" where
  "net_Disconnect a n = do {
     c \<leftarrow> nt_conns n a;
     (err, c) \<leftarrow> Conn_Disconnect c;
     Some (err, n\<lparr>nt_conns := (nt_conns n)(a \<mapsto> c)\<rparr>) }"

text \<open>
  \<open>SendMessage\<close> is the same for a session (through its send function) and a client: pack the
  message, return the error if there is one, give the packet to the connection.
\<close>

definition net_SendMessage :: "nat \<Rightarrow> u32 \<Rightarrow> bytes \<Rightarrow> net \<Rightarrow> (go_error \<times> net) option" where
  "net_SendMessage a msgId data n =
     (case PackMessage msgId data of
        Inl err \<Rightarrow> Some (Some err, n)
      | Inr pkt \<Rightarrow> net_SendData a pkt n)"

definition Session_Close :: "nat \<Rightarrow> net \<Rightarrow> (go_error \<times> net) option" where
  "Session_Close a n = do {
     s \<leftarrow> nt_sessions n a;
     case ns_conn s of
       None \<Rightarrow> Some (None, n)
     | Some conn \<Rightarrow> do {
         (err, n) \<leftarrow> net_Disconnect conn n;
         Some (err, n\<lparr>nt_sessions := (nt_sessions n)(a \<mapsto> s\<lparr>ns_conn := None\<rparr>)\<rparr>) } }"

definition SetBindObject :: "nat \<Rightarrow> int option \<Rightarrow> net \<Rightarrow> net option" where
  "SetBindObject a bindObject n = do {
     s \<leftarrow> nt_sessions n a;
     Some (n\<lparr>nt_sessions := (nt_sessions n)(a \<mapsto> s\<lparr>ns_bindObject := bindObject\<rparr>)\<rparr>) }"

definition GetID :: "nat \<Rightarrow> net \<Rightarrow> u32 option" where
  "GetID a n = map_option ns_id (nt_sessions n a)"

definition GetConn :: "nat \<Rightarrow> net \<Rightarrow> nat option option" where
  "GetConn a n = map_option ns_conn (nt_sessions n a)"

definition SetConn :: "nat \<Rightarrow> nat \<Rightarrow> net \<Rightarrow> net option" where
  "SetConn a conn n = do {
     s \<leftarrow> nt_sessions n a;
     Some (n\<lparr>nt_sessions := (nt_sessions n)(a \<mapsto> s\<lparr>ns_conn := Some conn\<rparr>)\<rparr>) }"

definition GetBindObject :: "nat \<Rightarrow> net \<Rightarrow> int option option" where
  "GetBindObject a n = map_option ns_bindObject (nt_sessions n a)"

text \<open>
  The accept handler of \<open>netServer.Start\<close> for a connection stored at the fresh address \<open>a\<close>:
  \<open>onConnect\<close> of the cluster server does nothing. The round of the acceptor makes the connection,
  calls the handler and starts the two goroutines, which the initial state of a connection includes.
\<close>

definition on_accept :: "nat \<Rightarrow> ConnSocket \<Rightarrow> net \<Rightarrow> net" where
  "on_accept a c n =
     (let (i, m) = NewSession a (nt_mgr n)
      in n\<lparr>nt_conns := (nt_conns n)(a \<mapsto> c),
           nt_sessions := (nt_sessions n)(a \<mapsto> \<lparr>ns_id = i, ns_bindObject = None, ns_conn = Some a\<rparr>),
           nt_splitters := (nt_splitters n)(a := ps_empty), nt_mgr := m\<rparr>)"

definition accept_conn :: "nat \<Rightarrow> net \<Rightarrow> net option" where
  "accept_conn a n = do { c \<leftarrow> newConn; Some (on_accept a c n) }"

text \<open>
  A new \<open>netClient\<close> with a connector that has dialled successfully, for the client of system \<open>sid\<close>:
  \<open>Connect\<close> installs the callbacks and the connector starts the goroutines.
\<close>

definition dial_conn :: "nat \<Rightarrow> int \<Rightarrow> net \<Rightarrow> net option" where
  "dial_conn a sid n = do {
     c \<leftarrow> newConn;
     Some (n\<lparr>nt_conns := (nt_conns n)(a \<mapsto> c), nt_clients := (nt_clients n)(a \<mapsto> sid),
             nt_splitters := (nt_splitters n)(a := ps_empty)\<rparr>) }"

declare on_accept_def [simp]

section \<open>Behaviour\<close>

lemma net_SendMessage_open:
  assumes "nt_conns n a = Some c" and "q_inv (cs_q c)" and "\<not> QQueue_IsClose (cs_q c)"
    and "msgId \<le> MaxMsgId"
  shows "\<exists>c'. net_SendMessage a msgId data n = Some (None, n\<lparr>nt_conns := (nt_conns n)(a \<mapsto> c')\<rparr>) \<and>
    q_inv (cs_q c') \<and> \<not> QQueue_IsClose (cs_q c') \<and>
    q_list (cs_q c') = q_list (cs_q c) @ [frame (msgId, data)] \<and>
    cs_accepted c' = cs_accepted c @ [frame (msgId, data)]"
proof -
  obtain q' where "QQueue_Enqueue (frame (msgId, data)) (cs_q c) = Some (None, q')" "q_inv q'"
      "q_list q' = q_list (cs_q c) @ [frame (msgId, data)]" "\<not> QQueue_IsClose q'"
    using qq.enqueue_open [OF assms(2,3)] by blast
  with assms(1,4) show ?thesis
    by (intro exI [of _ "c\<lparr>cs_q := q', cs_accepted := cs_accepted c @ [frame (msgId, data)]\<rparr>"])
      (simp add: net_SendMessage_def PackMessage_frame net_SendData_def SendData_def)
qed

lemma net_SendMessage_closed:
  assumes "nt_conns n a = Some c" and "q_inv (cs_q c)" and "QQueue_IsClose (cs_q c)"
  shows "\<exists>e n'. net_SendMessage a msgId data n = Some (Some e, n')"
proof (cases "PackMessage msgId data")
  case (Inr pkt)
  with assms qq.enqueue_closed [OF assms(2,3), of pkt] show ?thesis
    by (auto simp: net_SendMessage_def net_SendData_def SendData_def)
qed (simp add: net_SendMessage_def)

end
