(* ===== verification/Cluster_Net.thy ===== *)
theory Cluster_Net
  imports Envelope_Codec Session
begin

text \<open>
  The cluster net of one node (\<open>cluster_net.go\<close>): which node dials which, the table of system infos,
  sending an envelope to a system, and handling a message of a peer. \<open>Envelope_Codec\<close> holds the
  translation between envelopes and packages.
\<close>

section \<open>State\<close>

text \<open>What does not change while the node runs: the libraries, the registry, the configuration.\<close>

record 'p system =
  sy_api :: vactor_api
  sy_proto :: "'p proto_lib"
  sy_registry :: msg_registry
  sy_config :: ClusterConfig

text \<open>\<open>session\<close> and \<open>cli\<close> are addresses of connections (see \<open>Session\<close>).\<close>

record systemInfo =
  si_config :: SystemConfig
  si_passive :: bool
  si_session :: "nat option"
  si_cli :: "nat option"

record 'p clusterNet =
  cn_localSystemIndex :: int
  cn_systemInfos :: "int \<rightharpoonup> systemInfo"
  cn_systemCount :: nat
  cn_connectedSystemCount :: int
  cn_net :: net
  cn_routed :: "'p envelope list"  \<comment> \<open>history: the envelopes given to \<open>LocalRouter\<close>\<close>

section \<open>NewClusterNet\<close>

text \<open>The loop over the configurations with its three variables.\<close>

fun build_infos ::
  "int \<Rightarrow> nat \<Rightarrow> bool \<Rightarrow> int \<Rightarrow> (int \<rightharpoonup> systemInfo) \<Rightarrow> SystemConfig list \<Rightarrow> int \<times> (int \<rightharpoonup> systemInfo)" where
  "build_infos local i findSelf localIndex infos [] = (localIndex, infos)"
| "build_infos local i findSelf localIndex infos (config # configs) =
     (let hit = (\<not> findSelf \<and> local = sc_SystemId config);
          findSelf = (findSelf \<or> hit);
          localIndex = (if hit then int i else localIndex)
      in build_infos local (Suc i) findSelf localIndex
           (infos(sc_SystemId config \<mapsto>
              \<lparr>si_config = config, si_passive = \<not> findSelf, si_session = None, si_cli = None\<rparr>)) configs)"

definition NewClusterNet :: "ClusterConfig \<Rightarrow> 'p clusterNet" where
  "NewClusterNet clusterConfig =
     (let (localSystemIndex, systemInfos) =
            build_infos (cc_LocalSystemId clusterConfig) 0 False (-1) Map.empty (cc_SystemConfigs clusterConfig)
      in \<lparr>cn_localSystemIndex = localSystemIndex, cn_systemInfos = systemInfos,
          cn_systemCount = card (dom systemInfos), cn_connectedSystemCount = 0, cn_net = new_net,
          cn_routed = []\<rparr>)"

section \<open>start\<close>

text \<open>
  The synchronous part of \<open>start\<close>: count the node itself, decide whether to start the server
  (\<open>NewServer\<close> reads the port of the local system's info, a panic if there is none) and which
  clients to start.
\<close>

definition starts_server :: "'p clusterNet \<Rightarrow> bool" where
  "starts_server cn \<longleftrightarrow> cn_localSystemIndex cn < int (cn_systemCount cn) - 1"

definition started_clients :: "'p system \<Rightarrow> 'p clusterNet \<Rightarrow> int list" where
  "started_clients S cn =
     (if cn_localSystemIndex cn \<noteq> 0
      then map sc_SystemId (take (nat (cn_localSystemIndex cn)) (cc_SystemConfigs (sy_config S)))
      else [])"

definition NewServer_port :: "'p system \<Rightarrow> 'p clusterNet \<Rightarrow> u16 option" where
  "NewServer_port S cn =
     map_option (\<lambda>info. sc_Port (si_config info)) (cn_systemInfos cn (cc_LocalSystemId (sy_config S)))"

definition start_net :: "'p system \<Rightarrow> 'p clusterNet \<Rightarrow> ((u16 option \<times> int list) \<times> 'p clusterNet) option" where
  "start_net S cn = do {
     let cn = cn\<lparr>cn_connectedSystemCount := cn_connectedSystemCount cn + 1\<rparr>;
     server \<leftarrow> (if starts_server cn then map_option Some (NewServer_port S cn) else Some None);
     Some ((server, started_clients S cn), cn) }"

text \<open>
  The waiting loop. Each round reads the counter and, if it is too small, the clock; the list gives
  the values read. The loop has not ended while the list runs out.
\<close>

datatype wait_result = Connected | TimedOut | StillWaiting

fun wait_connected :: "'p system \<Rightarrow> 'p clusterNet \<Rightarrow> (int \<times> bool) list \<Rightarrow> wait_result" where
  "wait_connected S cn [] = StillWaiting"
| "wait_connected S cn ((connectedSystemCount, deadlinePassed) # rounds) =
     (if connectedSystemCount \<ge> int (cn_systemCount cn) then Connected
      else if cc_ConnectTimeout (sy_config S) > 0 \<and> deadlinePassed then TimedOut
      else wait_connected S cn rounds)"

section \<open>Sending\<close>

definition doSend :: "'p system \<Rightarrow> int \<Rightarrow> u32 \<Rightarrow> bytes \<Rightarrow> 'p clusterNet \<Rightarrow> (VAError \<times> 'p clusterNet) option" where
  "doSend S systemId msgId data cn = do {
     info \<leftarrow> cn_systemInfos cn systemId;
     (err, n) \<leftarrow>
       (if si_passive info then
          (case si_cli info of
             Some cli \<Rightarrow> net_SendMessage cli msgId data (cn_net cn)
           | None \<Rightarrow> Some (None, cn_net cn))
        else
          (case si_session info of
             Some session \<Rightarrow> net_SendMessage session msgId data (cn_net cn)
           | None \<Rightarrow> Some (None, cn_net cn)));
     let cn = cn\<lparr>cn_net := n\<rparr>;
     if err \<noteq> None then Some (Some (ErrorCodeMessageSendFail (sy_api S)), cn)
     else if si_passive info \<and> si_cli info = None \<or> \<not> si_passive info \<and> si_session info = None
     then Some (Some (ErrorCodeMessageSendFail (sy_api S)), cn)
     else Some (None, cn) }"

definition Send :: "'p system \<Rightarrow> int \<Rightarrow> 'p envelope \<Rightarrow> 'p clusterNet \<Rightarrow> (VAError \<times> 'p clusterNet) option" where
  "Send S systemId envelope cn = do {
     r \<leftarrow> Send_pkg (sy_api S) (sy_proto S) (sy_registry S) envelope;
     case r of
       Inl err \<Rightarrow> Some (Some err, cn)
     | Inr (msgId, pkg) \<Rightarrow>
         (case Marshal_pkg (sy_proto S) pkg of
            None \<Rightarrow> Some (Some (ErrorCodeMessageSerializeFail (sy_api S)), cn)
          | Some data \<Rightarrow> doSend S systemId msgId data cn) }"

section \<open>Receiving\<close>

definition cn_OnMessage :: "'p system \<Rightarrow> u32 \<Rightarrow> bytes \<Rightarrow> 'p clusterNet \<Rightarrow> (go_error \<times> 'p clusterNet) option" where
  "cn_OnMessage S msgId data cn = do {
     (err, es) \<leftarrow> OnMessage (sy_api S) (sy_proto S) (sy_registry S) msgId data;
     Some (err, cn\<lparr>cn_routed := cn_routed cn @ es\<rparr>) }"

section \<open>The system infos\<close>

lemma build_infos_others:
  "sid \<notin> set (map sc_SystemId cs) \<Longrightarrow> snd (build_infos l i f li infos cs) sid = infos sid"
  by (induction cs arbitrary: i f li infos) (auto simp: Let_def)

lemma build_infos_dom:
  "dom (snd (build_infos l i f li infos cs)) = dom infos \<union> set (map sc_SystemId cs)"
  by (induction cs arbitrary: i f li infos) (auto simp: Let_def)

lemma build_infos_found:
  assumes "distinct (map sc_SystemId cs)" and "c \<in> set cs"
  shows "snd (build_infos l i True li infos cs) (sc_SystemId c) =
    Some \<lparr>si_config = c, si_passive = False, si_session = None, si_cli = None\<rparr>"
  using assms
proof (induction cs arbitrary: i li infos)
  case (Cons d cs)
  then show ?case by (auto simp: Let_def build_infos_others image_iff)
qed simp

lemma build_infos_index_found [simp]: "fst (build_infos l i True li infos cs) = li"
  by (induction cs arbitrary: i infos) (auto simp: Let_def)

text \<open>With distinct ids, the index is the position of the local system and the systems before it are passive.\<close>

lemma build_infos_index:
  assumes "distinct (map sc_SystemId cs)" and "k < length cs" and "sc_SystemId (cs ! k) = l"
  shows "fst (build_infos l i False li infos cs) = int (i + k)"
  using assms
proof (induction cs arbitrary: i infos k)
  case (Cons d cs)
  show ?case
  proof (cases k)
    case 0
    with Cons.prems show ?thesis by (simp add: Let_def)
  next
    case (Suc j)
    with Cons.prems have "j < length cs" "sc_SystemId (cs ! j) = l" by simp_all
    moreover from this(1) have "sc_SystemId (cs ! j) \<in> sc_SystemId ` set cs" by simp
    ultimately have "sc_SystemId d \<noteq> l" "j < length cs" "sc_SystemId (cs ! j) = l"
      using Cons.prems(1) by auto
    with Cons.IH [of j "Suc i"] Cons.prems Suc show ?thesis by (simp add: Let_def)
  qed
qed simp

lemma build_infos_passive:
  assumes "distinct (map sc_SystemId cs)" and "k < length cs" and "sc_SystemId (cs ! k) = l"
    and "j < length cs"
  shows "snd (build_infos l i False li infos cs) (sc_SystemId (cs ! j)) =
    Some \<lparr>si_config = cs ! j, si_passive = (j < k), si_session = None, si_cli = None\<rparr>"
  using assms
proof (induction cs arbitrary: i infos li k j)
  case (Cons d cs)
  have notin: "sc_SystemId d \<notin> set (map sc_SystemId cs)" using Cons.prems(1) by simp
  show ?case
  proof (cases k)
    case 0
    with Cons.prems have l: "sc_SystemId d = l" by simp
    show ?thesis
    proof (cases j)
      case 0
      with l notin \<open>k = 0\<close> show ?thesis by (simp add: Let_def build_infos_others)
    next
      case (Suc j')
      with Cons.prems l \<open>k = 0\<close> show ?thesis
        using build_infos_found [of cs "cs ! j'" l] by (simp add: Let_def)
    qed
  next
    case (Suc k')
    with Cons.prems have "k' < length cs" "sc_SystemId (cs ! k') = l" by simp_all
    moreover from this(1) have "sc_SystemId (cs ! k') \<in> sc_SystemId ` set cs" by simp
    ultimately have l: "sc_SystemId d \<noteq> l" "k' < length cs" "sc_SystemId (cs ! k') = l"
      using Cons.prems(1) by auto
    show ?thesis
    proof (cases j)
      case 0
      with l notin Suc show ?thesis by (simp add: Let_def build_infos_others)
    next
      case (Suc j')
      with Cons.prems l \<open>k = Suc k'\<close> show ?thesis
        using Cons.IH [of k' j'] by (simp add: Let_def)
    qed
  qed
qed simp

text \<open>The table of node \<open>k\<close>.\<close>

definition node_of :: "ClusterConfig \<Rightarrow> nat \<Rightarrow> bool" where
  "node_of cfg k \<longleftrightarrow> distinct (map sc_SystemId (cc_SystemConfigs cfg)) \<and> k < length (cc_SystemConfigs cfg) \<and>
     sc_SystemId (cc_SystemConfigs cfg ! k) = cc_LocalSystemId cfg"

lemma NewClusterNet_count:
  assumes "distinct (map sc_SystemId (cc_SystemConfigs cfg))"
  shows "cn_systemCount (NewClusterNet cfg) = length (cc_SystemConfigs cfg)"
proof -
  have "cn_systemCount (NewClusterNet cfg) = card (set (map sc_SystemId (cc_SystemConfigs cfg)))"
    using build_infos_dom [of "cc_LocalSystemId cfg" 0 False "-1" Map.empty "cc_SystemConfigs cfg"]
    by (simp add: NewClusterNet_def case_prod_beta)
  with assms show ?thesis by (metis distinct_card length_map)
qed

lemma NewClusterNet_index:
  "node_of cfg k \<Longrightarrow> cn_localSystemIndex (NewClusterNet cfg) = int k"
  using build_infos_index [of "cc_SystemConfigs cfg" k "cc_LocalSystemId cfg" 0 "-1" Map.empty]
  by (simp add: NewClusterNet_def node_of_def case_prod_beta)

lemma NewClusterNet_info:
  "node_of cfg k \<Longrightarrow> j < length (cc_SystemConfigs cfg) \<Longrightarrow>
   cn_systemInfos (NewClusterNet cfg) (sc_SystemId (cc_SystemConfigs cfg ! j)) =
     Some \<lparr>si_config = cc_SystemConfigs cfg ! j, si_passive = (j < k), si_session = None, si_cli = None\<rparr>"
  using build_infos_passive [of "cc_SystemConfigs cfg" k "cc_LocalSystemId cfg" j 0 "-1" Map.empty]
  by (simp add: NewClusterNet_def node_of_def case_prod_beta)

lemma started_clients_node:
  assumes "node_of (sy_config S) k"
  shows "started_clients S (NewClusterNet (sy_config S)) = map sc_SystemId (take k (cc_SystemConfigs (sy_config S)))"
  by (simp add: started_clients_def NewClusterNet_index [OF assms])

lemma nth_in_take:
  assumes "distinct xs" and "k < length xs" and "j < length xs"
  shows "xs ! j \<in> set (take k xs) \<longleftrightarrow> j < k"
proof
  assume "xs ! j \<in> set (take k xs)"
  then obtain i where "i < k" "i < length xs" "xs ! i = xs ! j" by (auto simp: in_set_conv_nth)
  with assms show "j < k" by (simp add: nth_eq_iff_index_eq)
next
  assume "j < k"
  then show "xs ! j \<in> set (take k xs)" using assms(2) by (metis nth_take nth_mem length_take min_less_iff_conj less_trans)
qed

lemma config_id_before:
  assumes "node_of cfg k" and "j < length (cc_SystemConfigs cfg)"
  shows "sc_SystemId (cc_SystemConfigs cfg ! j) \<in> set (map sc_SystemId (take k (cc_SystemConfigs cfg))) \<longleftrightarrow> j < k"
proof -
  let ?ids = "map sc_SystemId (cc_SystemConfigs cfg)"
  have "distinct ?ids" "k < length ?ids" "j < length ?ids" using assms by (simp_all add: node_of_def)
  then have "?ids ! j \<in> set (take k ?ids) \<longleftrightarrow> j < k" by (rule nth_in_take)
  with assms(2) show ?thesis by (simp add: take_map)
qed

lemma start_net_server:
  assumes "node_of (sy_config S) i" and "Suc i < length (cc_SystemConfigs (sy_config S))"
  shows "\<exists>port clis cn. start_net S (NewClusterNet (sy_config S)) = Some ((Some port, clis), cn)"
proof -
  let ?cn = "NewClusterNet (sy_config S) :: 'a clusterNet"
  have "cn_localSystemIndex ?cn < int (cn_systemCount ?cn) - 1"
    using assms by (simp add: NewClusterNet_index [OF assms(1)] NewClusterNet_count node_of_def)
  moreover have "\<exists>info. cn_systemInfos ?cn (cc_LocalSystemId (sy_config S)) = Some info"
    using NewClusterNet_info [OF assms(1), of i] assms by (auto simp: node_of_def)
  ultimately show ?thesis
    by (auto simp: start_net_def NewServer_port_def starts_server_def Let_def)
qed

section \<open>Sending over a link\<close>

text \<open>The connection \<open>doSend\<close> uses for a system.\<close>

definition link :: "'p clusterNet \<Rightarrow> int \<Rightarrow> nat option" where
  "link cn sid =
     (case cn_systemInfos cn sid of
        None \<Rightarrow> None
      | Some info \<Rightarrow> if si_passive info then si_cli info else si_session info)"

definition conn_at :: "'p clusterNet \<Rightarrow> nat \<Rightarrow> ConnSocket option" where
  "conn_at cn a = nt_conns (cn_net cn) a"

definition linked :: "'p clusterNet \<Rightarrow> int \<Rightarrow> nat \<Rightarrow> ConnSocket \<Rightarrow> bool" where
  "linked cn sid a c \<longleftrightarrow> link cn sid = Some a \<and> conn_at cn a = Some c \<and> q_inv (cs_q c)"

lemma doSend_open:
  assumes "linked cn sid a c" and "\<not> QQueue_IsClose (cs_q c)" and "msgId \<le> MaxMsgId"
  shows "\<exists>c' cn'. doSend S sid msgId data cn = Some (None, cn') \<and> linked cn' sid a c' \<and>
    \<not> QQueue_IsClose (cs_q c') \<and> cs_accepted c' = cs_accepted c @ [frame (msgId, data)] \<and>
    q_list (cs_q c') = q_list (cs_q c) @ [frame (msgId, data)] \<and>
    cn_systemInfos cn' = cn_systemInfos cn"
proof -
  obtain info where info: "cn_systemInfos cn sid = Some info"
      "(if si_passive info then si_cli info else si_session info) = Some a"
    using assms(1) by (auto simp: linked_def link_def split: option.splits)
  have "nt_conns (cn_net cn) a = Some c" "q_inv (cs_q c)"
    using assms(1) by (auto simp: linked_def conn_at_def)
  from net_SendMessage_open [OF this assms(2,3), of data] obtain c' where c':
      "net_SendMessage a msgId data (cn_net cn) = Some (None, (cn_net cn)\<lparr>nt_conns := (nt_conns (cn_net cn))(a \<mapsto> c')\<rparr>)"
      "q_inv (cs_q c')" "\<not> QQueue_IsClose (cs_q c')" "cs_accepted c' = cs_accepted c @ [frame (msgId, data)]"
      "q_list (cs_q c') = q_list (cs_q c) @ [frame (msgId, data)]" by blast
  let ?cn = "cn\<lparr>cn_net := (cn_net cn)\<lparr>nt_conns := (nt_conns (cn_net cn))(a \<mapsto> c')\<rparr>\<rparr>"
  from info c' have "doSend S sid msgId data cn = Some (None, ?cn)"
    by (auto simp: doSend_def)
  with c' info show ?thesis
    by (intro exI [of _ c'] exI [of _ ?cn]) (simp add: linked_def link_def conn_at_def)
qed

lemma doSend_closed:
  assumes "linked cn sid a c" and "QQueue_IsClose (cs_q c)"
  shows "\<exists>cn'. doSend S sid msgId data cn = Some (Some (ErrorCodeMessageSendFail (sy_api S)), cn')"
proof -
  obtain info where "cn_systemInfos cn sid = Some info"
      "(if si_passive info then si_cli info else si_session info) = Some a"
    using assms(1) by (auto simp: linked_def link_def split: option.splits)
  moreover obtain e n' where "net_SendMessage a msgId data (cn_net cn) = Some (Some e, n')"
    using net_SendMessage_closed [of "cn_net cn" a c msgId data] assms by (auto simp: linked_def conn_at_def)
  ultimately show ?thesis by (auto simp: doSend_def)
qed

lemma doSend_unlinked:
  "cn_systemInfos cn sid = Some info \<Longrightarrow> link cn sid = None \<Longrightarrow>
   doSend S sid msgId data cn = Some (Some (ErrorCodeMessageSendFail (sy_api S)), cn)"
  by (auto simp: doSend_def link_def)

lemma doSend_unknown: "cn_systemInfos cn sid = None \<Longrightarrow> doSend S sid msgId data cn = None"
  by (simp add: doSend_def)

section \<open>Sending and receiving several envelopes\<close>

fun send_all :: "'p system \<Rightarrow> int \<Rightarrow> 'p envelope list \<Rightarrow> 'p clusterNet \<Rightarrow> (VAError list \<times> 'p clusterNet) option" where
  "send_all S sid [] cn = Some ([], cn)"
| "send_all S sid (e # es) cn = do {
     (err, cn) \<leftarrow> Send S sid e cn;
     (errs, cn) \<leftarrow> send_all S sid es cn;
     Some (err # errs, cn) }"

text \<open>The message of a successfully sent envelope.\<close>

definition message_of :: "'p system \<Rightarrow> 'p envelope \<Rightarrow> u32 \<times> bytes \<Rightarrow> bool" where
  "message_of S e m \<longleftrightarrow> (\<exists>pkg. Send_pkg (sy_api S) (sy_proto S) (sy_registry S) e = Some (Inr (fst m, pkg)) \<and>
     Marshal_pkg (sy_proto S) pkg = Some (snd m))"

lemma message_of_byte: "message_of S e m \<Longrightarrow> fst m \<le> MaxMsgId"
  using Send_pkg_kind envelope_kinds_byte by (fastforce simp: message_of_def MaxMsgId_def)

lemma Send_ok:
  assumes "linked cn sid a c" and "Send S sid e cn = Some (None, cn')"
  shows "\<exists>m c'. message_of S e m \<and> linked cn' sid a c' \<and> cs_accepted c' = cs_accepted c @ [frame m]"
proof -
  obtain r where "Send_pkg (sy_api S) (sy_proto S) (sy_registry S) e = Some r"
    using assms(2) by (auto simp: Send_def)
  with assms(2) obtain m where m: "message_of S e m" "doSend S sid (fst m) (snd m) cn = Some (None, cn')"
    by (cases r) (auto simp: Send_def message_of_def split: option.splits)
  have "\<not> QQueue_IsClose (cs_q c)"
    using doSend_closed [OF assms(1), of S "fst m" "snd m"] m(2) by auto
  from doSend_open [OF assms(1) this message_of_byte [OF m(1)], of S "snd m"] m
  obtain c' where "linked cn' sid a c'" "cs_accepted c' = cs_accepted c @ [frame m]" by auto
  with m(1) show ?thesis by blast
qed

lemma send_all_ok:
  assumes "linked cn sid a c" and "send_all S sid es cn = Some (errs, cn')" and "\<forall>err \<in> set errs. err = None"
  shows "\<exists>ms c'. list_all2 (message_of S) es ms \<and> linked cn' sid a c' \<and>
    cs_accepted c' = cs_accepted c @ map frame ms"
  using assms
proof (induction es arbitrary: cn c errs)
  case (Cons e es)
  then obtain cn1 errs1 where 1: "Send S sid e cn = Some (None, cn1)" "send_all S sid es cn1 = Some (errs1, cn')"
      "\<forall>err \<in> set errs1. err = None" by auto
  from Send_ok [OF Cons.prems(1) 1(1)] obtain m c1 where 2: "message_of S e m" "linked cn1 sid a c1"
      "cs_accepted c1 = cs_accepted c @ [frame m]" by blast
  from Cons.IH [OF 2(2) 1(2,3)] 2 show ?case by fastforce
qed auto

definition handler :: "'p system \<Rightarrow> u32 \<times> bytes \<Rightarrow> 'p clusterNet \<Rightarrow> 'p clusterNet option" where
  "handler S = (\<lambda>(msgId, data) cn. map_option snd (cn_OnMessage S msgId data cn))"

text \<open>What the two ends must share.\<close>

definition compatible :: "'p system \<Rightarrow> 'p system \<Rightarrow> bool" where
  "compatible S S' \<longleftrightarrow> sy_api S' = sy_api S \<and> sy_proto S' = sy_proto S \<and> wire_types_ok (sy_api S) \<and>
     proto_ok (sy_proto S) \<and> reg_ok (sy_registry S) (sy_registry S')"

lemma handle_all_messages:
  assumes "compatible S S'" and "list_all2 (message_of S) es ms" and "\<forall>e \<in> set es. envelope_ok (sy_api S) e"
  shows "handle_all (handler S') ms cn =
    Some (cn\<lparr>cn_routed := cn_routed cn @ map (arriving (sy_api S) (sy_proto S) (sy_registry S)) es\<rparr>)"
  using assms(2,3)
proof (induction es ms arbitrary: cn rule: list_all2_induct)
  case (Cons e es m ms)
  then obtain pkg where "Send_pkg (sy_api S) (sy_proto S) (sy_registry S) e = Some (Inr (fst m, pkg))"
      "Marshal_pkg (sy_proto S) pkg = Some (snd m)" by (auto simp: message_of_def)
  moreover from assms(1) Cons.prems have "wire_types_ok (sy_api S)" "proto_ok (sy_proto S)"
      "reg_ok (sy_registry S) (sy_registry S')" "envelope_ok (sy_api S) e"
    by (simp_all add: compatible_def)
  ultimately have "OnMessage (sy_api S) (sy_proto S) (sy_registry S') (fst m) (snd m) =
      Some (None, [arriving (sy_api S) (sy_proto S) (sy_registry S) e])"
    by (blast intro: OnMessage_Send_pkg)
  then have "OnMessage (sy_api S') (sy_proto S') (sy_registry S') (fst m) (snd m) =
      Some (None, [arriving (sy_api S) (sy_proto S) (sy_registry S) e])"
    using assms(1) by (simp add: compatible_def)
  with Cons show ?case
    by (cases m) (simp add: handler_def cn_OnMessage_def)
qed simp

section \<open>Main theorems\<close>

text \<open>
  What \<open>start\<close> makes of the list of configurations: of two systems the later one starts a client to the
  earlier one and sends through it (\<open>passive\<close>), the earlier one starts its server and no client to the
  later one.
\<close>

lemma configured_roles:
  assumes "node_of (sy_config S) i" and "node_of (sy_config S') j" and "i < j"
    and "cc_SystemConfigs (sy_config S) = cc_SystemConfigs (sy_config S')"
  shows "cc_LocalSystemId (sy_config S) \<in> set (started_clients S' (NewClusterNet (sy_config S'))) \<and>
    cc_LocalSystemId (sy_config S') \<notin> set (started_clients S (NewClusterNet (sy_config S))) \<and>
    map_option si_passive (cn_systemInfos (NewClusterNet (sy_config S')) (cc_LocalSystemId (sy_config S))) = Some True \<and>
    map_option si_passive (cn_systemInfos (NewClusterNet (sy_config S)) (cc_LocalSystemId (sy_config S'))) = Some False \<and>
    (\<exists>port clis cn. start_net S (NewClusterNet (sy_config S)) = Some ((Some port, clis), cn))"
proof -
  let ?cs = "cc_SystemConfigs (sy_config S')"
  have l: "sc_SystemId (?cs ! i) = cc_LocalSystemId (sy_config S)" "sc_SystemId (?cs ! j) = cc_LocalSystemId (sy_config S')"
      "i < length ?cs" "j < length ?cs" "distinct (map sc_SystemId ?cs)"
    using assms by (auto simp: node_of_def)
  have "\<exists>port clis cn. start_net S (NewClusterNet (sy_config S)) = Some ((Some port, clis), cn)"
    using start_net_server [OF assms(1)] assms(3,4) l by simp
  moreover have "cc_LocalSystemId (sy_config S) \<in> set (started_clients S' (NewClusterNet (sy_config S')))"
    using config_id_before [OF assms(2) l(3)] assms(3) by (simp add: started_clients_node [OF assms(2)] l)
  moreover have "cc_LocalSystemId (sy_config S') \<notin> set (started_clients S (NewClusterNet (sy_config S)))"
    using config_id_before [OF assms(1), of j] assms(3,4) l by (simp add: started_clients_node [OF assms(1)])
  moreover have "map_option si_passive (cn_systemInfos (NewClusterNet (sy_config S')) (cc_LocalSystemId (sy_config S))) = Some True"
    using assms(3) by (simp add: NewClusterNet_info [OF assms(2) l(3), unfolded l(1)])
  moreover have "map_option si_passive (cn_systemInfos (NewClusterNet (sy_config S)) (cc_LocalSystemId (sy_config S'))) = Some False"
    using assms(3) l(4) by (simp add: NewClusterNet_info [OF assms(1), of j, unfolded assms(4) l(2)])
  ultimately show ?thesis by blast
qed

text \<open>
  A node of the demonstration cluster, and one with an open session of system 2 and none of
  system 3.
\<close>

definition demo_system :: "int \<Rightarrow> pkg \<Rightarrow> bytes system" where
  "demo_system sid pkg = \<lparr>sy_api = demo_api, sy_proto = demo_proto pkg [9], sy_registry = demo_registry,
     sy_config = demo_cluster sid\<rparr>"

lemma demo_compatible: "compatible (demo_system i pkg) (demo_system j pkg)"
  by (simp add: compatible_def demo_system_def demo_wire_types_ok demo_proto_ok demo_registry_ok)

lemma demo_linked:
  "\<exists>(cn :: bytes clusterNet) c. linked cn 2 0 c \<and> \<not> QQueue_IsClose (cs_q c) \<and> cs_accepted c = [] \<and> cn_routed cn = [] \<and>
     cn_systemInfos cn 3 \<noteq> None \<and> link cn 3 = None"
proof -
  obtain c where c: "newConn = Some c" using newConn_returns by blast
  then have "conn_reachable c" by (rule conn_reachable.new)
  then have "q_inv (cs_q c)" by (blast intro: conn_reachable_inv conn_inv_q)
  moreover have "\<not> QQueue_IsClose (cs_q c)" "cs_accepted c = []"
    using c by (auto simp: newConn_def queue_NewQueue_def QQueue_Init_def NewQueue_def QQueue_IsClose_def Queue_IsClosed_def)
  ultimately show ?thesis
    by (intro exI [of _ "\<lparr>cn_localSystemIndex = 0, cn_systemInfos =
        [2 \<mapsto> \<lparr>si_config = cc_SystemConfigs (demo_cluster 1) ! 1, si_passive = False, si_session = Some 0, si_cli = None\<rparr>,
         3 \<mapsto> \<lparr>si_config = cc_SystemConfigs (demo_cluster 1) ! 1, si_passive = False, si_session = None, si_cli = None\<rparr>],
        cn_systemCount = 2, cn_connectedSystemCount = 2, cn_net = new_net\<lparr>nt_conns := [0 \<mapsto> c]\<rparr>, cn_routed = []\<rparr>"] exI [of _ c])
      (simp add: linked_def link_def conn_at_def)
qed

text \<open>
  C21. \<open>doSend\<close> on a linked, open connection appends exactly the frame of the message to what that
  connection has accepted and reports success. Without a link, or when the connection has been
  closed, it returns \<open>ErrorCodeMessageSendFail\<close> and no connection has accepted anything. For a
  system that is in no configuration it panics.
\<close>

theorem doSend_result:
  assumes "\<And>a. link cn sid = Some a \<Longrightarrow> linked cn sid a (c a)" and "msgId \<le> MaxMsgId"
  shows "case cn_systemInfos cn sid of
      None \<Rightarrow> doSend S sid msgId data cn = None
    | Some info \<Rightarrow>
        (case link cn sid of
           None \<Rightarrow> doSend S sid msgId data cn = Some (Some (ErrorCodeMessageSendFail (sy_api S)), cn)
         | Some a \<Rightarrow>
             if QQueue_IsClose (cs_q (c a))
             then \<exists>cn'. doSend S sid msgId data cn = Some (Some (ErrorCodeMessageSendFail (sy_api S)), cn')
             else \<exists>cn' c'. doSend S sid msgId data cn = Some (None, cn') \<and> linked cn' sid a c' \<and>
                    cs_accepted c' = cs_accepted (c a) @ [frame (msgId, data)])"
  using assms(1) doSend_unknown [of cn sid] doSend_unlinked [of cn sid]
    doSend_closed [of cn sid _ "c _"] doSend_open [of cn sid _ "c _" msgId, OF _ _ assms(2)]
  by (auto split: option.splits) blast+

theorem doSend_result_witness:
  "\<exists>(cn :: bytes clusterNet) cn' c'. doSend (demo_system 1 (PkgRegisterSystemReq 0)) 2 7 [1, 2] cn = Some (None, cn') \<and>
     linked cn' 2 0 c' \<and> cs_accepted c' = [frame (7, [1, 2])]"
proof -
  obtain cn :: "bytes clusterNet" and c where cn: "linked cn 2 0 c" "\<not> QQueue_IsClose (cs_q c)" "cs_accepted c = []"
    using demo_linked by blast
  then obtain info where "cn_systemInfos cn 2 = Some info" "link cn 2 = Some 0"
    by (auto simp: linked_def link_def split: option.splits)
  with cn doSend_result [of cn 2 "\<lambda>_. c" 7 "demo_system 1 (PkgRegisterSystemReq 0)" "[1, 2]"] show ?thesis
    by (auto simp: MaxMsgId_def)
qed

text \<open>
  C22. End to end: envelopes that \<open>Send\<close> has accepted for a system, received by that system in
  whatever chunks TCP makes of the bytes, are routed there in the order they were sent, each once
  and unchanged (but for unserializable messages of a batch), and nothing is left over. The bytes
  are those the sender's connection has accepted since; \<open>conn_writes_in_order\<close> says that it writes
  them in order. Packets and chunks are bounded so that they fit the receiver's 32-bit arithmetic.
\<close>

theorem cluster_delivery:
  assumes "compatible S S'" and "\<forall>e \<in> set es. envelope_ok (sy_api S) e"
    and "linked cn sid a c" and "send_all S sid es cn = Some (errs, cn')" and "\<forall>err \<in> set errs. err = None"
    and "conn_at cn' a = Some c'" and "cs_accepted c' = cs_accepted c @ pkts"
    and "\<forall>pkt \<in> set pkts. length pkt \<le> bound" and "\<forall>ch \<in> set chunks. length ch \<le> chunk"
    and "bound + chunk < 2 ^ 32" and "concat chunks = concat pkts"
  shows "feed (OnData (handler S')) chunks ps_empty peer =
    Some (ps_empty, peer\<lparr>cn_routed := cn_routed peer @ map (arriving (sy_api S) (sy_proto S) (sy_registry S)) es\<rparr>)"
proof -
  obtain ms c'' where ms: "list_all2 (message_of S) es ms" "linked cn' sid a c''"
      "cs_accepted c'' = cs_accepted c @ map frame ms"
    using send_all_ok [OF assms(3-5)] by blast
  with assms(6,7) have pkts: "pkts = map frame ms" by (simp add: linked_def)
  have byte: "\<forall>m \<in> set ms. fst m \<le> MaxMsgId"
    using ms(1) message_of_byte by (fastforce simp: list_all2_conv_all_nth in_set_conv_nth)
  moreover have len: "length (frame m) \<le> bound" if "m \<in> set ms" for m using assms(8) that pkts by simp
  moreover have "length (snd m) + PacketHeaderSize < 2 ^ 32" if "m \<in> set ms" for m
    using len [OF that] assms(10) by (cases m) (simp add: length_frame)
  ultimately have "\<forall>m \<in> set ms. msg_fits m \<and> length (frame m) \<le> bound"
    by (simp add: msg_fits_def)
  from pk.feed_all [OF this assms(9), of ps_empty "handler S'" peer] assms(10,11) pkts
  obtain p' where "ps_buf p' = []" "feed (OnData (handler S')) chunks ps_empty peer =
      map_option (Pair p') (handle_all (handler S') ms peer)"
    by (auto simp: OnData_feed ps_empty_def frame_def)
  moreover from this(1) have "p' = ps_empty" by (cases p') (simp add: ps_empty_def)
  ultimately show ?thesis by (simp add: handle_all_messages [OF assms(1) ms(1) assms(2)])
qed

theorem cluster_delivery_witness:
  "\<exists>pkg (peer :: bytes clusterNet) chunks. length chunks = 2 \<and>
     feed (OnData (handler (demo_system 2 pkg))) chunks ps_empty peer =
       Some (ps_empty, peer\<lparr>cn_routed := cn_routed peer @ [EnvelopeWatch (demo_ref 1 ''w'') (demo_ref 2 ''a'') 3 True]\<rparr>)"
proof -
  let ?e = "EnvelopeWatch (demo_ref 1 ''w'') (demo_ref 2 ''a'') 3 True"
  let ?pkg = "PkgEnvelopeWatch (ActorRefToProto (demo_ref 1 ''w'')) (ActorRefToProto (demo_ref 2 ''a'')) (to_u32 3) True"
  let ?S = "demo_system 1 ?pkg" and ?f = "frame (PkgTypeEnvelopeWatch, [9])"
  obtain cn :: "bytes clusterNet" and c where cn: "linked cn 2 0 c" "\<not> QQueue_IsClose (cs_q c)" "cs_accepted c = []"
    using demo_linked by blast
  have "PkgTypeEnvelopeWatch \<le> MaxMsgId" by (simp add: pkg_types MaxMsgId_def)
  from doSend_open [OF cn(1,2) this, of ?S "[9]"] obtain c' cn' where
      send: "doSend ?S 2 PkgTypeEnvelopeWatch [9] cn = Some (None, cn')" "linked cn' 2 0 c'" "cs_accepted c' = [?f]"
    using cn(3) by auto
  have sa: "send_all ?S 2 [?e] cn = Some ([None], cn')"
    using send(1) by (simp add: Send_def demo_system_def demo_proto_def)
  have env: "\<forall>e \<in> set [?e]. envelope_ok (sy_api ?S) e"
    by (simp add: demo_system_def) (simp add: demo_api_def has_type_def)
  have c': "conn_at cn' 0 = Some c'" using send(2) by (simp add: linked_def)
  have acc: "cs_accepted c' = cs_accepted c @ [?f]" using send(3) cn(3) by simp
  have len: "length ?f = 6" by (simp add: length_frame PacketHeaderSize_def)
  have "feed (OnData (handler (demo_system 2 ?pkg))) [take 3 ?f, drop 3 ?f] ps_empty cn =
      Some (ps_empty, cn\<lparr>cn_routed := cn_routed cn @ map (arriving (sy_api ?S) (sy_proto ?S) (sy_registry ?S)) [?e]\<rparr>)"
    by (rule cluster_delivery [OF demo_compatible env cn(1) sa _ c' acc, where bound = 6 and chunk = 6])
      (simp_all add: len)
  then show ?thesis by (intro exI [of _ ?pkg] exI [of _ cn] exI [of _ "[take 3 ?f, drop 3 ?f]"]) simp
qed

end
