(* ===== verification/Dispatch.thy ===== *)
theory Dispatch
  imports Placement Cluster_Net
begin

text \<open>
  Routing an envelope (\<open>Router.Router\<close> in \<open>router.go\<close>): to the local router, to the cluster net, or
  to a proxy actor of the local system; and the request proxy (\<open>request_proxy.go\<close>) that ends one of
  these ways. The order in which Go visits the keys of a map is an argument.
\<close>

section \<open>Operations\<close>

text \<open>\<open>r.system.LocalRouter\<close>, recorded in the same history as the envelopes of \<open>OnMessage\<close>.\<close>

definition LocalRouter :: "'p envelope \<Rightarrow> 'p clusterNet \<Rightarrow> 'p clusterNet" where
  "LocalRouter e cn = cn\<lparr>cn_routed := cn_routed cn @ [e]\<rparr>"

text \<open>Calling \<open>GetSystemId\<close> on a \<open>nil\<close> reference panics.\<close>

definition GetSystemId :: "ActorRef \<Rightarrow> int option" where
  "GetSystemId actorRef = map_option ar_SystemId actorRef"

text \<open>The loop that groups the addressees of a batch by system.\<close>

fun group_refs :: "ActorRef list \<Rightarrow> (int \<rightharpoonup> ActorRef list) \<Rightarrow> (int \<rightharpoonup> ActorRef list) option" where
  "group_refs [] groups = Some groups"
| "group_refs (actorRef # refs) groups = do {
     systemId \<leftarrow> GetSystemId actorRef;
     group_refs refs (groups(systemId \<mapsto> slice_at groups systemId @ [actorRef])) }"

text \<open>
  The loop over the groups in the order \<open>systemIds\<close>; \<open>envelope\<close> builds the envelope for one group.
  A local group leaves \<open>err\<close> alone, a remote one overwrites it.
\<close>

fun route_groups ::
  "'p system \<Rightarrow> Router \<Rightarrow> (ActorRef list \<Rightarrow> 'p envelope option) \<Rightarrow> (int \<rightharpoonup> ActorRef list) \<Rightarrow> int list \<Rightarrow>
   VAError \<Rightarrow> 'p clusterNet \<Rightarrow> (VAError \<times> 'p clusterNet) option" where
  "route_groups S r envelope groups [] err cn = Some (err, cn)"
| "route_groups S r envelope groups (systemId # systemIds) err cn = do {
     e \<leftarrow> envelope (slice_at groups systemId);
     (err, cn) \<leftarrow> (if systemId = rt_systemId r then Some (err, LocalRouter e cn)
                   else Send S systemId e cn);
     route_groups S r envelope groups systemIds err cn }"

definition route_one ::
  "'p system \<Rightarrow> Router \<Rightarrow> 'p envelope \<Rightarrow> ActorRef \<Rightarrow> 'p clusterNet \<Rightarrow> (VAError \<times> 'p clusterNet) option" where
  "route_one S r e to cn = do {
     systemId \<leftarrow> GetSystemId to;
     if systemId = rt_systemId r then Some (None, LocalRouter e cn) else Send S systemId e cn }"

fun Router_Router ::
  "'p system \<Rightarrow> Router \<Rightarrow> int list \<Rightarrow> 'p envelope \<Rightarrow> 'p clusterNet \<Rightarrow> (VAError \<times> 'p clusterNet) option" where
  "Router_Router S r order (EnvelopeBatchSend from toRefs messages) cn = do {
     groups \<leftarrow> group_refs toRefs Map.empty;
     route_groups S r (\<lambda>actorRefs. Some (EnvelopeBatchSend from actorRefs messages)) groups order None cn }"
| "Router_Router S r order (EnvelopeWatch from to watchType isWatch) cn = do {
     systemId \<leftarrow> GetSystemId to;
     if systemId = rt_systemId r then Some (None, LocalRouter (EnvelopeWatch from to watchType isWatch) cn)
     else do {
       f \<leftarrow> from;
       if ar_ActorType f = WatchProxyActorType (sy_api S)
       then Send S systemId (EnvelopeWatch from to watchType isWatch) cn
       else do {
         proxy \<leftarrow> GetWatchProxyActorRef (sy_api S) r (rt_systemId r) to;
         Some (None, LocalRouter (EnvelopeSend from (Some proxy) (InnerWatch watchType isWatch)) cn) } } }"
| "Router_Router S r order (EnvelopeNotify from toRefs notifyType message) cn = do {
     groups \<leftarrow> group_refs toRefs Map.empty;
     route_groups S r
       (\<lambda>actorRefs. case message of
          None \<Rightarrow> None
        | Some m \<Rightarrow> Some (EnvelopeNotify from actorRefs notifyType (Some m)))
       groups order None cn }"
| "Router_Router S r order (EnvelopeOuterWatch to watchType isWatch queue) cn = do {
     systemId \<leftarrow> GetSystemId to;
     if systemId = rt_systemId r then Some (None, LocalRouter (EnvelopeOuterWatch to watchType isWatch queue) cn)
     else do {
       proxy \<leftarrow> GetWatchProxyActorRef (sy_api S) r (rt_systemId r) to;
       Some (None, LocalRouter (EnvelopeSend None (Some proxy) (OuterWatch watchType isWatch queue)) cn) } }"
| "Router_Router S r order (EnvelopeOuterRequest to message rspChan) cn = do {
     systemId \<leftarrow> GetSystemId to;
     if systemId = rt_systemId r then Some (None, LocalRouter (EnvelopeOuterRequest to message rspChan) cn)
     else do {
       proxy \<leftarrow> GetRequestProxyActorRef (sy_api S) r (rt_systemId r) to;
       Some (None, LocalRouter (EnvelopeSend None (Some proxy) (OuterRequest to message rspChan)) cn) } }"
| "Router_Router S r order e cn = route_one S r e (GetToActorRef e) cn"

section \<open>The request proxy\<close>

text \<open>
  What \<open>RequestProxy.OnMessage\<close> asks of its context: an asynchronous request, with the channel its
  callback has captured. A call of the callback, which is vactor's to make, writes one value to
  the channel: the pair says which channel and which value.
\<close>

definition RequestProxyTimeout :: int where "RequestProxyTimeout = 30 * 10 ^ 9"  \<comment> \<open>nanoseconds\<close>

datatype 'p request = RequestAsync ActorRef "'p message" int nat

definition RequestProxy_OnMessage :: "'p message \<Rightarrow> 'p request list" where
  "RequestProxy_OnMessage msg =
     (case msg of
        OuterRequest to m rspChan \<Rightarrow> [RequestAsync to m RequestProxyTimeout rspChan]
      | _ \<Rightarrow> [])"

fun RequestProxy_callback :: "'p request \<Rightarrow> 'p message \<Rightarrow> VAError \<Rightarrow> nat \<times> 'p Response" where
  "RequestProxy_callback (RequestAsync to m timeout rspChan) msg err = (rspChan, (err, msg))"

section \<open>Grouping\<close>

definition refs_of :: "int \<Rightarrow> ActorRef list \<Rightarrow> ActorRef list" where
  "refs_of sid refs = filter (\<lambda>r. GetSystemId r = Some sid) refs"

definition systems_of :: "ActorRef list \<Rightarrow> int set" where
  "systems_of refs = {sid. \<exists>r \<in> set refs. GetSystemId r = Some sid}"

lemma group_refs_spec:
  "None \<notin> set refs \<Longrightarrow> \<exists>groups'. group_refs refs groups = Some groups' \<and>
     (\<forall>sid. slice_at groups' sid = slice_at groups sid @ refs_of sid refs)"
proof (induction refs arbitrary: groups)
  case (Cons ref refs)
  then obtain x where x: "ref = Some x" by (cases ref) auto
  let ?g = "groups(ar_SystemId x \<mapsto> slice_at groups (ar_SystemId x) @ [ref])"
  obtain g where g: "group_refs refs ?g = Some g" "\<And>sid. slice_at g sid = slice_at ?g sid @ refs_of sid refs"
    using Cons.IH [of ?g] Cons.prems by (auto simp del: fun_upd_apply)
  have "slice_at g sid = slice_at groups sid @ refs_of sid (ref # refs)" for sid
    using g(2) [of sid] by (auto simp: refs_of_def slice_at_def GetSystemId_def x)
  with g(1) show ?case by (auto simp: GetSystemId_def x)
qed (auto simp: refs_of_def)

text \<open>The groups, whatever the order they are visited in, hold every addressee exactly once.\<close>

lemma groups_partition:
  assumes "None \<notin> set refs" and "distinct order" and "systems_of refs \<subseteq> set order"
  shows "mset (concat (map (\<lambda>sid. refs_of sid refs) order)) = mset refs"
  using assms(1,3)
proof (induction refs)
  case Nil
  then show ?case by (induction order) (simp_all add: refs_of_def)
next
  case (Cons ref refs)
  then obtain x where x: "ref = Some x" by (cases ref) auto
  have "ar_SystemId x \<in> set order"
    using Cons.prems(2) by (auto simp: systems_of_def GetSystemId_def x)
  then obtain xs ys where o: "order = xs @ ar_SystemId x # ys" by (meson split_list)
  with assms(2) have "ar_SystemId x \<notin> set xs" "ar_SystemId x \<notin> set ys" by auto
  then have *: "map (\<lambda>sid. refs_of sid (ref # refs)) xs = map (\<lambda>sid. refs_of sid refs) xs"
      "map (\<lambda>sid. refs_of sid (ref # refs)) ys = map (\<lambda>sid. refs_of sid refs) ys"
    by (auto simp: refs_of_def x GetSystemId_def)
  have "refs_of (ar_SystemId x) (ref # refs) = ref # refs_of (ar_SystemId x) refs"
    by (simp add: refs_of_def x GetSystemId_def)
  moreover have "mset (concat (map (\<lambda>sid. refs_of sid refs) order)) = mset refs"
    using Cons by (auto simp: systems_of_def)
  ultimately show ?case unfolding o map_append list.map * by simp
qed

text \<open>What a batch does, without the map: one envelope per system.\<close>

fun send_groups ::
  "'p system \<Rightarrow> Router \<Rightarrow> (int \<Rightarrow> 'p envelope) \<Rightarrow> int list \<Rightarrow> VAError \<Rightarrow> 'p clusterNet \<Rightarrow> (VAError \<times> 'p clusterNet) option" where
  "send_groups S r envelope [] err cn = Some (err, cn)"
| "send_groups S r envelope (systemId # systemIds) err cn = do {
     (err, cn) \<leftarrow> (if systemId = rt_systemId r then Some (err, LocalRouter (envelope systemId) cn)
                   else Send S systemId (envelope systemId) cn);
     send_groups S r envelope systemIds err cn }"

lemma route_groups_send:
  "\<forall>sid. envelope (slice_at groups sid) = Some (f sid) \<Longrightarrow>
   route_groups S r envelope groups order err cn = send_groups S r f order err cn"
  by (induction order arbitrary: err cn) (auto intro!: Option.bind_cong)

lemma Router_batch:
  assumes "None \<notin> set refs"
  shows "Router_Router S r order (EnvelopeBatchSend from refs messages) cn =
    send_groups S r (\<lambda>sid. EnvelopeBatchSend from (refs_of sid refs) messages) order None cn"
proof -
  obtain groups where "group_refs refs Map.empty = Some groups" "\<And>sid. slice_at groups sid = refs_of sid refs"
    using group_refs_spec [OF assms, of Map.empty] by (auto simp: slice_at_def)
  then show ?thesis by (simp add: route_groups_send)
qed

lemma Router_notify:
  assumes "None \<notin> set refs"
  shows "Router_Router S r order (EnvelopeNotify from refs notifyType (Some m)) cn =
    send_groups S r (\<lambda>sid. EnvelopeNotify from (refs_of sid refs) notifyType (Some m)) order None cn"
proof -
  obtain groups where "group_refs refs Map.empty = Some groups" "\<And>sid. slice_at groups sid = refs_of sid refs"
    using group_refs_spec [OF assms, of Map.empty] by (auto simp: slice_at_def)
  then show ?thesis by (simp add: route_groups_send)
qed

text \<open>Sending changes connections only.\<close>

lemma doSend_net:
  assumes "doSend S sid msgId data cn = Some (err, cn')"
  shows "\<exists>n. cn' = cn\<lparr>cn_net := n\<rparr>"
proof -
  from assms obtain z :: "go_error \<times> net" and info :: systemInfo where "(case z of (e, n) \<Rightarrow>
      let cn = cn\<lparr>cn_net := n\<rparr> in
      if e \<noteq> None then Some (Some (ErrorCodeMessageSendFail (sy_api S)), cn)
      else if si_passive info \<and> si_cli info = None \<or> \<not> si_passive info \<and> si_session info = None
      then Some (Some (ErrorCodeMessageSendFail (sy_api S)), cn)
      else Some (None, cn)) = Some (err, cn')"
    unfolding doSend_def Option.bind_eq_Some_conv by blast
  then show ?thesis by (cases z) (auto simp: Let_def split: if_splits)
qed

lemma Send_net:
  assumes "Send S sid e cn = Some (err, cn')"
  shows "\<exists>n. cn' = cn\<lparr>cn_net := n\<rparr>"
proof -
  from assms obtain x where x: "Send_pkg (sy_api S) (sy_proto S) (sy_registry S) e = Some x"
    by (auto simp: Send_def)
  have "cn = cn\<lparr>cn_net := cn_net cn\<rparr>" by simp
  then have self: "\<exists>n. cn = cn\<lparr>cn_net := n\<rparr>" by blast
  show ?thesis
  proof (cases x)
    case (Inl code)
    with assms x self show ?thesis by (simp add: Send_def)
  next
    case (Inr m)
    with assms x self show ?thesis
      by (cases m; cases "Marshal_pkg (sy_proto S) (snd m)") (auto simp: Send_def dest: doSend_net)
  qed
qed

lemma Send_routed: "Send S sid e cn = Some (err, cn') \<Longrightarrow> cn_routed cn' = cn_routed cn"
  and Send_infos: "Send S sid e cn = Some (err, cn') \<Longrightarrow> cn_systemInfos cn' = cn_systemInfos cn"
  by (auto dest!: Send_net)

lemma send_groups_routed:
  assumes "send_groups S r envelope order err cn = Some (err', cn')" and "distinct order"
  shows "cn_routed cn' = cn_routed cn @ (if rt_systemId r \<in> set order then [envelope (rt_systemId r)] else [])"
  using assms
proof (induction order arbitrary: err cn)
  case (Cons sid order)
  show ?case
  proof (cases "sid = rt_systemId r")
    case True
    with Cons show ?thesis by (fastforce simp: LocalRouter_def)
  next
    case False
    with Cons.prems obtain e1 cn1 where "Send S sid (envelope sid) cn = Some (e1, cn1)"
        "send_groups S r envelope order e1 cn1 = Some (err', cn')" by auto
    with Cons.IH [of e1 cn1] Cons.prems(2) False show ?thesis by (simp add: Send_routed)
  qed
qed simp

section \<open>Main theorems\<close>

text \<open>
  C23. A batch is split by system. In whatever order the systems of its addressees are visited, each
  addressee is in exactly one group, a group goes out as one batch with the addressees of that
  system in their original order and all the messages, and the local router gets exactly one batch
  with the local addressees, or none if there are none.
\<close>

theorem batch_routed_by_system:
  assumes "None \<notin> set refs" and "distinct order" and "set order = systems_of refs"
    and "Router_Router S r order (EnvelopeBatchSend from refs messages) cn = Some (err, cn')"
  shows "mset (concat (map (\<lambda>sid. refs_of sid refs) order)) = mset refs \<and>
    send_groups S r (\<lambda>sid. EnvelopeBatchSend from (refs_of sid refs) messages) order None cn = Some (err, cn') \<and>
    cn_routed cn' = cn_routed cn @
      (if refs_of (rt_systemId r) refs = [] then []
       else [EnvelopeBatchSend from (refs_of (rt_systemId r) refs) messages])"
proof -
  have "rt_systemId r \<in> systems_of refs \<longleftrightarrow> refs_of (rt_systemId r) refs \<noteq> []"
    by (auto simp: systems_of_def refs_of_def filter_empty_conv)
  moreover note send = assms(4) [unfolded Router_batch [OF assms(1)]]
  ultimately show ?thesis
    using groups_partition [OF assms(1,2)] send_groups_routed [OF send assms(2)] assms(3) by simp
qed

text \<open>The sender of the witnesses: a batch that serializes as \<open>[9]\<close>.\<close>

definition demo_batch :: pkg where
  "demo_batch = PkgEnvelopeBatchSend (ActorRefToProto (demo_ref 1 ''s'')) [ActorRefToProto (demo_ref 2 ''b'')]
     [Some \<lparr>pm_Type = 8, pm_Data = PutUint32 8 @ [65]\<rparr>]"

lemma demo_batch_sent:
  assumes "linked cn 2 0 c" and "\<not> QQueue_IsClose (cs_q c)"
  shows "\<exists>cn' c'. Send (demo_system 1 demo_batch) 2 (EnvelopeBatchSend (demo_ref 1 ''s'') [demo_ref 2 ''b''] [ProtoMsg 2 [65]]) cn =
      Some (None, cn') \<and> linked cn' 2 0 c' \<and> cs_accepted c' = cs_accepted c @ [frame (PkgTypeEnvelopeBatchSend, [9])] \<and>
      cn_systemInfos cn' = cn_systemInfos cn"
proof -
  have m: "MarshalMessage demo_api (demo_proto demo_batch [9]) demo_registry (ProtoMsg 2 [65]) =
      Inr \<lparr>pm_Type = 8, pm_Data = PutUint32 8 @ [65]\<rparr>"
    by (simp add: MarshalMessage_def demo_registry_def demo_proto_def RegisterMessageType_def empty_registry_def)
  have "Send (demo_system 1 demo_batch) 2 (EnvelopeBatchSend (demo_ref 1 ''s'') [demo_ref 2 ''b''] [ProtoMsg 2 [65]]) cn =
      doSend (demo_system 1 demo_batch) 2 PkgTypeEnvelopeBatchSend [9] cn"
    by (simp add: Send_def demo_system_def Let_def m) (simp add: demo_proto_def demo_batch_def)
  moreover have "PkgTypeEnvelopeBatchSend \<le> MaxMsgId" by (simp add: pkg_types MaxMsgId_def)
  ultimately show ?thesis using doSend_open [OF assms, of PkgTypeEnvelopeBatchSend _ "[9]"] by metis
qed

lemma demo_router: "rt_systemId (NewRouter (demo_cluster 1)) = 1"
  by (simp add: NewRouter_def demo_cluster_def)

theorem batch_routed_by_system_witness:
  "\<exists>cn cn'. Router_Router (demo_system 1 demo_batch) (NewRouter (demo_cluster 1)) [2, 1]
       (EnvelopeBatchSend (demo_ref 1 ''s'') [demo_ref 1 ''a'', demo_ref 2 ''b'', demo_ref 1 ''c''] [ProtoMsg 2 [65]]) cn = Some (None, cn') \<and>
     cn_routed cn' = cn_routed cn @ [EnvelopeBatchSend (demo_ref 1 ''s'') [demo_ref 1 ''a'', demo_ref 1 ''c''] [ProtoMsg 2 [65]]]"
proof -
  obtain cn :: "bytes clusterNet" and c where cn: "linked cn 2 0 c" "\<not> QQueue_IsClose (cs_q c)"
    using demo_linked by blast
  obtain cn1 where s: "Send (demo_system 1 demo_batch) 2
      (EnvelopeBatchSend (demo_ref 1 ''s'') [demo_ref 2 ''b''] [ProtoMsg 2 [65]]) cn = Some (None, cn1)"
    using demo_batch_sent [OF cn] by blast
  let ?refs = "[demo_ref 1 ''a'', demo_ref 2 ''b'', demo_ref 1 ''c'']"
  have refs: "None \<notin> set ?refs" "systems_of ?refs = {1, 2}" "refs_of 2 ?refs = [demo_ref 2 ''b'']"
      "refs_of 1 ?refs = [demo_ref 1 ''a'', demo_ref 1 ''c'']"
    by (auto simp: demo_ref_def systems_of_def refs_of_def GetSystemId_def)
  obtain cn' where r: "Router_Router (demo_system 1 demo_batch) (NewRouter (demo_cluster 1)) [2, 1]
       (EnvelopeBatchSend (demo_ref 1 ''s'') ?refs [ProtoMsg 2 [65]]) cn = Some (None, cn')"
    unfolding Router_batch [OF refs(1)] by (simp add: refs s demo_router)
  have o: "distinct [2, 1 :: int]" "set [2, 1 :: int] = systems_of ?refs" using refs(2) by auto
  from batch_routed_by_system [OF refs(1) o r]
  have "cn_routed cn' = cn_routed cn @ [EnvelopeBatchSend (demo_ref 1 ''s'') [demo_ref 1 ''a'', demo_ref 1 ''c''] [ProtoMsg 2 [65]]]"
    by (simp add: refs demo_router)
  with r show ?thesis by blast
qed

text \<open>
  C24. A failed send can go unreported: of two remote groups, where the first system has no link and
  the second one's send succeeds, visiting the failing system first returns no error, visiting it
  last returns \<open>ErrorCodeMessageSendFail\<close>. Which of the two happens is up to Go's map order.
\<close>

theorem batch_error_depends_on_order:
  assumes "None \<notin> set refs" and "sid1 \<noteq> sid2" and "sid1 \<noteq> rt_systemId r" and "sid2 \<noteq> rt_systemId r"
    and "cn_systemInfos cn sid1 \<noteq> None" and "link cn sid1 = None"
    and "Send_pkg (sy_api S) (sy_proto S) (sy_registry S) (EnvelopeBatchSend from (refs_of sid1 refs) messages) = Some (Inr (k, pkg))"
    and "Marshal_pkg (sy_proto S) pkg = Some data"
    and "linked cn sid2 a c" and "Send S sid2 (EnvelopeBatchSend from (refs_of sid2 refs) messages) cn = Some (None, cn2)"
  shows "\<exists>cn'. Router_Router S r [sid1, sid2] (EnvelopeBatchSend from refs messages) cn = Some (None, cn') \<and>
    Router_Router S r [sid2, sid1] (EnvelopeBatchSend from refs messages) cn =
      Some (Some (ErrorCodeMessageSendFail (sy_api S)), cn')"
proof -
  obtain info where info: "cn_systemInfos cn sid1 = Some info" using assms(5) by auto
  have fail: "Send S sid1 (EnvelopeBatchSend from (refs_of sid1 refs) messages) x =
      Some (Some (ErrorCodeMessageSendFail (sy_api S)), x)"
    if "cn_systemInfos x sid1 = Some info" "link x sid1 = None" for x
    using that doSend_unlinked [OF that] assms(7,8) by (simp add: Send_def del: Send_pkg.simps)
  have "cn_systemInfos cn2 = cn_systemInfos cn" using Send_infos [OF assms(10)] .
  with fail [OF info assms(6)] fail [of cn2] info assms(2-4,6,10) show ?thesis
    by (simp add: Router_batch [OF assms(1)] link_def del: Router_Router.simps)
qed

theorem batch_error_depends_on_order_witness:
  "\<exists>S cn cn' cn''. Router_Router S (NewRouter (demo_cluster 1)) [3, 2]
       (EnvelopeBatchSend (demo_ref 1 ''s'') [demo_ref 3 ''a'', demo_ref 2 ''b''] [ProtoMsg 2 [65 :: u8]]) cn = Some (None, cn') \<and>
     Router_Router S (NewRouter (demo_cluster 1)) [2, 3]
       (EnvelopeBatchSend (demo_ref 1 ''s'') [demo_ref 3 ''a'', demo_ref 2 ''b''] [ProtoMsg 2 [65]]) cn =
       Some (Some (ErrorCodeMessageSendFail (sy_api S)), cn'')"
proof -
  let ?P = "(demo_proto demo_batch [9])\<lparr>Marshal_pkg := \<lambda>_. Some [9]\<rparr>"
  let ?S = "(demo_system 1 demo_batch)\<lparr>sy_proto := ?P\<rparr>"
  let ?refs = "[demo_ref 3 ''a'', demo_ref 2 ''b'']" and ?m = "ProtoMsg 2 [65]"
  obtain cn :: "bytes clusterNet" and c where cn: "linked cn 2 0 c" "\<not> QQueue_IsClose (cs_q c)"
      "cn_systemInfos cn 3 \<noteq> None" "link cn 3 = None"
    using demo_linked by blast
  have refs: "None \<notin> set ?refs" by (simp add: demo_ref_def)
  have m: "MarshalMessage demo_api ?P demo_registry ?m = Inr \<lparr>pm_Type = 8, pm_Data = PutUint32 8 @ [65]\<rparr>"
    by (simp add: MarshalMessage_def demo_registry_def demo_proto_def RegisterMessageType_def empty_registry_def)
  have pkg: "\<exists>pkg. Send_pkg demo_api ?P demo_registry (EnvelopeBatchSend f ts [?m]) = Some (Inr (PkgTypeEnvelopeBatchSend, pkg))" for f ts
    by (simp add: Let_def m)
  then obtain pkg1 pkg2 where p:
      "Send_pkg demo_api ?P demo_registry (EnvelopeBatchSend (demo_ref 1 ''s'') (refs_of 3 ?refs) [?m]) = Some (Inr (PkgTypeEnvelopeBatchSend, pkg1))"
      "Send_pkg demo_api ?P demo_registry (EnvelopeBatchSend (demo_ref 1 ''s'') (refs_of 2 ?refs) [?m]) = Some (Inr (PkgTypeEnvelopeBatchSend, pkg2))"
    by blast
  have byte: "PkgTypeEnvelopeBatchSend \<le> MaxMsgId" by (simp add: pkg_types MaxMsgId_def)
  have s2: "Send ?S 2 (EnvelopeBatchSend (demo_ref 1 ''s'') (refs_of 2 ?refs) [?m]) cn =
      doSend ?S 2 PkgTypeEnvelopeBatchSend [9] cn"
    using p(2) by (simp add: Send_def demo_system_def del: Send_pkg.simps)
  obtain cn2 where send: "Send ?S 2 (EnvelopeBatchSend (demo_ref 1 ''s'') (refs_of 2 ?refs) [?m]) cn = Some (None, cn2)"
    unfolding s2 using doSend_open [OF cn(1,2) byte, of ?S "[9]"] by blast
  have marshal: "Marshal_pkg (sy_proto ?S) pkg1 = Some [9]" by simp
  have build: "Send_pkg (sy_api ?S) (sy_proto ?S) (sy_registry ?S) (EnvelopeBatchSend (demo_ref 1 ''s'') (refs_of 3 ?refs) [?m]) =
      Some (Inr (PkgTypeEnvelopeBatchSend, pkg1))"
    using p(1) by (simp add: demo_system_def del: Send_pkg.simps)
  have "(3 :: int) \<noteq> 2" "3 \<noteq> rt_systemId (NewRouter (demo_cluster 1))" "2 \<noteq> rt_systemId (NewRouter (demo_cluster 1))"
    by (simp_all add: demo_router)
  from batch_error_depends_on_order [OF refs this cn(3,4) build marshal cn(1) send] show ?thesis by blast
qed

text \<open>
  C25. A watch on a remote actor by an ordinary local actor does not touch the network: the local
  router gets one \<open>InnerWatch\<close> message with the watch type and flag, from the watcher, addressed to a
  watch proxy on the local system, and that proxy will recover the watchee's type and id from its
  own actor id. The proxy's own watch, and only that, goes out over the network unchanged.
\<close>

theorem remote_watch_goes_to_proxy:
  assumes "ar_SystemId t \<noteq> rt_systemId r" and "rt_systemId r \<noteq> 0"
    and "0 \<le> ar_ActorType t" and "ar_ActorType t < 2 ^ 32" and "has_type (ActorType_t (sy_api S)) (ar_ActorType t)"
  shows "if ar_ActorType f = WatchProxyActorType (sy_api S)
    then Router_Router S r order (EnvelopeWatch (Some f) (Some t) w b) cn =
           Send S (ar_SystemId t) (EnvelopeWatch (Some f) (Some t) w b) cn
    else \<exists>proxy. Router_Router S r order (EnvelopeWatch (Some f) (Some t) w b) cn =
           Some (None, cn\<lparr>cn_routed := cn_routed cn @ [EnvelopeSend (Some f) (Some proxy) (InnerWatch w b)]\<rparr>) \<and>
         ar_SystemId proxy = rt_systemId r \<and> ar_ActorType proxy = WatchProxyActorType (sy_api S) \<and>
         GetWatcheeActorRef (sy_api S) create (ar_ActorId proxy) = map_option Some (create (ar_ActorType t) (ar_ActorId t))"
  using assms GetWatcheeActorRef_proxy_id [OF assms(3-5), of create]
  by (auto simp: GetSystemId_def LocalRouter_def GetWatchProxyActorRef_def CreateActorRefEx_eq)

theorem remote_watch_goes_to_proxy_witness:
  "\<exists>proxy cn. Router_Router (demo_system 1 demo_batch) (NewRouter (demo_cluster 1)) []
       (EnvelopeWatch (demo_ref 1 ''w'') (demo_ref 2 ''a-b'') 3 True) (NewClusterNet (demo_cluster 1)) =
       Some (None, cn) \<and>
     cn_routed cn = [EnvelopeSend (demo_ref 1 ''w'') (Some proxy) (InnerWatch 3 True)] \<and> ar_SystemId proxy = 1"
proof -
  let ?r = "\<lambda>sid i. \<lparr>ar_SystemId = sid, ar_GroupSlot = 1, ar_ActorType = 20, ar_ActorId = i\<rparr>"
  let ?cn = "NewClusterNet (demo_cluster 1) :: bytes clusterNet"
  have "cn_routed ?cn = []" by (simp add: NewClusterNet_def case_prod_beta)
  moreover have "\<exists>proxy. Router_Router (demo_system 1 demo_batch) (NewRouter (demo_cluster 1)) []
      (EnvelopeWatch (Some (?r 1 ''w'')) (Some (?r 2 ''a-b'')) 3 True) ?cn =
      Some (None, ?cn\<lparr>cn_routed := cn_routed ?cn @ [EnvelopeSend (Some (?r 1 ''w'')) (Some proxy) (InnerWatch 3 True)]\<rparr>) \<and>
      ar_SystemId proxy = 1"
    using remote_watch_goes_to_proxy [of "?r 2 ''a-b''" "NewRouter (demo_cluster 1)" "demo_system 1 demo_batch"
      "?r 1 ''w''" "[]" 3 True ?cn]
    by (auto simp: demo_router demo_system_def demo_api_def has_type_def WatchProxyActorType_def simp del: Router_Router.simps)
  ultimately show ?thesis unfolding demo_ref_def by (auto simp del: Router_Router.simps)
qed

end
