(* ===== verification/Registration.thy ===== *)
theory Registration
  imports Cluster_Net
begin

text \<open>
  How nodes connect: the server side of the registration (\<open>cluster_server.go\<close>), the client goroutine
  (\<open>cluster_client.go\<close>), and the node they make up with the goroutines of their connections, as a
  step relation. A step is what runs between two points where another goroutine can interfere: a
  critical section of the info's lock, an operation on a channel, a message handler.
\<close>

section \<open>The server\<close>

definition upd_info :: "int \<Rightarrow> (systemInfo \<Rightarrow> systemInfo) \<Rightarrow> 'p clusterNet \<Rightarrow> 'p clusterNet" where
  "upd_info sid f cn =
     (case cn_systemInfos cn sid of
        None \<Rightarrow> cn
      | Some info \<Rightarrow> cn\<lparr>cn_systemInfos := (cn_systemInfos cn)(sid \<mapsto> f info)\<rparr>)"

definition add_connected :: "int \<Rightarrow> 'p clusterNet \<Rightarrow> 'p clusterNet" where
  "add_connected k cn = cn\<lparr>cn_connectedSystemCount := cn_connectedSystemCount cn + k\<rparr>"

text \<open>\<open>clusterServer.OnDisconnect\<close> for the session at \<open>a\<close>.\<close>

definition svr_OnDisconnect :: "nat \<Rightarrow> 'p clusterNet \<Rightarrow> 'p clusterNet option" where
  "svr_OnDisconnect a cn = do {
     bind \<leftarrow> GetBindObject a (cn_net cn);
     case bind of
       None \<Rightarrow> Some cn
     | Some sid \<Rightarrow> do {
         info \<leftarrow> cn_systemInfos cn sid;
         if si_session info \<noteq> Some a then Some cn
         else do {
           n \<leftarrow> SetBindObject a None (cn_net cn);
           let cn = upd_info sid (\<lambda>info. info\<lparr>si_session := None\<rparr>) (cn\<lparr>cn_net := n\<rparr>);
           Some (add_connected (-1) cn) } } }"

text \<open>
  The registration request: \<open>sid\<close> is the request's system id, converted. The deferred unlock and the
  ignored result of \<open>SendMessage\<close> leave no trace. If the response cannot be marshalled the error is
  returned with the registration done.
\<close>

definition svr_register :: "'p system \<Rightarrow> nat \<Rightarrow> int \<Rightarrow> 'p clusterNet \<Rightarrow> (go_error \<times> 'p clusterNet) option" where
  "svr_register S a sid cn =
     (case cn_systemInfos cn sid of
        None \<Rightarrow> Some (Some ''can not find systemId'', cn)
      | Some info \<Rightarrow>
          if si_passive info then Some (Some ''systemId is passive'', cn)
          else if si_session info \<noteq> None then Some (Some ''systemId alreay register'', cn)
          else do {
            n \<leftarrow> SetBindObject a (Some sid) (cn_net cn);
            let cn = add_connected 1 (upd_info sid (\<lambda>info. info\<lparr>si_session := Some a\<rparr>) (cn\<lparr>cn_net := n\<rparr>));
            case Marshal_pkg (sy_proto S) (PkgRegisterSystemRsp ErrorCodeSuccess) of
              None \<Rightarrow> Some (Some ''marshal'', cn)
            | Some data \<Rightarrow> do {
                (_, n) \<leftarrow> net_SendMessage a PkgTypeRegisterSystemRsp data (cn_net cn);
                Some (None, cn\<lparr>cn_net := n\<rparr>) } })"

definition svr_OnMessage ::
  "'p system \<Rightarrow> nat \<Rightarrow> u32 \<Rightarrow> bytes \<Rightarrow> 'p clusterNet \<Rightarrow> (go_error \<times> 'p clusterNet) option" where
  "svr_OnMessage S a msgId data cn =
     (if msgId = PkgTypeRegisterSystemReq then
        (case Unmarshal_pkg (sy_proto S) msgId data of
           Some (PkgRegisterSystemReq systemId) \<Rightarrow>
             svr_register S a (go_conv (SystemId_t (sy_api S)) (uint systemId)) cn
         | _ \<Rightarrow> Some (Some ''unmarshal'', cn))
      else cn_OnMessage S msgId data cn)"

text \<open>The closure \<open>NewServer\<close> installs: an error closes the session.\<close>

definition svr_handle ::
  "'p system \<Rightarrow> nat \<Rightarrow> u32 \<Rightarrow> bytes \<Rightarrow> 'p clusterNet \<Rightarrow> (go_error \<times> 'p clusterNet) option" where
  "svr_handle S a msgId data cn = do {
     (err, cn) \<leftarrow> svr_OnMessage S a msgId data cn;
     if err \<noteq> None then do {
       (_, n) \<leftarrow> Session_Close a (cn_net cn);
       Some (err, cn\<lparr>cn_net := n\<rparr>) }
     else Some (err, cn) }"

text \<open>The connection's disconnect callback: \<open>OnDisconnect\<close>, then \<open>RemoveSession\<close>.\<close>

definition svr_disconnected :: "nat \<Rightarrow> 'p clusterNet \<Rightarrow> 'p clusterNet option" where
  "svr_disconnected a cn = do {
     cn \<leftarrow> svr_OnDisconnect a cn;
     s \<leftarrow> nt_sessions (cn_net cn) a;
     Some (cn\<lparr>cn_net := (cn_net cn)\<lparr>nt_mgr := RemoveSession (ns_id s) (nt_mgr (cn_net cn))\<rparr>\<rparr>) }"

section \<open>The client\<close>

text \<open>
  Where the goroutine of \<open>clusterClient.Start\<close> stands: about to dial, about to send the request,
  at the \<open>select\<close>, about to set \<open>info.cli\<close>, about to count, waiting for the disconnect, about to
  clear \<open>info.cli\<close>, about to uncount. The sleeps between attempts are not modelled.
\<close>

datatype client_pc = CDial | CRegister | CSelect | CSetCli | CCount | CReady | CClear | CUncount

text \<open>The two channels have capacity 1: empty or one value.\<close>

record clusterClient =
  cl_cli :: "nat option"
  cl_disconnectChan :: "bool option"
  cl_registerResponseChan :: "bool option"
  cl_pc :: client_pc

definition NewClusterClient :: clusterClient where
  "NewClusterClient = \<lparr>cl_cli = None, cl_disconnectChan = None, cl_registerResponseChan = None, cl_pc = CDial\<rparr>"

section \<open>The node\<close>

record 'p node =
  nd_cn :: "'p clusterNet"
  nd_clients :: "int \<rightharpoonup> clusterClient"
  nd_handling :: "nat set"  \<comment> \<open>connections whose receiver is inside \<open>onDataFunc\<close>\<close>

abbreviation nd_conns :: "'p node \<Rightarrow> nat \<rightharpoonup> ConnSocket" where
  "nd_conns nd \<equiv> nt_conns (cn_net (nd_cn nd))"

definition set_net :: "net \<Rightarrow> 'p node \<Rightarrow> 'p node" where
  "set_net n nd = nd\<lparr>nd_cn := (nd_cn nd)\<lparr>cn_net := n\<rparr>\<rparr>"

definition set_conn :: "nat \<Rightarrow> ConnSocket \<Rightarrow> 'p node \<Rightarrow> 'p node" where
  "set_conn a c nd = set_net ((cn_net (nd_cn nd))\<lparr>nt_conns := (nd_conns nd)(a \<mapsto> c)\<rparr>) nd"

definition set_splitter :: "nat \<Rightarrow> PacketSplitter \<Rightarrow> 'p node \<Rightarrow> 'p node" where
  "set_splitter a p nd =
     set_net ((cn_net (nd_cn nd))\<lparr>nt_splitters := (nt_splitters (cn_net (nd_cn nd)))(a := p)\<rparr>) nd"

definition set_client :: "int \<Rightarrow> clusterClient \<Rightarrow> 'p node \<Rightarrow> 'p node" where
  "set_client sid cl nd = nd\<lparr>nd_clients := (nd_clients nd)(sid \<mapsto> cl)\<rparr>"

text \<open>
  One iteration of the client goroutine's loop, step by step. A failed dial leaves a client that
  nothing refers to any more. \<open>SendMessage\<close> failing (the queue was closed in between) and a negative
  response disconnect and start over.
\<close>

inductive client_step :: "'p system \<Rightarrow> int \<Rightarrow> clusterClient \<Rightarrow> 'p node \<Rightarrow> 'p node \<Rightarrow> bool" for S sid cl nd where
  dial_failed: "cl_pc cl = CDial \<Longrightarrow>
    client_step S sid cl nd (set_client sid (cl\<lparr>cl_disconnectChan := None, cl_cli := None\<rparr>) nd)"
| dialled: "cl_pc cl = CDial \<Longrightarrow> nd_conns nd a = None \<Longrightarrow> dial_conn a sid (cn_net (nd_cn nd)) = Some n \<Longrightarrow>
    client_step S sid cl nd
      (set_client sid (cl\<lparr>cl_disconnectChan := None, cl_cli := Some a, cl_pc := CRegister\<rparr>) (set_net n nd))"
| request_sent: "cl_pc cl = CRegister \<Longrightarrow> cl_cli cl = Some a \<Longrightarrow>
    net_SendMessage a PkgTypeRegisterSystemReq
      (case Marshal_pkg (sy_proto S) (PkgRegisterSystemReq (to_u32 (cc_LocalSystemId (sy_config S)))) of
         None \<Rightarrow> [] | Some data \<Rightarrow> data)
      (cn_net (nd_cn nd)) = Some (None, n) \<Longrightarrow>
    client_step S sid cl nd (set_client sid (cl\<lparr>cl_pc := CSelect\<rparr>) (set_net n nd))"
| request_failed: "cl_pc cl = CRegister \<Longrightarrow> cl_cli cl = Some a \<Longrightarrow>
    net_SendMessage a PkgTypeRegisterSystemReq
      (case Marshal_pkg (sy_proto S) (PkgRegisterSystemReq (to_u32 (cc_LocalSystemId (sy_config S)))) of
         None \<Rightarrow> [] | Some data \<Rightarrow> data)
      (cn_net (nd_cn nd)) = Some (Some err, n) \<Longrightarrow> net_Disconnect a n = Some (derr, n') \<Longrightarrow>
    client_step S sid cl nd (set_client sid (cl\<lparr>cl_pc := CDial\<rparr>) (set_net n' nd))"
| select_disconnect: "cl_pc cl = CSelect \<Longrightarrow> cl_disconnectChan cl = Some b \<Longrightarrow>
    client_step S sid cl nd (set_client sid (cl\<lparr>cl_disconnectChan := None, cl_pc := CDial\<rparr>) nd)"
| select_refused: "cl_pc cl = CSelect \<Longrightarrow> cl_registerResponseChan cl = Some False \<Longrightarrow> cl_cli cl = Some a \<Longrightarrow>
    net_Disconnect a (cn_net (nd_cn nd)) = Some (derr, n) \<Longrightarrow>
    client_step S sid cl nd (set_client sid (cl\<lparr>cl_registerResponseChan := None, cl_pc := CDial\<rparr>) (set_net n nd))"
| select_accepted: "cl_pc cl = CSelect \<Longrightarrow> cl_registerResponseChan cl = Some True \<Longrightarrow>
    client_step S sid cl nd (set_client sid (cl\<lparr>cl_registerResponseChan := None, cl_pc := CSetCli\<rparr>) nd)"
| set_cli: "cl_pc cl = CSetCli \<Longrightarrow>
    client_step S sid cl nd (set_client sid (cl\<lparr>cl_pc := CCount\<rparr>)
      (nd\<lparr>nd_cn := upd_info sid (\<lambda>info. info\<lparr>si_cli := cl_cli cl\<rparr>) (nd_cn nd)\<rparr>))"
| count: "cl_pc cl = CCount \<Longrightarrow>
    client_step S sid cl nd (set_client sid (cl\<lparr>cl_pc := CReady\<rparr>) (nd\<lparr>nd_cn := add_connected 1 (nd_cn nd)\<rparr>))"
| disconnected: "cl_pc cl = CReady \<Longrightarrow> cl_disconnectChan cl = Some b \<Longrightarrow>
    client_step S sid cl nd (set_client sid (cl\<lparr>cl_disconnectChan := None, cl_pc := CClear\<rparr>) nd)"
| clear_cli: "cl_pc cl = CClear \<Longrightarrow>
    client_step S sid cl nd (set_client sid (cl\<lparr>cl_cli := None, cl_pc := CUncount\<rparr>)
      (nd\<lparr>nd_cn := upd_info sid (\<lambda>info. info\<lparr>si_cli := None\<rparr>) (nd_cn nd)\<rparr>))"
| uncount: "cl_pc cl = CUncount \<Longrightarrow>
    client_step S sid cl nd (set_client sid (cl\<lparr>cl_pc := CDial\<rparr>) (nd\<lparr>nd_cn := add_connected (-1) (nd_cn nd)\<rparr>))"

text \<open>
  The client's message handler. Writing to the response channel blocks while it is full: then there
  is no next state yet. An error of \<open>cn.OnMessage\<close> is returned and ignored by the receiver's loop.
\<close>

definition cli_handle :: "'p system \<Rightarrow> int \<Rightarrow> u32 \<Rightarrow> bytes \<Rightarrow> 'p node \<Rightarrow> 'p node option" where
  "cli_handle S sid msgId data nd =
     (if msgId = PkgTypeRegisterSystemRsp then do {
        cl \<leftarrow> nd_clients nd sid;
        let succ = (case Unmarshal_pkg (sy_proto S) msgId data of
                      Some (PkgRegisterSystemRsp code) \<Rightarrow> code = ErrorCodeSuccess
                    | _ \<Rightarrow> False);
        if cl_registerResponseChan cl = None
        then Some (set_client sid (cl\<lparr>cl_registerResponseChan := Some succ\<rparr>) nd)
        else None }
      else do {
        (err, cn) \<leftarrow> cn_OnMessage S msgId data (nd_cn nd);
        Some (nd\<lparr>nd_cn := cn\<rparr>) })"

section \<open>Steps of the node\<close>

text \<open>
  The receiver of a connection hands a chunk to \<open>onDataFunc\<close>, which appends it and then handles one
  frame after the other; between two frames other goroutines run. A panic anywhere ends the node.
\<close>

inductive node_step :: "'p system \<Rightarrow> 'p node \<Rightarrow> 'p node \<Rightarrow> bool" for S nd where
  accept: "starts_server (nd_cn nd) \<Longrightarrow> nd_conns nd a = None \<Longrightarrow> accept_conn a (cn_net (nd_cn nd)) = Some n \<Longrightarrow> node_step S nd (set_net n nd)"
| sender: "nd_conns nd a = Some c \<Longrightarrow> sender_step c c' \<Longrightarrow> node_step S nd (set_conn a c' nd)"
| chunk: "nd_conns nd a = Some c \<Longrightarrow> cs_receiver c = RRead \<Longrightarrow> a \<notin> nd_handling nd \<Longrightarrow>
    node_step S nd ((set_splitter a (Append ch (nt_splitters (cn_net (nd_cn nd)) a))
      (set_conn a (c\<lparr>cs_read := cs_read c @ [ch]\<rparr>) nd))\<lparr>nd_handling := insert a (nd_handling nd)\<rparr>)"
| frame_session: "a \<in> nd_handling nd \<Longrightarrow> nt_sessions (cn_net (nd_cn nd)) a = Some s \<Longrightarrow>
    Next (nt_splitters (cn_net (nd_cn nd)) a) = Some ((msgId, payload, True), p) \<Longrightarrow>
    svr_handle S a msgId payload (nd_cn (set_splitter a p nd)) = Some (err, cn) \<Longrightarrow>
    node_step S nd (nd\<lparr>nd_cn := cn\<rparr>)"
| frame_client: "a \<in> nd_handling nd \<Longrightarrow> nt_clients (cn_net (nd_cn nd)) a = Some sid \<Longrightarrow>
    Next (nt_splitters (cn_net (nd_cn nd)) a) = Some ((msgId, payload, True), p) \<Longrightarrow>
    cli_handle S sid msgId payload (set_splitter a p nd) = Some nd' \<Longrightarrow>
    node_step S nd nd'"
| frames_done: "a \<in> nd_handling nd \<Longrightarrow>
    Next (nt_splitters (cn_net (nd_cn nd)) a) = Some ((msgId, payload, False), p) \<Longrightarrow>
    node_step S nd ((set_splitter a p nd)\<lparr>nd_handling := nd_handling nd - {a}\<rparr>)"
| receiver: "nd_conns nd a = Some c \<Longrightarrow> a \<notin> nd_handling nd \<Longrightarrow> cs_receiver c \<noteq> RCallback \<Longrightarrow>
    receiver_step c c' \<Longrightarrow> cs_read c' = cs_read c \<Longrightarrow>
    node_step S nd (set_conn a c' nd)"
| lost_session: "nd_conns nd a = Some c \<Longrightarrow> cs_receiver c = RCallback \<Longrightarrow>
    nt_sessions (cn_net (nd_cn nd)) a = Some s \<Longrightarrow>
    svr_disconnected a (nd_cn (set_conn a (c\<lparr>cs_callbacks := cs_callbacks c + 1, cs_receiver := RReturned\<rparr>) nd)) = Some cn \<Longrightarrow>
    node_step S nd (nd\<lparr>nd_cn := cn\<rparr>)"
| lost_client: "nd_conns nd a = Some c \<Longrightarrow> cs_receiver c = RCallback \<Longrightarrow>
    nt_clients (cn_net (nd_cn nd)) a = Some sid \<Longrightarrow> nd_clients nd sid = Some cl \<Longrightarrow> cl_disconnectChan cl = None \<Longrightarrow>
    node_step S nd (set_client sid (cl\<lparr>cl_disconnectChan := Some True\<rparr>)
      (set_conn a (c\<lparr>cs_callbacks := cs_callbacks c + 1, cs_receiver := RReturned\<rparr>) nd))"
| client: "nd_clients nd sid = Some cl \<Longrightarrow> client_step S sid cl nd nd' \<Longrightarrow> node_step S nd nd'"
| send: "Send S sid e (nd_cn nd) = Some (err, cn) \<Longrightarrow> node_step S nd (nd\<lparr>nd_cn := cn\<rparr>)"

text \<open>The node after the synchronous part of \<open>start\<close>.\<close>

definition started_node :: "'p system \<Rightarrow> 'p node option" where
  "started_node S = do {
     ((server, clients), cn) \<leftarrow> start_net S (NewClusterNet (sy_config S));
     Some \<lparr>nd_cn = cn, nd_clients = (\<lambda>sid. if sid \<in> set clients then Some NewClusterClient else None),
           nd_handling = {}\<rparr> }"

inductive node_reachable :: "'p system \<Rightarrow> 'p node \<Rightarrow> bool" for S where
  started: "started_node S = Some nd \<Longrightarrow> node_reachable S nd"
| step: "node_reachable S nd \<Longrightarrow> node_step S nd nd' \<Longrightarrow> node_reachable S nd'"

inductive_cases node_stepE: "node_step S nd nd'"
inductive_cases client_stepE: "client_step S sid cl nd nd'"

section \<open>The counter\<close>

text \<open>
  Whether a client counts as connected, and what it has stored in \<open>info.cli\<close>.
\<close>

definition counted :: "clusterClient \<Rightarrow> bool" where
  "counted cl \<longleftrightarrow> cl_pc cl \<in> {CReady, CClear, CUncount}"

definition stored_cli :: "clusterClient \<Rightarrow> nat option" where
  "stored_cli cl = (if cl_pc cl \<in> {CCount, CReady, CClear} then cl_cli cl else None)"

definition client_ok :: "clusterClient \<Rightarrow> bool" where
  "client_ok cl \<longleftrightarrow> (cl_pc cl \<notin> {CDial, CUncount} \<longrightarrow> cl_cli cl \<noteq> None)"

definition bound_systems :: "(int \<rightharpoonup> systemInfo) \<Rightarrow> int set" where
  "bound_systems infos = {sid. \<exists>info. infos sid = Some info \<and> si_session info \<noteq> None}"

definition counted_clients :: "(int \<rightharpoonup> clusterClient) \<Rightarrow> int set" where
  "counted_clients clients = {sid. \<exists>cl. clients sid = Some cl \<and> counted cl}"

text \<open>
  Sessions are bound at non-passive systems only, a client exists only for a passive one and
  agrees with what the info stores, and the counter is one for the node itself plus the systems
  with a session plus the clients that are connected.
\<close>

definition reg_inv :: "(int \<rightharpoonup> systemInfo) \<Rightarrow> int \<Rightarrow> (int \<rightharpoonup> clusterClient) \<Rightarrow> bool" where
  "reg_inv infos n clients \<longleftrightarrow> finite (dom infos) \<and>
     (\<forall>sid info. infos sid = Some info \<longrightarrow> (si_passive info \<longrightarrow> si_session info = None) \<and>
        si_cli info = (case clients sid of None \<Rightarrow> None | Some cl \<Rightarrow> stored_cli cl)) \<and>
     (\<forall>sid cl. clients sid = Some cl \<longrightarrow> client_ok cl \<and> (\<exists>info. infos sid = Some info \<and> si_passive info)) \<and>
     n = 1 + int (card (bound_systems infos)) + int (card (counted_clients clients))"

lemma reg_inv_finite:
  assumes "reg_inv infos n clients"
  shows "finite (bound_systems infos)" and "finite (counted_clients clients)"
proof -
  have "bound_systems infos \<subseteq> dom infos" by (auto simp: bound_systems_def)
  moreover have "counted_clients clients \<subseteq> dom infos"
    using assms by (fastforce simp: counted_clients_def reg_inv_def)
  ultimately show "finite (bound_systems infos)" and "finite (counted_clients clients)"
    using assms by (auto simp: reg_inv_def intro: finite_subset)
qed

lemma bound_systems_upd:
  "bound_systems (infos(sid \<mapsto> info)) =
     (if si_session info \<noteq> None then insert sid (bound_systems infos) else bound_systems infos - {sid})"
  by (auto simp: bound_systems_def)

lemma counted_clients_upd:
  "counted_clients (clients(sid \<mapsto> cl)) =
     (if counted cl then insert sid (counted_clients clients) else counted_clients clients - {sid})"
  by (auto simp: counted_clients_def)

lemma reg_invI:
  assumes "finite (dom infos)"
    and "\<And>s i. infos s = Some i \<Longrightarrow> si_passive i \<Longrightarrow> si_session i = None"
    and "\<And>s i. infos s = Some i \<Longrightarrow> si_cli i = (case clients s of None \<Rightarrow> None | Some cl \<Rightarrow> stored_cli cl)"
    and "\<And>s c. clients s = Some c \<Longrightarrow> client_ok c"
    and "\<And>s c. clients s = Some c \<Longrightarrow> \<exists>i. infos s = Some i \<and> si_passive i"
    and "n = 1 + int (card (bound_systems infos)) + int (card (counted_clients clients))"
  shows "reg_inv infos n clients"
  using assms unfolding reg_inv_def by blast

lemma reg_invD:
  assumes "reg_inv infos n clients"
  shows "finite (dom infos)"
    and "infos s = Some i \<Longrightarrow> si_passive i \<Longrightarrow> si_session i = None"
    and "infos s = Some i \<Longrightarrow> si_cli i = (case clients s of None \<Rightarrow> None | Some cl \<Rightarrow> stored_cli cl)"
    and "clients s = Some c \<Longrightarrow> client_ok c"
    and "clients s = Some c \<Longrightarrow> \<exists>i. infos s = Some i \<and> si_passive i"
    and "n = 1 + int (card (bound_systems infos)) + int (card (counted_clients clients))"
  using assms unfolding reg_inv_def by blast+

lemma card_remove_int: "finite A \<Longrightarrow> x \<in> A \<Longrightarrow> int (card (A - {x})) = int (card A) - 1"
  by (metis card_Suc_Diff1 add_diff_cancel_left' of_nat_Suc)

text \<open>Changing the session of a non-passive system, and the counter with it.\<close>

lemma reg_session:
  assumes inv: "reg_inv infos n clients" and "infos sid = Some info" and "\<not> si_passive info"
    and "n' = n + of_bool (s \<noteq> None) - of_bool (si_session info \<noteq> None)"
  shows "reg_inv (infos(sid \<mapsto> info\<lparr>si_session := s\<rparr>)) n' clients"
proof (rule reg_invI)
  show "n' = 1 + int (card (bound_systems (infos(sid \<mapsto> info\<lparr>si_session := s\<rparr>)))) + int (card (counted_clients clients))"
  proof -
    have "sid \<in> bound_systems infos \<longleftrightarrow> si_session info \<noteq> None" using assms(2) by (auto simp: bound_systems_def)
    with card_remove_int [OF reg_inv_finite(1) [OF inv], of sid] reg_inv_finite(1) [OF inv]
    have "int (card (bound_systems (infos(sid \<mapsto> info\<lparr>si_session := s\<rparr>)))) =
        int (card (bound_systems infos)) + of_bool (s \<noteq> None) - of_bool (si_session info \<noteq> None)"
      by (auto simp: bound_systems_upd insert_absorb)
    with reg_invD(6) [OF inv] assms(4) show ?thesis by simp
  qed
  show "si_cli i = (case clients s' of None \<Rightarrow> None | Some cl \<Rightarrow> stored_cli cl)"
    if "(infos(sid \<mapsto> info\<lparr>si_session := s\<rparr>)) s' = Some i" for s' i
    using that reg_invD(3) [OF inv, of s'] assms(2) by (auto split: if_splits)
  show "\<exists>i. (infos(sid \<mapsto> info\<lparr>si_session := s\<rparr>)) s' = Some i \<and> si_passive i" if "clients s' = Some c" for s' c
    using reg_invD(5) [OF inv that] assms(2,3) by auto
qed (use reg_invD [OF inv] assms(2,3) in \<open>auto split: if_splits\<close>)

text \<open>Changing a client, what the info stores for it, and the counter.\<close>

lemma reg_client:
  assumes inv: "reg_inv infos n clients" and "clients sid = Some cl" and "client_ok cl'" and "infos sid = Some info"
    and "n' = n + of_bool (counted cl') - of_bool (counted cl)"
  shows "reg_inv (infos(sid \<mapsto> info\<lparr>si_cli := stored_cli cl'\<rparr>)) n' (clients(sid \<mapsto> cl'))"
proof (rule reg_invI)
  have "bound_systems (infos(sid \<mapsto> info\<lparr>si_cli := stored_cli cl'\<rparr>)) = bound_systems infos"
    using assms(4) by (auto simp: bound_systems_def)
  moreover have "sid \<in> counted_clients clients \<longleftrightarrow> counted cl" using assms(2) by (simp add: counted_clients_def)
  with card_remove_int [OF reg_inv_finite(2) [OF inv], of sid] reg_inv_finite(2) [OF inv]
  have "int (card (counted_clients (clients(sid \<mapsto> cl')))) =
      int (card (counted_clients clients)) + of_bool (counted cl') - of_bool (counted cl)"
    by (auto simp: counted_clients_upd insert_absorb)
  ultimately show "n' = 1 + int (card (bound_systems (infos(sid \<mapsto> info\<lparr>si_cli := stored_cli cl'\<rparr>)))) +
      int (card (counted_clients (clients(sid \<mapsto> cl'))))"
    using reg_invD(6) [OF inv] assms(5) by simp
  show "si_passive i \<Longrightarrow> si_session i = None" if "(infos(sid \<mapsto> info\<lparr>si_cli := stored_cli cl'\<rparr>)) s = Some i" for s i
    using that reg_invD(2) [OF inv, of s] assms(4) by (auto split: if_splits)
  show "\<exists>i. (infos(sid \<mapsto> info\<lparr>si_cli := stored_cli cl'\<rparr>)) s = Some i \<and> si_passive i"
    if "(clients(sid \<mapsto> cl')) s = Some c" for s c
    using that reg_invD(5) [OF inv] assms(2,4) by (fastforce split: if_splits)
qed (use reg_invD [OF inv] assms(3) in \<open>auto split: if_splits\<close>)

text \<open>The common case: the client moves on, the info stays as it is.\<close>

lemma reg_client_moves:
  assumes inv: "reg_inv infos n clients" and "clients sid = Some cl" and "client_ok cl'"
    and "stored_cli cl' = stored_cli cl" and "n' = n + of_bool (counted cl') - of_bool (counted cl)"
  shows "reg_inv infos n' (clients(sid \<mapsto> cl'))"
proof -
  obtain info where info: "infos sid = Some info" using reg_invD(5) [OF inv assms(2)] by blast
  with reg_invD(3) [OF inv info] assms(2,4) have "info\<lparr>si_cli := stored_cli cl'\<rparr> = info" by simp
  with info have "infos(sid \<mapsto> info\<lparr>si_cli := stored_cli cl'\<rparr>) = infos" by auto
  with reg_client [OF inv assms(2,3) info assms(5)] show ?thesis by simp
qed

text \<open>The invariant of a node, and the parts of a node it does not depend on.\<close>

definition node_reg :: "'p node \<Rightarrow> bool" where
  "node_reg nd \<longleftrightarrow> reg_inv (cn_systemInfos (nd_cn nd)) (cn_connectedSystemCount (nd_cn nd)) (nd_clients nd)"

lemma node_reg_cong:
  "cn_systemInfos (nd_cn nd') = cn_systemInfos (nd_cn nd) \<Longrightarrow>
   cn_connectedSystemCount (nd_cn nd') = cn_connectedSystemCount (nd_cn nd) \<Longrightarrow>
   nd_clients nd' = nd_clients nd \<Longrightarrow> node_reg nd' \<longleftrightarrow> node_reg nd"
  by (simp add: node_reg_def)

lemma view_simps [simp]:
  "cn_systemInfos (nd_cn (set_net n nd)) = cn_systemInfos (nd_cn nd)"
  "cn_connectedSystemCount (nd_cn (set_net n nd)) = cn_connectedSystemCount (nd_cn nd)"
  "nd_clients (set_net n nd) = nd_clients nd"
  "cn_net (nd_cn (set_net n nd)) = n"
  "nd_handling (set_net n nd) = nd_handling nd"
  "cn_systemInfos (nd_cn (set_conn a c nd)) = cn_systemInfos (nd_cn nd)"
  "cn_connectedSystemCount (nd_cn (set_conn a c nd)) = cn_connectedSystemCount (nd_cn nd)"
  "nd_clients (set_conn a c nd) = nd_clients nd"
  "cn_systemInfos (nd_cn (set_splitter a p nd)) = cn_systemInfos (nd_cn nd)"
  "cn_connectedSystemCount (nd_cn (set_splitter a p nd)) = cn_connectedSystemCount (nd_cn nd)"
  "nd_clients (set_splitter a p nd) = nd_clients nd"
  "nd_cn (set_client sid cl nd) = nd_cn nd"
  "nd_clients (set_client sid cl nd) = (nd_clients nd)(sid \<mapsto> cl)"
  "nd_handling (set_client sid cl nd) = nd_handling nd"
  by (simp_all add: set_net_def set_conn_def set_splitter_def set_client_def)

end
