(* ===== verification/Registration_Safety.thy ===== *)
theory Registration_Safety
  imports Registration Dispatch
begin

text \<open>
  What holds of every reachable node: the connections only do what \<open>Conn\<close> allows, the counter counts
  the systems that are connected, and what \<open>start\<close> may conclude from it.
\<close>

section \<open>Connections of a node\<close>

text \<open>
  \<open>conns_out\<close>: the connections before and after an operation of the cluster net, which leaves the
  receivers where they are. \<open>net_safe\<close>: every connection is reachable, and a session without its
  connection has closed it.
\<close>

definition conns_out :: "net \<Rightarrow> net \<Rightarrow> bool" where
  "conns_out n n' \<longleftrightarrow>
     (\<forall>a. rel_option (\<lambda>c c'. conn_step\<^sup>*\<^sup>* c c' \<and> cs_receiver c' = cs_receiver c) (nt_conns n a) (nt_conns n' a)) \<and>
     nt_clients n' = nt_clients n"

definition net_safe :: "net \<Rightarrow> bool" where
  "net_safe n \<longleftrightarrow> (\<forall>a c. nt_conns n a = Some c \<longrightarrow> conn_reachable c) \<and>
     (\<forall>a s. nt_sessions n a = Some s \<longrightarrow>
        (\<exists>c. nt_conns n a = Some c \<and> (ns_conn s = Some a \<or> ns_conn s = None \<and> QQueue_IsClose (cs_q c))))"

lemma conn_reachable_steps: "conn_step\<^sup>*\<^sup>* c c' \<Longrightarrow> conn_reachable c \<Longrightarrow> conn_reachable c'"
  by (induction rule: rtranclp_induct) (auto intro: conn_reachable.step)

lemma conns_out_refl: "nt_conns n' = nt_conns n \<Longrightarrow> nt_clients n' = nt_clients n \<Longrightarrow> conns_out n n'"
  by (auto simp: conns_out_def intro!: option.rel_refl)

lemma conns_out_trans:
  assumes "conns_out n n'" and "conns_out n' n''"
  shows "conns_out n n''"
proof -
  have "rel_option (\<lambda>c c'. conn_step\<^sup>*\<^sup>* c c' \<and> cs_receiver c' = cs_receiver c) (nt_conns n a) (nt_conns n'' a)" for a
  proof -
    from assms have
      "rel_option (\<lambda>c c'. conn_step\<^sup>*\<^sup>* c c' \<and> cs_receiver c' = cs_receiver c) (nt_conns n a) (nt_conns n' a)"
      "rel_option (\<lambda>c c'. conn_step\<^sup>*\<^sup>* c c' \<and> cs_receiver c' = cs_receiver c) (nt_conns n' a) (nt_conns n'' a)"
      by (auto simp: conns_out_def)
    then show ?thesis
      by (cases "nt_conns n a"; cases "nt_conns n' a"; cases "nt_conns n'' a") (auto intro: rtranclp_trans)
  qed
  with assms show ?thesis by (simp add: conns_out_def)
qed

lemma conns_outD:
  assumes "conns_out n n'" and "nt_conns n a = Some c"
  shows "\<exists>c'. nt_conns n' a = Some c' \<and> conn_step\<^sup>*\<^sup>* c c' \<and> cs_receiver c' = cs_receiver c"
proof -
  from assms(1) have "rel_option (\<lambda>c c'. conn_step\<^sup>*\<^sup>* c c' \<and> cs_receiver c' = cs_receiver c) (nt_conns n a) (nt_conns n' a)"
    by (simp add: conns_out_def)
  with assms(2) show ?thesis by (cases "nt_conns n' a") auto
qed

text \<open>One connection moves.\<close>

lemma conns_out_upd:
  assumes "nt_conns n a = Some c" and "conn_step\<^sup>*\<^sup>* c c'" and "cs_receiver c' = cs_receiver c"
    and "nt_conns n' = (nt_conns n)(a \<mapsto> c')" and "nt_clients n' = nt_clients n"
  shows "conns_out n n'"
  using assms by (auto simp: conns_out_def option.rel_refl intro!: option.rel_refl)

lemma net_safe_upd:
  assumes "net_safe n" and "nt_conns n a = Some c" and "conn_step\<^sup>*\<^sup>* c c'"
    and "nt_conns n' = (nt_conns n)(a \<mapsto> c')" and "nt_sessions n' = nt_sessions n"
  shows "net_safe n'"
proof -
  have "conn_reachable c" using assms(1,2) by (simp add: net_safe_def)
  moreover from this have "QQueue_IsClose (cs_q c) \<Longrightarrow> QQueue_IsClose (cs_q c')"
    using closed_stays [OF assms(3)] conn_reachable_inv by blast
  ultimately show ?thesis
    using assms conn_reachable_steps [OF assms(3)] by (fastforce simp: net_safe_def)
qed

lemma net_safe_q: "net_safe n \<Longrightarrow> nt_conns n a = Some c \<Longrightarrow> q_inv (cs_q c)"
  by (auto simp: net_safe_def intro: conn_inv_q conn_reachable_inv)

text \<open>The operations.\<close>

lemma net_SendData_safe:
  assumes "net_SendData a data n = Some (err, n')" and "net_safe n"
  shows "net_safe n' \<and> conns_out n n' \<and> nt_sessions n' = nt_sessions n"
proof -
  from assms(1) obtain c c' where c: "nt_conns n a = Some c" "SendData data c = Some (err, c')"
      "n' = n\<lparr>nt_conns := (nt_conns n)(a \<mapsto> c')\<rparr>"
    by (auto simp: net_SendData_def bind_eq_Some_conv)
  moreover have "conn_step\<^sup>*\<^sup>* c c'" using conn_step.send [OF c(2)] by blast
  moreover have "cs_receiver c' = cs_receiver c"
    using SendData_returned [OF net_safe_q [OF assms(2) c(1)] c(2)] by auto
  ultimately show ?thesis
    using conns_out_upd [of n a c c' n'] net_safe_upd [OF assms(2), of a c c' n'] by simp
qed

lemma net_Disconnect_safe:
  assumes "net_Disconnect a n = Some (err, n')" and "net_safe n"
  shows "net_safe n' \<and> conns_out n n' \<and> nt_sessions n' = nt_sessions n \<and>
    (\<exists>c'. nt_conns n' a = Some c' \<and> QQueue_IsClose (cs_q c'))"
proof -
  from assms(1) obtain c c' where c: "nt_conns n a = Some c" "Conn_Disconnect c = Some (err, c')"
      "n' = n\<lparr>nt_conns := (nt_conns n)(a \<mapsto> c')\<rparr>"
    by (auto simp: net_Disconnect_def bind_eq_Some_conv)
  moreover have "conn_step\<^sup>*\<^sup>* c c'" using conn_step.local_disconnect [OF c(2)] by blast
  moreover have "cs_receiver c' = cs_receiver c" "QQueue_IsClose (cs_q c')"
    using Conn_Disconnect_returned [OF net_safe_q [OF assms(2) c(1)] c(2)] by auto
  ultimately show ?thesis
    using conns_out_upd [of n a c c' n'] net_safe_upd [OF assms(2), of a c c' n'] by simp
qed

lemma net_SendMessage_safe:
  assumes "net_SendMessage a msgId data n = Some (err, n')" and "net_safe n"
  shows "net_safe n' \<and> conns_out n n' \<and> nt_sessions n' = nt_sessions n"
  using assms net_SendData_safe [of a _ n err n']
  by (auto simp: net_SendMessage_def conns_out_refl split: sum.splits)
text \<open>An open connection of a session is its own.\<close>

lemma Session_Close_safe:
  assumes "Session_Close a n = Some (err, n')" and "net_safe n"
  shows "net_safe n' \<and> conns_out n n' \<and> (\<exists>c. nt_conns n' a = Some c \<and> QQueue_IsClose (cs_q c))"
proof -
  obtain s where s: "nt_sessions n a = Some s" using assms(1) by (auto simp: Session_Close_def bind_eq_Some_conv)
  show ?thesis
  proof (cases "ns_conn s")
    case None
    with assms s show ?thesis by (fastforce simp: Session_Close_def net_safe_def conns_out_refl)
  next
    case (Some b)
    with assms(2) s have "b = a" unfolding net_safe_def by fastforce
    with assms(1) s Some obtain err' m where m: "net_Disconnect a n = Some (err', m)"
        "n' = m\<lparr>nt_sessions := (nt_sessions m)(a \<mapsto> s\<lparr>ns_conn := None\<rparr>)\<rparr>"
      by (auto simp: Session_Close_def bind_eq_Some_conv)
    from net_Disconnect_safe [OF m(1) assms(2)]
    have "net_safe m" "conns_out n m" "\<exists>c'. nt_conns m a = Some c' \<and> QQueue_IsClose (cs_q c')" by auto
    with m(2) conns_out_trans [of n m n'] conns_out_refl [of n' m] show ?thesis
      by (auto simp: net_safe_def split: if_splits)
  qed
qed

lemma SetBindObject_safe:
  assumes "SetBindObject a b n = Some n'" and "net_safe n"
  shows "net_safe n' \<and> conns_out n n'"
  using assms by (fastforce simp: SetBindObject_def bind_eq_Some_conv net_safe_def conns_out_refl split: if_splits)

lemma doSend_safe:
  assumes "doSend S sid msgId data cn = Some (err, cn')" and "net_safe (cn_net cn)"
  shows "net_safe (cn_net cn') \<and> conns_out (cn_net cn) (cn_net cn')"
  using assms net_SendMessage_safe [of _ msgId data "cn_net cn"]
  by (auto simp: doSend_def bind_eq_Some_conv Let_def conns_out_refl split: if_splits option.splits)

lemma Send_sends:
  assumes "Send S sid e cn = Some (err, cn')"
  shows "cn' = cn \<or> (\<exists>msgId data. doSend S sid msgId data cn = Some (err, cn'))"
proof -
  from assms obtain x where x: "Send_pkg (sy_api S) (sy_proto S) (sy_registry S) e = Some x"
    by (auto simp: Send_def)
  with assms show ?thesis
    by (cases x; cases "Marshal_pkg (sy_proto S) (snd (projr x))") (auto simp: Send_def)
qed

lemma Send_safe:
  assumes "Send S sid e cn = Some (err, cn')" and "net_safe (cn_net cn)"
  shows "net_safe (cn_net cn') \<and> conns_out (cn_net cn) (cn_net cn')"
  using Send_sends [OF assms(1)] assms(2) doSend_safe [of S sid _ _ cn err cn'] by (auto simp: conns_out_refl)

section \<open>What a node keeps\<close>

text \<open>The part of the cluster net that never changes after \<open>NewClusterNet\<close>.\<close>

definition table :: "'p clusterNet \<Rightarrow> int \<times> nat \<times> (int \<rightharpoonup> SystemConfig \<times> bool)" where
  "table cn = (cn_localSystemIndex cn, cn_systemCount cn,
     (\<lambda>sid. map_option (\<lambda>info. (si_config info, si_passive info)) (cn_systemInfos cn sid)))"

lemma table_net [simp]: "table (cn\<lparr>cn_net := n\<rparr>) = table cn" "table (cn\<lparr>cn_routed := es\<rparr>) = table cn"
  by (simp_all add: table_def)

lemma table_add_connected [simp]: "table (add_connected k cn) = table cn"
  by (simp add: table_def add_connected_def)

lemma table_upd_info:
  "(\<And>info. si_config (f info) = si_config info \<and> si_passive (f info) = si_passive info) \<Longrightarrow> table (upd_info sid f cn) = table cn"
  by (auto simp: table_def upd_info_def split: option.splits)

lemma cn_fields [simp]:
  "cn_net (add_connected k cn) = cn_net cn" "cn_systemInfos (add_connected k cn) = cn_systemInfos cn"
  "cn_connectedSystemCount (add_connected k cn) = cn_connectedSystemCount cn + k"
  "cn_routed (add_connected k cn) = cn_routed cn"
  "cn_net (upd_info sid f cn) = cn_net cn" "cn_connectedSystemCount (upd_info sid f cn) = cn_connectedSystemCount cn"
  "cn_routed (upd_info sid f cn) = cn_routed cn"
  by (simp_all add: add_connected_def upd_info_def split: option.split)

lemma upd_info_infos [simp]:
  "cn_systemInfos cn sid = Some info \<Longrightarrow> cn_systemInfos (upd_info sid f cn) = (cn_systemInfos cn)(sid \<mapsto> f info)"
  by (simp add: upd_info_def)

text \<open>A message handled by the cluster net, or an envelope sent, changes neither the infos nor the counter.\<close>

lemma cn_OnMessage_keeps:
  "cn_OnMessage S msgId data cn = Some (err, cn') \<Longrightarrow> \<exists>es. cn' = cn\<lparr>cn_routed := cn_routed cn @ es\<rparr>"
  by (auto simp: cn_OnMessage_def bind_eq_Some_conv)

text \<open>
  What every operation of the cluster net keeps: the connections stay safe and their receivers where
  they are, the table stays the same, and so does the invariant of the counter, whatever the clients.
\<close>

definition cn_keeps :: "'p clusterNet \<Rightarrow> 'p clusterNet \<Rightarrow> bool" where
  "cn_keeps cn cn' \<longleftrightarrow>
     (net_safe (cn_net cn) \<longrightarrow> net_safe (cn_net cn') \<and> conns_out (cn_net cn) (cn_net cn')) \<and>
     table cn' = table cn \<and>
     (\<forall>clients. reg_inv (cn_systemInfos cn) (cn_connectedSystemCount cn) clients \<longrightarrow>
        reg_inv (cn_systemInfos cn') (cn_connectedSystemCount cn') clients)"

lemma cn_keeps_trans: "cn_keeps cn cn' \<Longrightarrow> cn_keeps cn' cn'' \<Longrightarrow> cn_keeps cn cn''"
  unfolding cn_keeps_def by (metis conns_out_trans)

text \<open>Operations on the connections only.\<close>

lemma cn_keeps_net:
  assumes "net_safe (cn_net cn) \<Longrightarrow> net_safe n \<and> conns_out (cn_net cn) n"
  shows "cn_keeps cn (cn\<lparr>cn_net := n\<rparr>)"
  using assms by (simp add: cn_keeps_def)

lemma cn_keeps_refl [simp]: "cn_keeps cn cn" "cn_keeps cn (cn\<lparr>cn_routed := es\<rparr>)"
  by (simp_all add: cn_keeps_def conns_out_refl)

lemma Send_keeps:
  assumes "Send S sid e cn = Some (err, cn')"
  shows "cn_keeps cn cn'"
  using Send_net [OF assms] Send_safe [OF assms] by (auto intro!: cn_keeps_net)

lemma svr_OnDisconnect_keeps:
  assumes "svr_OnDisconnect a cn = Some cn'"
  shows "cn_keeps cn cn'"
proof -
  from assms obtain bind where b: "GetBindObject a (cn_net cn) = Some bind"
    by (auto simp: svr_OnDisconnect_def bind_eq_Some_conv)
  show ?thesis
  proof (cases "bind = None \<or> (\<exists>sid info. bind = Some sid \<and> cn_systemInfos cn sid = Some info \<and> si_session info \<noteq> Some a)")
    case True
    with assms b show ?thesis by (auto simp: svr_OnDisconnect_def)
  next
    case False
    with assms b obtain sid info n where
        h: "cn_systemInfos cn sid = Some info" "si_session info = Some a" "SetBindObject a None (cn_net cn) = Some n"
          "cn' = add_connected (-1) (upd_info sid (\<lambda>info. info\<lparr>si_session := None\<rparr>) (cn\<lparr>cn_net := n\<rparr>))"
      by (auto simp: svr_OnDisconnect_def bind_eq_Some_conv)
    have "reg_inv (cn_systemInfos cn') (cn_connectedSystemCount cn') clients"
      if inv: "reg_inv (cn_systemInfos cn) (cn_connectedSystemCount cn) clients" for clients
    proof -
      have "\<not> si_passive info" using reg_invD(2) [OF inv h(1)] h(2) by auto
      with reg_session [OF inv h(1), of _ None] h show ?thesis by simp
    qed
    moreover have "table cn' = table cn" using h(4) by (simp add: table_upd_info)
    ultimately show ?thesis using SetBindObject_safe [OF h(3)] h(4) by (simp add: cn_keeps_def)
  qed
qed

lemma svr_register_keeps:
  assumes "svr_register S a sid cn = Some (err, cn')"
  shows "cn_keeps cn cn'"
proof (cases "\<exists>info. cn_systemInfos cn sid = Some info \<and> \<not> si_passive info \<and> si_session info = None")
  case True
  then obtain info where i: "cn_systemInfos cn sid = Some info" "\<not> si_passive info" "si_session info = None" by blast
  with assms obtain n where n: "SetBindObject a (Some sid) (cn_net cn) = Some n"
    by (auto simp: svr_register_def bind_eq_Some_conv)
  let ?cn = "add_connected 1 (upd_info sid (\<lambda>info. info\<lparr>si_session := Some a\<rparr>) (cn\<lparr>cn_net := n\<rparr>))"
  have "cn_keeps cn ?cn"
    using reg_session [of "cn_systemInfos cn" _ _ sid info _ "Some a"] i SetBindObject_safe [OF n]
    by (simp add: cn_keeps_def table_upd_info)
  moreover have "cn_keeps ?cn cn'"
    using assms i n net_SendMessage_safe [of a _ _ n]
    by (auto simp: svr_register_def bind_eq_Some_conv Let_def split: option.splits intro!: cn_keeps_net)
  ultimately show ?thesis by (rule cn_keeps_trans)
next
  case False
  with assms show ?thesis by (auto simp: svr_register_def split: option.splits if_splits)
qed

lemma svr_OnMessage_keeps:
  assumes "svr_OnMessage S a msgId data cn = Some (err, cn')"
  shows "cn_keeps cn cn'"
  using assms svr_register_keeps [of S a _ cn err cn'] cn_OnMessage_keeps [of S msgId data cn err cn']
  by (auto simp: svr_OnMessage_def split: if_splits option.splits pkg.splits)

lemma svr_handle_keeps:
  assumes "svr_handle S a msgId data cn = Some (err, cn')"
  shows "cn_keeps cn cn'"
proof -
  from assms obtain err1 cn1 where m: "svr_OnMessage S a msgId data cn = Some (err1, cn1)"
    by (auto simp: svr_handle_def bind_eq_Some_conv)
  have "cn_keeps cn1 cn'"
    using assms m Session_Close_safe [of a "cn_net cn1"]
    by (auto simp: svr_handle_def bind_eq_Some_conv split: if_splits intro!: cn_keeps_net)
  with svr_OnMessage_keeps [OF m] show ?thesis by (rule cn_keeps_trans)
qed
section \<open>Every step of a node keeps its invariant\<close>

text \<open>
  The connections are safe, a receiver inside \<open>onDataFunc\<close> is in its read loop, the counter is right.
\<close>

definition node_inv :: "'p node \<Rightarrow> bool" where
  "node_inv nd \<longleftrightarrow> net_safe (cn_net (nd_cn nd)) \<and>
     (\<forall>a \<in> nd_handling nd. \<exists>c. nd_conns nd a = Some c \<and> cs_receiver c = RRead) \<and> node_reg nd"

text \<open>A step keeps the invariant and the table, and each connection takes steps of its own.\<close>

definition node_keeps :: "'p node \<Rightarrow> 'p node \<Rightarrow> bool" where
  "node_keeps nd nd' \<longleftrightarrow> table (nd_cn nd') = table (nd_cn nd) \<and>
     (node_inv nd \<longrightarrow> node_inv nd' \<and>
        (\<forall>a c. nd_conns nd a = Some c \<longrightarrow> (\<exists>c'. nd_conns nd' a = Some c' \<and> conn_step\<^sup>*\<^sup>* c c')))"

lemma node_keeps_refl [simp]: "node_keeps nd nd"
  by (simp add: node_keeps_def)

lemma node_keeps_trans: "node_keeps nd nd' \<Longrightarrow> node_keeps nd' nd'' \<Longrightarrow> node_keeps nd nd''"
  unfolding node_keeps_def by (metis rtranclp_trans)

lemma node_keeps_cn:
  assumes "cn_keeps (nd_cn nd) cn"
  shows "node_keeps nd (nd\<lparr>nd_cn := cn\<rparr>)"
proof -
  have "\<exists>c'. nt_conns (cn_net cn) a = Some c' \<and> conn_step\<^sup>*\<^sup>* c c' \<and> cs_receiver c' = cs_receiver c"
    if "net_safe (cn_net (nd_cn nd))" "nd_conns nd a = Some c" for a c
    using conns_outD that assms by (auto simp: cn_keeps_def)
  note c = this
  with assms show ?thesis
    by (fastforce simp: node_keeps_def cn_keeps_def node_inv_def node_reg_def)
qed

lemma node_keeps_net:
  assumes "net_safe (cn_net (nd_cn nd)) \<Longrightarrow> net_safe n \<and> conns_out (cn_net (nd_cn nd)) n"
  shows "node_keeps nd (set_net n nd)"
  unfolding set_net_def by (intro node_keeps_cn cn_keeps_net assms)

lemma node_keeps_splitter: "node_keeps nd (set_splitter a p nd)"
  unfolding set_splitter_def by (intro node_keeps_net conjI conns_out_refl) (simp_all add: net_safe_def)

lemma node_keeps_conn:
  assumes "nd_conns nd a = Some c" and "conn_step\<^sup>*\<^sup>* c c'" and "a \<in> nd_handling nd \<Longrightarrow> cs_receiver c' = cs_receiver c"
  shows "node_keeps nd (set_conn a c' nd)"
proof -
  have "net_safe (cn_net (nd_cn (set_conn a c' nd)))" if "net_safe (cn_net (nd_cn nd))"
    by (rule net_safe_upd [OF that assms(1,2)]) (simp_all add: set_conn_def)
  with assms show ?thesis by (auto simp: node_keeps_def node_inv_def node_reg_def set_conn_def) (simp_all add: set_net_def)
qed

lemma node_keeps_enter:
  assumes "nd_conns nd a = Some c" and "cs_receiver c = RRead"
  shows "node_keeps nd (nd\<lparr>nd_handling := insert a (nd_handling nd)\<rparr>)"
  using assms by (auto simp: node_keeps_def node_inv_def node_reg_def)

lemma node_keeps_leave: "node_keeps nd (nd\<lparr>nd_handling := nd_handling nd - {a}\<rparr>)"
  by (auto simp: node_keeps_def node_inv_def node_reg_def)

lemma node_keeps_client:
  assumes "nd_clients nd sid = Some cl" and "client_ok cl \<Longrightarrow> client_ok cl'"
    and "stored_cli cl' = stored_cli cl" and "counted cl' = counted cl"
  shows "node_keeps nd (set_client sid cl' nd)"
  using assms reg_invD(4) [of _ _ "nd_clients nd" sid cl] reg_client_moves [of _ _ "nd_clients nd" sid cl cl']
  by (auto simp: node_keeps_def node_inv_def node_reg_def)

text \<open>A new connection, accepted or dialled.\<close>

lemma accept_conn_keeps:
  assumes "nd_conns nd a = None" and "accept_conn a (cn_net (nd_cn nd)) = Some n"
  shows "node_keeps nd (set_net n nd)"
proof -
  from assms(2) obtain c i m where c: "newConn = Some c" "n = (cn_net (nd_cn nd))\<lparr>nt_conns := (nd_conns nd)(a \<mapsto> c),
      nt_sessions := (nt_sessions (cn_net (nd_cn nd)))(a \<mapsto> \<lparr>ns_id = i, ns_bindObject = None, ns_conn = Some a\<rparr>),
      nt_splitters := (nt_splitters (cn_net (nd_cn nd)))(a := ps_empty), nt_mgr := m\<rparr>"
    by (auto simp: accept_conn_def bind_eq_Some_conv NewSession_def Let_def)
  have "net_safe n" if "net_safe (cn_net (nd_cn nd))"
    using that assms(1) conn_reachable.new [OF c(1)] by (fastforce simp: net_safe_def c(2))
  with assms(1) c(2) show ?thesis by (auto simp: node_keeps_def node_inv_def node_reg_def) (simp_all add: set_net_def)
qed

lemma dial_conn_keeps:
  assumes "nd_conns nd a = None" and "dial_conn a sid (cn_net (nd_cn nd)) = Some n"
  shows "node_keeps nd (set_net n nd)"
proof -
  from assms(2) obtain c where c: "newConn = Some c" "n = (cn_net (nd_cn nd))\<lparr>nt_conns := (nd_conns nd)(a \<mapsto> c),
      nt_clients := (nt_clients (cn_net (nd_cn nd)))(a \<mapsto> sid), nt_splitters := (nt_splitters (cn_net (nd_cn nd)))(a := ps_empty)\<rparr>"
    by (auto simp: dial_conn_def bind_eq_Some_conv)
  have "net_safe n" if "net_safe (cn_net (nd_cn nd))"
    using that assms(1) conn_reachable.new [OF c(1)] by (fastforce simp: net_safe_def c(2))
  with assms(1) c(2) show ?thesis by (auto simp: node_keeps_def node_inv_def node_reg_def) (simp_all add: set_net_def)
qed
text \<open>A client that changes what its info stores, or the counter.\<close>

lemma node_keeps_client_info:
  assumes "nd_clients nd sid = Some cl" and "client_ok cl \<Longrightarrow> client_ok cl'" and "stored_cli cl' = b" and "counted cl' = counted cl"
  shows "node_keeps nd (set_client sid cl' (nd\<lparr>nd_cn := upd_info sid (\<lambda>info. info\<lparr>si_cli := b\<rparr>) (nd_cn nd)\<rparr>))"
proof -
  have "node_reg (set_client sid cl' (nd\<lparr>nd_cn := upd_info sid (\<lambda>info. info\<lparr>si_cli := b\<rparr>) (nd_cn nd)\<rparr>))" if "node_reg nd"
  proof -
    from that have inv: "reg_inv (cn_systemInfos (nd_cn nd)) (cn_connectedSystemCount (nd_cn nd)) (nd_clients nd)"
      by (simp add: node_reg_def)
    then obtain info where "cn_systemInfos (nd_cn nd) sid = Some info" using reg_invD(5) [OF inv assms(1)] by blast
    with reg_client [OF inv assms(1) _ this, of cl'] reg_invD(4) [OF inv assms(1)] assms show ?thesis
      by (simp add: node_reg_def)
  qed
  then show ?thesis by (auto simp: node_keeps_def node_inv_def table_upd_info)
qed

lemma node_keeps_client_count:
  assumes "nd_clients nd sid = Some cl" and "client_ok cl \<Longrightarrow> client_ok cl'" and "stored_cli cl' = stored_cli cl"
    and "k = of_bool (counted cl') - of_bool (counted cl)"
  shows "node_keeps nd (set_client sid cl' (nd\<lparr>nd_cn := add_connected k (nd_cn nd)\<rparr>))"
  using assms reg_invD(4) [of _ _ "nd_clients nd" sid cl] reg_client_moves [of _ _ "nd_clients nd" sid cl cl']
  by (auto simp: node_keeps_def node_inv_def node_reg_def)

text \<open>The client moves on after a step of the connections.\<close>

lemma node_keeps_then_client:
  assumes "node_keeps nd nd1" and "nd' = set_client sid cl' nd1" and "nd_clients nd1 sid = Some cl"
    and "client_ok cl \<Longrightarrow> client_ok cl'" and "stored_cli cl' = stored_cli cl" and "counted cl' = counted cl"
  shows "node_keeps nd nd'"
  using node_keeps_trans [OF assms(1) node_keeps_client [OF assms(3-6)]] assms(2) by simp

lemmas client_views = client_ok_def stored_cli_def counted_def

lemma client_step_keeps:
  assumes "client_step S sid cl nd nd'" and cl: "nd_clients nd sid = Some cl"
  shows "node_keeps nd nd'"
  using assms(1)
proof cases
  case dial_failed
  with cl show ?thesis by (auto intro!: node_keeps_client [of _ _ cl] simp: client_views)
next
  case (dialled a n)
  show ?thesis
    by (rule node_keeps_then_client [OF dial_conn_keeps [OF dialled(3,4)] dialled(1), of cl])
      (use cl dialled in \<open>auto simp: client_views\<close>)
next
  case (request_sent a n)
  have "net_safe (cn_net (nd_cn nd)) \<Longrightarrow> net_safe n \<and> conns_out (cn_net (nd_cn nd)) n"
    using net_SendMessage_safe [OF request_sent(4)] by blast
  from this show ?thesis
    by (rule node_keeps_then_client [OF node_keeps_net request_sent(1), of cl])
      (use cl request_sent in \<open>auto simp: client_views\<close>)
next
  case (request_failed a err n derr n')
  have "net_safe (cn_net (nd_cn nd)) \<Longrightarrow> net_safe n' \<and> conns_out (cn_net (nd_cn nd)) n'"
    using net_SendMessage_safe [OF request_failed(4)] net_Disconnect_safe [OF request_failed(5)]
    by (blast intro: conns_out_trans)
  from this show ?thesis
    by (rule node_keeps_then_client [OF node_keeps_net request_failed(1), of cl])
      (use cl request_failed in \<open>auto simp: client_views\<close>)
next
  case (select_disconnect b)
  with cl show ?thesis by (auto intro!: node_keeps_client [of _ _ cl] simp: client_views)
next
  case (select_refused a derr n)
  have "net_safe (cn_net (nd_cn nd)) \<Longrightarrow> net_safe n \<and> conns_out (cn_net (nd_cn nd)) n"
    using net_Disconnect_safe [OF select_refused(5)] by blast
  from this show ?thesis
    by (rule node_keeps_then_client [OF node_keeps_net select_refused(1), of cl])
      (use cl select_refused in \<open>auto simp: client_views\<close>)
next
  case select_accepted
  with cl show ?thesis by (auto intro!: node_keeps_client [of _ _ cl] simp: client_views)
next
  case set_cli
  with cl show ?thesis by (auto intro!: node_keeps_client_info [of _ _ cl] simp: client_views)
next
  case count
  with cl show ?thesis by (auto intro!: node_keeps_client_count [of _ _ cl] simp: client_views)
next
  case (disconnected b)
  with cl show ?thesis by (auto intro!: node_keeps_client [of _ _ cl] simp: client_views)
next
  case clear_cli
  with cl show ?thesis by (auto intro!: node_keeps_client_info [of _ _ cl] simp: client_views)
next
  case uncount
  with cl show ?thesis by (auto intro!: node_keeps_client_count [of _ _ cl] simp: client_views)
qed
lemma cli_handle_keeps:
  assumes "cli_handle S sid msgId data nd = Some nd'"
  shows "node_keeps nd nd'"
proof (cases "msgId = PkgTypeRegisterSystemRsp")
  case True
  with assms obtain cl succ where "nd_clients nd sid = Some cl" "nd' = set_client sid (cl\<lparr>cl_registerResponseChan := Some succ\<rparr>) nd"
    by (auto simp: cli_handle_def bind_eq_Some_conv Let_def split: if_splits)
  then show ?thesis by (auto intro!: node_keeps_client [of _ _ cl] simp: client_views)
next
  case False
  with assms obtain err cn where "cn_OnMessage S msgId data (nd_cn nd) = Some (err, cn)" "nd' = nd\<lparr>nd_cn := cn\<rparr>"
    by (auto simp: cli_handle_def bind_eq_Some_conv)
  then show ?thesis using cn_OnMessage_keeps [of S msgId data "nd_cn nd"] by (auto intro!: node_keeps_cn)
qed

lemma svr_disconnected_keeps:
  assumes "svr_disconnected a cn = Some cn'"
  shows "cn_keeps cn cn'"
proof -
  from assms obtain cn1 m where "svr_OnDisconnect a cn = Some cn1" "cn' = cn1\<lparr>cn_net := (cn_net cn1)\<lparr>nt_mgr := m\<rparr>\<rparr>"
    by (auto simp: svr_disconnected_def bind_eq_Some_conv)
  moreover have "cn_keeps cn1 (cn1\<lparr>cn_net := (cn_net cn1)\<lparr>nt_mgr := m\<rparr>\<rparr>)"
    by (intro cn_keeps_net) (simp add: net_safe_def conns_out_refl)
  ultimately show ?thesis using svr_OnDisconnect_keeps [of a cn cn1] cn_keeps_trans by auto
qed

lemma node_keeps_callback:
  assumes "node_inv nd" and "nd_conns nd a = Some c" and "cs_receiver c = RCallback"
  shows "node_keeps nd (set_conn a (c\<lparr>cs_callbacks := cs_callbacks c + 1, cs_receiver := RReturned\<rparr>) nd)"
proof (rule node_keeps_conn [OF assms(2)])
  show "conn_step\<^sup>*\<^sup>* c (c\<lparr>cs_callbacks := cs_callbacks c + 1, cs_receiver := RReturned\<rparr>)"
    by (rule r_into_rtranclp, rule conn_step.receiver, rule receiver_step.callback [OF assms(3)])
qed (use assms in \<open>auto simp: node_inv_def\<close>)

lemma node_step_keeps:
  assumes "node_step S nd nd'" and inv: "node_inv nd"
  shows "node_keeps nd nd'"
  using assms(1)
proof cases
  case (accept a n)
  then show ?thesis using accept_conn_keeps by blast
next
  case (sender a c c')
  moreover from this have "cs_receiver c' = cs_receiver c" "conn_step c c'"
    by (auto elim: sender_stepE intro: conn_step.sender)
  ultimately show ?thesis by (auto intro!: node_keeps_conn)
next
  case (chunk a c ch)
  let ?c = "c\<lparr>cs_read := cs_read c @ [ch]\<rparr>"
  have "c\<lparr>cs_read := cs_read c @ [ch], cs_receiver := RRead\<rparr> = ?c" using chunk(3) by simp
  with receiver_step.read [of c True ch] chunk(3) have "conn_step c ?c" by (auto intro!: conn_step.receiver)
  then have "node_keeps nd (set_conn a ?c nd)" using chunk by (auto intro!: node_keeps_conn)
  moreover have nd': "nd' = (set_splitter a (Append ch (nt_splitters (cn_net (nd_cn nd)) a)) (set_conn a ?c nd))\<lparr>nd_handling :=
      insert a (nd_handling (set_splitter a (Append ch (nt_splitters (cn_net (nd_cn nd)) a)) (set_conn a ?c nd)))\<rparr>"
    using chunk(1) by (simp add: set_splitter_def set_conn_def set_net_def)
  have "node_keeps (set_splitter a (Append ch (nt_splitters (cn_net (nd_cn nd)) a)) (set_conn a ?c nd)) nd'"
    unfolding nd' by (rule node_keeps_enter [of _ _ ?c]) (simp_all add: set_splitter_def set_conn_def chunk)
  ultimately show ?thesis by (blast intro: node_keeps_trans node_keeps_splitter)
next
  case (frame_session a s msgId payload p err cn)
  from svr_handle_keeps [OF this(5)] have "node_keeps (set_splitter a p nd) ((set_splitter a p nd)\<lparr>nd_cn := cn\<rparr>)"
    by (rule node_keeps_cn)
  with frame_session(1) show ?thesis using node_keeps_trans [OF node_keeps_splitter, of a p nd nd']
    by (simp add: set_splitter_def set_net_def)
next
  case (frame_client a sid msgId payload p)
  then show ?thesis using cli_handle_keeps node_keeps_splitter node_keeps_trans by blast
next
  case (frames_done a msgId payload p)
  have "nd' = (set_splitter a p nd)\<lparr>nd_handling := nd_handling (set_splitter a p nd) - {a}\<rparr>"
    using frames_done(1) by (simp add: set_splitter_def set_net_def)
  then show ?thesis using node_keeps_trans [OF node_keeps_splitter node_keeps_leave] by metis
next
  case (receiver a c c')
  then show ?thesis by (auto intro!: node_keeps_conn conn_step.receiver)
next
  case (lost_session a c s cn)
  let ?nd = "set_conn a (c\<lparr>cs_callbacks := cs_callbacks c + 1, cs_receiver := RReturned\<rparr>) nd"
  have "node_keeps nd ?nd" using inv lost_session(2,3) by (rule node_keeps_callback)
  moreover have "node_keeps ?nd (?nd\<lparr>nd_cn := cn\<rparr>)"
    using svr_disconnected_keeps [OF lost_session(5)] by (rule node_keeps_cn)
  moreover have "?nd\<lparr>nd_cn := cn\<rparr> = nd'" using lost_session(1) by (simp add: set_conn_def set_net_def)
  ultimately show ?thesis using node_keeps_trans by metis
next
  case (lost_client a c sid cl)
  let ?nd = "set_conn a (c\<lparr>cs_callbacks := cs_callbacks c + 1, cs_receiver := RReturned\<rparr>) nd"
  have "node_keeps nd ?nd" using inv lost_client(2,3) by (rule node_keeps_callback)
  then show ?thesis
    by (rule node_keeps_then_client [OF _ lost_client(1), where cl = cl]) (use lost_client in \<open>auto simp: client_views\<close>)
next
  case (client sid cl)
  then show ?thesis using client_step_keeps by blast
next
  case (send sid e err cn)
  then show ?thesis using Send_keeps node_keeps_cn by blast
qed
section \<open>Reachable nodes\<close>

lemma NewClusterNet_infoE:
  assumes "node_of cfg k" and "cn_systemInfos (NewClusterNet cfg) sid = Some info"
  obtains j where "j < length (cc_SystemConfigs cfg)" and "sid = sc_SystemId (cc_SystemConfigs cfg ! j)"
    and "info = \<lparr>si_config = cc_SystemConfigs cfg ! j, si_passive = (j < k), si_session = None, si_cli = None\<rparr>"
proof -
  have "sid \<in> set (map sc_SystemId (cc_SystemConfigs cfg))"
    using assms(2) build_infos_dom [of "cc_LocalSystemId cfg" 0 False "-1" Map.empty "cc_SystemConfigs cfg"]
    by (auto simp: NewClusterNet_def case_prod_beta dom_def)
  then obtain j where "j < length (cc_SystemConfigs cfg)" "sid = sc_SystemId (cc_SystemConfigs cfg ! j)"
    by (auto simp: in_set_conv_nth)
  with NewClusterNet_info [OF assms(1) this(1), where 'a = 'a] assms(2) that show ?thesis by simp
qed

lemma started_node_fields:
  fixes nd :: "'p node"
  assumes "started_node S = Some nd"
  shows "nd = \<lparr>nd_cn = (NewClusterNet (sy_config S))\<lparr>cn_connectedSystemCount := 1\<rparr>,
    nd_clients = (\<lambda>sid. if sid \<in> set (started_clients S (NewClusterNet (sy_config S) :: 'p clusterNet)) then Some NewClusterClient else None),
    nd_handling = {}\<rparr>"
proof -
  let ?cn = "NewClusterNet (sy_config S) :: 'p clusterNet"
  have count: "cn_connectedSystemCount ?cn = 0" by (simp add: NewClusterNet_def case_prod_beta)
  have clients: "started_clients S (?cn\<lparr>cn_connectedSystemCount := 1\<rparr>) = started_clients S ?cn"
    by (simp add: started_clients_def)
  from assms obtain server clients cn where "start_net S ?cn = Some ((server, clients), cn)"
      "nd = \<lparr>nd_cn = cn, nd_clients = (\<lambda>sid. if sid \<in> set clients then Some NewClusterClient else None), nd_handling = {}\<rparr>"
    by (auto simp: started_node_def bind_eq_Some_conv)
  moreover from this(1) have "cn = ?cn\<lparr>cn_connectedSystemCount := 1\<rparr>" "clients = started_clients S ?cn"
    by (simp_all add: start_net_def Let_def bind_eq_Some_conv count clients split: if_splits) 
  ultimately show ?thesis by simp
qed

lemma started_node_inv:
  fixes nd :: "'p node"
  assumes "node_of (sy_config S) k" and "started_node S = Some nd"
  shows "node_inv nd \<and> table (nd_cn nd) = table (NewClusterNet (sy_config S) :: 'p clusterNet)"
proof -
  let ?cn = "NewClusterNet (sy_config S) :: 'p clusterNet"
  have nd: "cn_systemInfos (nd_cn nd) = cn_systemInfos ?cn" "cn_connectedSystemCount (nd_cn nd) = 1"
      "cn_net (nd_cn nd) = new_net" "nd_handling nd = {}" "table (nd_cn nd) = table ?cn"
      "nd_clients nd = (\<lambda>sid. if sid \<in> set (started_clients S ?cn) then Some NewClusterClient else None)"
    by (simp_all add: started_node_fields [OF assms(2)] table_def) (simp add: NewClusterNet_def case_prod_beta)
  have infos: "si_session i = None \<and> si_cli i = None" if "cn_systemInfos ?cn s = Some i" for s i
    by (rule NewClusterNet_infoE [OF assms(1) that]) simp
  have passives: "\<exists>i. cn_systemInfos ?cn s = Some i \<and> si_passive i" if "s \<in> set (started_clients S ?cn)" for s
  proof -
    from that obtain j where "j < k" "s = sc_SystemId (cc_SystemConfigs (sy_config S) ! j)" "j < length (cc_SystemConfigs (sy_config S))"
      by (auto simp: started_clients_node [OF assms(1)] in_set_conv_nth)
    with NewClusterNet_info [OF assms(1) this(3), where 'a = 'p] show ?thesis by simp
  qed
  have "bound_systems (cn_systemInfos ?cn) = {}" using infos by (auto simp: bound_systems_def)
  moreover have "counted_clients (nd_clients nd) = {}"
    by (auto simp: counted_clients_def nd counted_def NewClusterClient_def split: if_splits)
  moreover have "finite (dom (cn_systemInfos ?cn))"
    using build_infos_dom [of "cc_LocalSystemId (sy_config S)" 0 False "-1" Map.empty "cc_SystemConfigs (sy_config S)"]
    by (simp add: NewClusterNet_def case_prod_beta)
  ultimately have "node_reg nd"
    unfolding node_reg_def using infos passives
    by (intro reg_invI) (auto simp: nd client_views NewClusterClient_def split: if_splits)
  then show ?thesis by (simp add: node_inv_def nd net_safe_def new_net_def)
qed

lemma node_reachable_inv:
  fixes nd :: "'p node"
  assumes "node_reachable S nd" and "node_of (sy_config S) k"
  shows "node_inv nd \<and> table (nd_cn nd) = table (NewClusterNet (sy_config S) :: 'p clusterNet)"
  using assms(1)
proof (induction rule: node_reachable.induct)
  case (started nd)
  then show ?case using started_node_inv [OF assms(2)] by blast
next
  case (step nd nd')
  with node_step_keeps [OF step(2)] show ?case by (simp add: node_keeps_def)
qed

text \<open>The table read back.\<close>

lemma table_info:
  assumes "table cn = table cn'" and "cn_systemInfos cn' sid = Some info'"
  obtains info where "cn_systemInfos cn sid = Some info" and "si_config info = si_config info'" and "si_passive info = si_passive info'"
proof -
  let ?f = "map_option (\<lambda>info. (si_config info, si_passive info))"
  from assms(1) have "(\<lambda>sid. ?f (cn_systemInfos cn sid)) = (\<lambda>sid. ?f (cn_systemInfos cn' sid))"
    by (simp add: table_def)
  then have "?f (cn_systemInfos cn sid) = ?f (cn_systemInfos cn' sid)" by (rule fun_cong)
  with assms(2) that show ?thesis by auto
qed

lemma table_dom:
  assumes "table cn = table cn'"
  shows "dom (cn_systemInfos cn) = dom (cn_systemInfos cn')"
proof -
  have "dom (snd (snd (table x))) = dom (cn_systemInfos x)" for x :: "'x clusterNet" by (auto simp: table_def dom_def)
  with assms show ?thesis by metis
qed

end
