(* ===== verification/System_Start.thy ===== *)
theory System_Start
  imports Dispatch Registration_Safety
begin

text \<open>
  The system itself (\<open>system.go\<close>): how \<open>NewSystem\<close> wires its parts, the guard on the actor types of
  the user, and \<open>Start\<close>. The embedded vactor system is not part of the repository; what dvactor does
  to it is a list of calls.
\<close>

section \<open>State\<close>

datatype actor_creator = NewWatchProxy_OnMessage | NewRequestProxy_OnMessage | UserCreator nat

text \<open>
  The calls to the vactor library. \<open>vactor.NewSystem\<close> takes functions that update its configuration,
  here its \<open>SystemId\<close>, in order.
\<close>

datatype vactor_call =
    VNewSystem "(int \<Rightarrow> int) list"
  | VSetRouter
  | VSetCreateActorRefExFunc
  | VRegisterActorType int actor_creator
  | VStart

record 'p dvsystem =
  ds_calls :: "vactor_call list"
  ds_registry :: msg_registry
  ds_router :: Router
  ds_clusterNet :: "'p clusterNet"

section \<open>Operations\<close>

definition NewSystem :: "vactor_api \<Rightarrow> ClusterConfig \<Rightarrow> (int \<Rightarrow> int) list \<Rightarrow> 'p dvsystem" where
  "NewSystem V clusterConfig cfgFuncs =
     \<lparr>ds_calls =
        [VNewSystem (cfgFuncs @ [\<lambda>_. cc_LocalSystemId clusterConfig]), VSetRouter, VSetCreateActorRefExFunc,
         VRegisterActorType (WatchProxyActorType V) NewWatchProxy_OnMessage,
         VRegisterActorType (RequestProxyActorType V) NewRequestProxy_OnMessage],
      ds_registry = empty_registry, ds_router = NewRouter clusterConfig, ds_clusterNet = NewClusterNet clusterConfig\<rparr>"

definition sys_RegisterActorType :: "vactor_api \<Rightarrow> int \<Rightarrow> actor_creator \<Rightarrow> 'p dvsystem \<Rightarrow> 'p dvsystem option" where
  "sys_RegisterActorType V actorType creator s =
     RegisterActorType V (\<lambda>t s. s\<lparr>ds_calls := ds_calls s @ [VRegisterActorType t creator]\<rparr>) actorType s"

definition sys_RegisterMessageType :: "u32 \<Rightarrow> nat \<Rightarrow> 'p dvsystem \<Rightarrow> 'p dvsystem" where
  "sys_RegisterMessageType msgType rtype s = s\<lparr>ds_registry := RegisterMessageType msgType rtype (ds_registry s)\<rparr>"

text \<open>
  \<open>clusterNet.start\<close>: the synchronous part, then the waiting loop on the values it will read. \<open>Start\<close>
  logs an error and goes on.
\<close>

definition cn_start :: "'p system \<Rightarrow> 'p clusterNet \<Rightarrow> (int \<times> bool) list \<Rightarrow> (wait_result \<times> 'p clusterNet) option" where
  "cn_start S cn rounds = do {
     (_, cn) \<leftarrow> start_net S cn;
     Some (wait_connected S cn rounds, cn) }"

definition sys_Start :: "'p system \<Rightarrow> (int \<times> bool) list \<Rightarrow> 'p dvsystem \<Rightarrow> (wait_result \<times> 'p dvsystem) option" where
  "sys_Start S rounds s = do {
     (r, cn) \<leftarrow> cn_start S (ds_clusterNet s) rounds;
     Some (r, s\<lparr>ds_calls := ds_calls s @ [VStart], ds_clusterNet := cn\<rparr>) }"

section \<open>The proxies belong to the library\<close>

fun register_types :: "vactor_api \<Rightarrow> (int \<times> actor_creator) list \<Rightarrow> 'p dvsystem \<Rightarrow> 'p dvsystem option" where
  "register_types V [] s = Some s"
| "register_types V ((t, creator) # regs) s = do { s \<leftarrow> sys_RegisterActorType V t creator s; register_types V regs s }"

lemma register_types_calls:
  "register_types V regs s = (if \<forall>(t, creator) \<in> set regs. ActorTypeStart V \<le> t
     then Some (s\<lparr>ds_calls := ds_calls s @ map (\<lambda>(t, creator). VRegisterActorType t creator) regs\<rparr>) else None)"
  by (induction regs arbitrary: s) (auto simp: sys_RegisterActorType_def RegisterActorType_def)

text \<open>
  Whatever actor types the user registers on a new system, the two proxy types keep the creators
  \<open>NewSystem\<close> gave them: a user registration of a type in the reserved range panics, and the two types
  are distinct and in that range.
\<close>

lemma proxies_protected:
  assumes "register_types V regs (NewSystem V cfg fs :: 'p dvsystem) = Some s"
  shows "VRegisterActorType (WatchProxyActorType V) creator \<in> set (ds_calls s) \<longleftrightarrow> creator = NewWatchProxy_OnMessage"
    and "VRegisterActorType (RequestProxyActorType V) creator \<in> set (ds_calls s) \<longleftrightarrow> creator = NewRequestProxy_OnMessage"
proof -
  from assms have regs: "\<forall>(t, c) \<in> set regs. va_ActorTypeStart V + 10 \<le> t"
      and calls: "ds_calls s = ds_calls (NewSystem V cfg fs :: 'p dvsystem) @ map (\<lambda>(t, c). VRegisterActorType t c) regs"
    by (auto simp: register_types_calls ActorTypeStart_def split: if_splits)
  from regs have "(va_ActorTypeStart V + 2, c) \<notin> set regs" "(va_ActorTypeStart V + 1, c) \<notin> set regs" for c
    by fastforce+
  then show "VRegisterActorType (WatchProxyActorType V) creator \<in> set (ds_calls s) \<longleftrightarrow> creator = NewWatchProxy_OnMessage"
    and "VRegisterActorType (RequestProxyActorType V) creator \<in> set (ds_calls s) \<longleftrightarrow> creator = NewRequestProxy_OnMessage"
    by (auto simp: calls NewSystem_def WatchProxyActorType_def RequestProxyActorType_def)
qed

text \<open>The vactor system, the router and the cluster net agree on the local id, whatever the user's functions set.\<close>

lemma local_id_agrees:
  assumes "VNewSystem fs' \<in> set (ds_calls (NewSystem V cfg fs :: 'p dvsystem))"
  shows "fold (\<lambda>f. f) fs' i = rt_systemId (ds_router (NewSystem V cfg fs :: 'p dvsystem))"
  using assms by (auto simp: NewSystem_def NewRouter_def)

text \<open>The state \<open>Start\<close> leaves is the one the node of \<open>Registration\<close> begins with.\<close>

lemma sys_Start_node:
  assumes "sys_Start S rounds (NewSystem (sy_api S) (sy_config S) fs) = Some (r, s)"
  shows "\<exists>nd. started_node S = Some nd \<and> ds_clusterNet s = nd_cn nd"
  using assms by (auto simp: sys_Start_def cn_start_def started_node_def NewSystem_def)
text \<open>
  A local id that is in no configuration: the node counts as the last one and still starts the server,
  which reads the port of a missing info. \<open>start\<close> panics unless there is no configuration at all.
\<close>

lemma build_infos_absent:
  "l \<notin> set (map sc_SystemId cs) \<Longrightarrow> fst (build_infos l i False li infos cs) = li"
  by (induction cs arbitrary: i infos) (auto simp: Let_def)

lemma unknown_local_id_panics:
  fixes S :: "'p system"
  assumes "cc_LocalSystemId (sy_config S) \<notin> set (map sc_SystemId (cc_SystemConfigs (sy_config S)))"
    and "cc_SystemConfigs (sy_config S) \<noteq> []"
  shows "cn_start S (NewClusterNet (sy_config S)) rounds = None"
proof -
  let ?cn = "NewClusterNet (sy_config S) :: 'p clusterNet" and ?cfg = "sy_config S"
  have dom: "dom (cn_systemInfos ?cn) = set (map sc_SystemId (cc_SystemConfigs ?cfg))"
    using build_infos_dom [of "cc_LocalSystemId ?cfg" 0 False "-1" Map.empty "cc_SystemConfigs ?cfg"]
    by (simp add: NewClusterNet_def case_prod_beta)
  have "cn_localSystemIndex ?cn = -1"
    using build_infos_absent [OF assms(1)] by (simp add: NewClusterNet_def case_prod_beta)
  moreover have "cn_systemCount ?cn = card (dom (cn_systemInfos ?cn))" by (simp add: NewClusterNet_def case_prod_beta)
  moreover have "0 < card (dom (cn_systemInfos ?cn))" using assms(2) by (simp add: dom card_gt_0_iff)
  ultimately have "starts_server (?cn\<lparr>cn_connectedSystemCount := n\<rparr>)" for n by (simp add: starts_server_def)
  moreover have "cn_systemInfos ?cn (cc_LocalSystemId ?cfg) = None" using assms(1) dom by (metis domIff)
  ultimately show ?thesis by (simp add: cn_start_def start_net_def NewServer_port_def Let_def)
qed

end
