(* ===== verification/Watch_Proxy.thy ===== *)
theory Watch_Proxy
  imports Placement
begin

text \<open>
  The watch proxy actor (\<open>watch_proxy.go\<close>): it collects the local subscribers of one remote actor
  per watch type, watches that actor once per type that has subscribers, and hands every
  notification on. Calls on the actor context and on queues are recorded as effects, in order.
\<close>

section \<open>State and effects\<close>

text \<open>
  A Go map to \<open>bool\<close> that only ever holds \<open>true\<close> is a set. A queue is its address; the record
  \<open>ActorRefImpl\<close> is a map key by value, as in Go.
\<close>

record WatchProxy =
  wp_queuess :: "int \<rightharpoonup> nat set"
  wp_watcherss :: "int \<rightharpoonup> ActorRefImpl set"
  wp_watcheeActorRef :: ActorRef

definition NewWatchProxy :: WatchProxy where
  "NewWatchProxy = \<lparr>wp_queuess = Map.empty, wp_watcherss = Map.empty, wp_watcheeActorRef = None\<rparr>"

datatype 'p effect =
    CtxWatch ActorRef int
  | CtxUnwatch ActorRef int
  | SetStopInterval int
  | QueueEnqueue nat "'p message"
  | CtxLocalRouter "'p envelope"

section \<open>Operations\<close>

definition isWatch :: "WatchProxy \<Rightarrow> int \<Rightarrow> bool" where
  "isWatch wp watchType \<longleftrightarrow> wp_queuess wp watchType \<noteq> None \<or> wp_watcherss wp watchType \<noteq> None"

text \<open>The statements both update functions have in common, first on the table, then after it.\<close>

definition table_update :: "int \<Rightarrow> bool \<Rightarrow> 'a \<Rightarrow> (int \<rightharpoonup> 'a set) \<Rightarrow> (int \<rightharpoonup> 'a set)" where
  "table_update watchType iswatch x table =
     (if iswatch then table(watchType \<mapsto> insert x (case table watchType of None \<Rightarrow> {} | Some xs \<Rightarrow> xs))
      else case table watchType of
             None \<Rightarrow> table
           | Some xs \<Rightarrow>
               if x \<in> xs then
                 let xs = xs - {x} in
                 if xs = {} then table(watchType := None) else table(watchType \<mapsto> xs)
               else table)"

definition stopInterval :: int where "stopInterval = 10 * 10 ^ 9"  \<comment> \<open>nanoseconds\<close>

definition watch_effects :: "bool \<Rightarrow> int \<Rightarrow> WatchProxy \<Rightarrow> 'p effect list" where
  "watch_effects oldIsWatch watchType wp =
     (let newIsWatch = isWatch wp watchType in
      if \<not> oldIsWatch \<and> newIsWatch then
        [SetStopInterval 0, CtxWatch (wp_watcheeActorRef wp) watchType]
      else if oldIsWatch \<and> \<not> newIsWatch then
        (if wp_queuess wp = Map.empty \<and> wp_watcherss wp = Map.empty then [SetStopInterval stopInterval] else []) @
        [CtxUnwatch (wp_watcheeActorRef wp) watchType]
      else [])"

text \<open>
  The type assertion on a \<open>nil\<close> watcher panics; it is reached unless the watcher is to be removed
  from a table that has no entry for the type.
\<close>

definition updateInnerWatch ::
  "int \<Rightarrow> bool \<Rightarrow> ActorRef \<Rightarrow> WatchProxy \<Rightarrow> ('p effect list \<times> WatchProxy) option" where
  "updateInnerWatch watchType iswatch watcher wp =
     (let oldIsWatch = isWatch wp watchType in
      if \<not> iswatch \<and> wp_watcherss wp watchType = None then Some (watch_effects oldIsWatch watchType wp, wp)
      else do {
        w \<leftarrow> watcher;
        let wp = wp\<lparr>wp_watcherss := table_update watchType iswatch w (wp_watcherss wp)\<rparr>;
        Some (watch_effects oldIsWatch watchType wp, wp) })"

definition updateOuterWatch :: "int \<Rightarrow> bool \<Rightarrow> nat \<Rightarrow> WatchProxy \<Rightarrow> 'p effect list \<times> WatchProxy" where
  "updateOuterWatch watchType iswatch queue wp =
     (let oldIsWatch = isWatch wp watchType;
          wp = wp\<lparr>wp_queuess := table_update watchType iswatch queue (wp_queuess wp)\<rparr>
      in (watch_effects oldIsWatch watchType wp, wp))"

text \<open>
  The loop over the queues of a type, in the order \<open>queues\<close>: a queue that refuses the message
  (it was closed; \<open>accepts\<close> says which do not) is unsubscribed.
\<close>

fun enqueue_loop ::
  "(nat \<Rightarrow> bool) \<Rightarrow> int \<Rightarrow> 'p message \<Rightarrow> nat list \<Rightarrow> WatchProxy \<Rightarrow> 'p effect list \<times> WatchProxy" where
  "enqueue_loop accepts watchType msg [] wp = ([], wp)"
| "enqueue_loop accepts watchType msg (queue # queues) wp =
     (let (es, wp) = (if \<not> accepts queue then updateOuterWatch watchType False queue wp else ([], wp));
          (es', wp) = enqueue_loop accepts watchType msg queues wp
      in (QueueEnqueue queue msg # es @ es', wp))"

text \<open>
  The two notification cases: \<open>msg\<close> goes to the queues, \<open>e\<close> to the watchers. \<open>qorder\<close> and \<open>worder\<close> are
  the orders in which Go visits the two maps.
\<close>

definition notify ::
  "(nat \<Rightarrow> bool) \<Rightarrow> nat list \<Rightarrow> ActorRefImpl list \<Rightarrow> int \<Rightarrow> 'p message \<Rightarrow> 'p message \<Rightarrow> WatchProxy \<Rightarrow> 'p effect list \<times> WatchProxy" where
  "notify accepts qorder worder watchType msg e wp =
     (let (es, wp) = (if wp_queuess wp watchType \<noteq> None
                      then enqueue_loop accepts watchType msg qorder wp else ([], wp));
          es' = (if wp_watcherss wp watchType \<noteq> None
                 then [CtxLocalRouter (EnvelopeBatchSend (wp_watcheeActorRef wp) (map Some worder) [e])]
                 else [])
      in (es @ es', wp))"

text \<open>
  What the message's context and the environment supply: the proxy's own actor id, the sender, the
  context's \<open>CreateActorRef\<close>, which queues accept, and the map orders.
\<close>

record ctx =
  cx_actorId :: string
  cx_from :: ActorRef
  cx_create :: "int \<Rightarrow> string \<Rightarrow> ActorRefImpl option"
  cx_accepts :: "nat \<Rightarrow> bool"
  cx_qorder :: "nat list"
  cx_worder :: "ActorRefImpl list"

definition WatchProxy_OnMessage ::
  "vactor_api \<Rightarrow> ctx \<Rightarrow> 'p message \<Rightarrow> WatchProxy \<Rightarrow> ('p effect list \<times> WatchProxy) option" where
  "WatchProxy_OnMessage V cx msg wp =
     (case msg of
        MsgOnStart \<Rightarrow> do {
          watchee \<leftarrow> GetWatcheeActorRef V (cx_create cx) (cx_actorId cx);
          Some ([], wp\<lparr>wp_watcheeActorRef := watchee\<rparr>) }
      | InnerWatch watchType iswatch \<Rightarrow> updateInnerWatch watchType iswatch (cx_from cx) wp
      | OuterWatch watchType iswatch queue \<Rightarrow> Some (updateOuterWatch watchType iswatch queue wp)
      | MsgOnWatchMsg a watchType m \<Rightarrow>
          Some (notify (cx_accepts cx) (cx_qorder cx) (cx_worder cx) watchType
                  (MsgOnWatchMsg (wp_watcheeActorRef wp) watchType m) (MsgOnWatchMsg a watchType m) wp)
      | MsgOnEventMsg eventId m \<Rightarrow>
          Some (notify (cx_accepts cx) (cx_qorder cx) (cx_worder cx) (go_conv (WatchType_t V) eventId)
                  (MsgOnEventMsg eventId m) (MsgOnEventMsg eventId m) wp)
      | _ \<Rightarrow> Some ([], wp))"

section \<open>The subscriptions as a set\<close>

datatype subscriber = SubQueue nat | SubWatcher ActorRefImpl

definition members :: "(int \<rightharpoonup> 'a set) \<Rightarrow> int \<Rightarrow> 'a set" where
  "members table w = (case table w of None \<Rightarrow> {} | Some xs \<Rightarrow> xs)"

definition subscriptions :: "WatchProxy \<Rightarrow> (int \<times> subscriber) set" where
  "subscriptions wp = {(w, SubQueue q) | w q. q \<in> members (wp_queuess wp) w} \<union>
     {(w, SubWatcher a) | w a. a \<in> members (wp_watcherss wp) w}"

text \<open>No table has an empty entry.\<close>

definition wp_inv :: "WatchProxy \<Rightarrow> bool" where
  "wp_inv wp \<longleftrightarrow> (\<forall>w. wp_queuess wp w \<noteq> Some {}) \<and> (\<forall>w. wp_watcherss wp w \<noteq> Some {})"

lemma members_table_update:
  "members (table_update w b x table) v =
     (if v = w then if b then insert x (members table w) else members table w - {x} else members table v)"
  by (auto simp: table_update_def members_def Let_def split: option.splits)

lemma table_update_nonempty:
  "\<forall>w. table w \<noteq> Some {} \<Longrightarrow> table_update w b x table v \<noteq> Some {}"
  by (auto simp: table_update_def Let_def split: option.splits if_splits)

lemma members_empty: "\<forall>w. table w \<noteq> Some {} \<Longrightarrow> table w = None \<longleftrightarrow> members table w = {}"
  by (auto simp: members_def split: option.splits)

lemma isWatch_subscribed:
  "wp_inv wp \<Longrightarrow> isWatch wp w \<longleftrightarrow> (\<exists>x. (w, x) \<in> subscriptions wp)"
  using members_empty [of "wp_queuess wp" w] members_empty [of "wp_watcherss wp" w]
  by (auto simp: isWatch_def wp_inv_def subscriptions_def)

lemma no_tables:
  "wp_inv wp \<Longrightarrow> wp_queuess wp = Map.empty \<and> wp_watcherss wp = Map.empty \<longleftrightarrow> subscriptions wp = {}"
  using members_empty [of "wp_queuess wp"] members_empty [of "wp_watcherss wp"]
  by (auto simp: wp_inv_def subscriptions_def fun_eq_iff)

section \<open>What the upstream sees\<close>

text \<open>The watches that are in force upstream, and the stop interval, after a list of effects.\<close>

fun upstream :: "'p effect list \<Rightarrow> (ActorRef \<times> int) set \<Rightarrow> (ActorRef \<times> int) set" where
  "upstream [] U = U"
| "upstream (CtxWatch r w # es) U = upstream es (insert (r, w) U)"
| "upstream (CtxUnwatch r w # es) U = upstream es (U - {(r, w)})"
| "upstream (_ # es) U = upstream es U"

fun stop_interval :: "'p effect list \<Rightarrow> int option \<Rightarrow> int option" where
  "stop_interval [] t = t"
| "stop_interval (SetStopInterval t # es) _ = stop_interval es (Some t)"
| "stop_interval (_ # es) t = stop_interval es t"

lemma upstream_append [simp]: "upstream (es @ es') U = upstream es' (upstream es U)"
  by (induction es U rule: upstream.induct) auto

lemma stop_interval_append [simp]: "stop_interval (es @ es') t = stop_interval es' (stop_interval es t)"
  by (induction es t rule: stop_interval.induct) auto

definition subscribed_types :: "WatchProxy \<Rightarrow> int set" where
  "subscribed_types wp = fst ` subscriptions wp"

text \<open>
  The state of the world agrees with the proxy: it is watching the watchee for exactly the types
  with a subscriber, and its stop interval is 0 while there is a subscriber and otherwise, unless
  it was never set, ten seconds.
\<close>

definition in_sync :: "(ActorRef \<times> int) set \<times> int option \<Rightarrow> WatchProxy \<Rightarrow> bool" where
  "in_sync U wp \<longleftrightarrow> fst U = {(wp_watcheeActorRef wp, w) | w. w \<in> subscribed_types wp} \<and>
     (if subscriptions wp = {} then snd U \<in> {None, Some stopInterval} else snd U = Some 0)"

definition apply_effects :: "'p effect list \<Rightarrow> (ActorRef \<times> int) set \<times> int option \<Rightarrow> (ActorRef \<times> int) set \<times> int option" where
  "apply_effects es U = (upstream es (fst U), stop_interval es (snd U))"

text \<open>Changing the subscriptions of one type and issuing \<open>watch_effects\<close> keeps the two in agreement.\<close>

lemma watch_effects_sync:
  assumes "wp_inv wp" and "wp_inv wp'" and "wp_watcheeActorRef wp' = wp_watcheeActorRef wp"
    and "\<And>v x. v \<noteq> w \<Longrightarrow> (v, x) \<in> subscriptions wp' \<longleftrightarrow> (v, x) \<in> subscriptions wp"
    and "in_sync U wp"
  shows "in_sync (apply_effects (watch_effects (isWatch wp w) w wp') U) wp'"
proof -
  have types: "v \<noteq> w \<Longrightarrow> v \<in> subscribed_types wp' \<longleftrightarrow> v \<in> subscribed_types wp" for v
    using assms(4) by (force simp: subscribed_types_def)
  have old: "isWatch wp w \<longleftrightarrow> w \<in> subscribed_types wp" and new: "isWatch wp' w \<longleftrightarrow> w \<in> subscribed_types wp'"
    using isWatch_subscribed [OF assms(1)] isWatch_subscribed [OF assms(2)] by (force simp: subscribed_types_def)+
  have none: "wp_queuess wp' = Map.empty \<and> wp_watcherss wp' = Map.empty \<longleftrightarrow> subscribed_types wp' = {}"
    using no_tables [OF assms(2)] by (simp add: subscribed_types_def)
  have empty: "subscriptions p = {} \<longleftrightarrow> subscribed_types p = {}" for p by (simp add: subscribed_types_def)
  let ?T = "subscribed_types wp" and ?T' = "subscribed_types wp'" and ?r = "wp_watcheeActorRef wp"
  have U: "fst U = {(?r, v) | v. v \<in> ?T}" "if ?T = {} then snd U \<in> {None, Some stopInterval} else snd U = Some 0"
    using assms(5) [unfolded in_sync_def empty] by (blast, argo)
  have T': "?T' = (if w \<in> ?T' then insert w ?T else ?T - {w})"
  proof (rule set_eqI)
    show "v \<in> ?T' \<longleftrightarrow> v \<in> (if w \<in> ?T' then insert w ?T else ?T - {w})" for v
      by (cases "v = w") (auto simp: types)
  qed
  have goal: "in_sync V wp' \<longleftrightarrow> fst V = {(?r, v) | v. v \<in> ?T'} \<and>
      (if ?T' = {} then snd V \<in> {None, Some stopInterval} else snd V = Some 0)" for V
    by (simp add: in_sync_def empty assms(3))
  note unf = goal apply_effects_def watch_effects_def Let_def old new none assms(3)
  show ?thesis
  proof (cases "w \<in> ?T'")
    case True
    with T' have "?T' = insert w ?T" by argo
    with U show ?thesis unfolding unf by (cases "w \<in> ?T") (auto split: if_splits)
  next
    case False
    with T' have "?T' = ?T - {w}" by argo
    with U show ?thesis unfolding unf by (cases "w \<in> ?T") (auto split: if_splits)
  qed
qed

section \<open>Every operation keeps the agreement\<close>

definition update_subs :: "bool \<Rightarrow> int \<times> subscriber \<Rightarrow> (int \<times> subscriber) set \<Rightarrow> (int \<times> subscriber) set" where
  "update_subs b x A = (if b then insert x A else A - {x})"

lemma outer_subscriptions:
  "subscriptions (wp\<lparr>wp_queuess := table_update w b q (wp_queuess wp)\<rparr>) =
   update_subs b (w, SubQueue q) (subscriptions wp)"
  by (auto simp: subscriptions_def update_subs_def members_table_update split: if_splits)

lemma inner_subscriptions:
  "subscriptions (wp\<lparr>wp_watcherss := table_update w b a (wp_watcherss wp)\<rparr>) =
   update_subs b (w, SubWatcher a) (subscriptions wp)"
  by (auto simp: subscriptions_def update_subs_def members_table_update split: if_splits)

lemma updateOuterWatch_spec:
  assumes "wp_inv wp" and "updateOuterWatch w b q wp = (es, wp')"
  shows "wp_inv wp' \<and> wp_watcheeActorRef wp' = wp_watcheeActorRef wp \<and> wp_watcherss wp' = wp_watcherss wp \<and>
    subscriptions wp' = update_subs b (w, SubQueue q) (subscriptions wp) \<and>
    (in_sync U wp \<longrightarrow> in_sync (apply_effects es U) wp')"
proof -
  have wp': "wp' = wp\<lparr>wp_queuess := table_update w b q (wp_queuess wp)\<rparr>"
    and es: "es = watch_effects (isWatch wp w) w wp'"
    using assms(2) by (auto simp: updateOuterWatch_def Let_def)
  have inv: "wp_inv wp'" using assms(1) by (simp add: wp' wp_inv_def table_update_nonempty)
  have subs: "subscriptions wp' = update_subs b (w, SubQueue q) (subscriptions wp)"
    unfolding wp' by (rule outer_subscriptions)
  have "in_sync (apply_effects es U) wp'" if "in_sync U wp"
    unfolding es by (rule watch_effects_sync [OF assms(1) inv _ _ that]) (auto simp: wp' subs [unfolded wp'] update_subs_def)
  with inv subs show ?thesis by (simp add: wp')
qed

lemma watch_effects_same: "watch_effects (isWatch wp w) w wp = []"
  by (simp add: watch_effects_def Let_def)

lemma updateInnerWatch_spec:
  assumes "wp_inv wp" and "updateInnerWatch w b f wp = Some (es, wp')"
  shows "wp_inv wp' \<and> wp_watcheeActorRef wp' = wp_watcheeActorRef wp \<and> wp_queuess wp' = wp_queuess wp \<and>
    subscriptions wp' = (case f of None \<Rightarrow> subscriptions wp | Some a \<Rightarrow> update_subs b (w, SubWatcher a) (subscriptions wp)) \<and>
    (in_sync U wp \<longrightarrow> in_sync (apply_effects es U) wp')"
proof (cases "\<not> b \<and> wp_watcherss wp w = None")
  case True
  with assms(2) have "es = []" "wp' = wp"
    by (simp_all add: updateInnerWatch_def watch_effects_same)
  moreover from True have "(w, SubWatcher a) \<notin> subscriptions wp" for a
    by (simp add: subscriptions_def members_def)
  ultimately show ?thesis using True assms(1)
    by (auto simp: apply_effects_def update_subs_def split: option.splits)
next
  case False
  with assms(2) obtain a where f: "f = Some a"
    and wp': "wp' = wp\<lparr>wp_watcherss := table_update w b a (wp_watcherss wp)\<rparr>"
    and es: "es = watch_effects (isWatch wp w) w wp'"
    by (auto simp: updateInnerWatch_def Let_def)
  have inv: "wp_inv wp'" using assms(1) by (simp add: wp' wp_inv_def table_update_nonempty)
  have subs: "subscriptions wp' = update_subs b (w, SubWatcher a) (subscriptions wp)"
    unfolding wp' by (rule inner_subscriptions)
  have "in_sync (apply_effects es U) wp'" if "in_sync U wp"
    unfolding es by (rule watch_effects_sync [OF assms(1) inv _ _ that]) (auto simp: wp' subs [unfolded wp'] update_subs_def)
  with inv subs f show ?thesis by (simp add: wp')
qed

text \<open>The queues that refuse a notification lose their subscription.\<close>

definition refused :: "(nat \<Rightarrow> bool) \<Rightarrow> int \<Rightarrow> nat list \<Rightarrow> (int \<times> subscriber) set" where
  "refused accepts w queues = {(w, SubQueue q) | q. q \<in> set queues \<and> \<not> accepts q}"

lemma apply_effects_enqueue [simp]: "apply_effects (QueueEnqueue q m # es) U = apply_effects es U"
  by (simp add: apply_effects_def)

lemma apply_effects_append [simp]: "apply_effects (es @ es') U = apply_effects es' (apply_effects es U)"
  by (simp add: apply_effects_def)

lemma apply_effects_Nil [simp]: "apply_effects [] U = U"
  by (simp add: apply_effects_def)

lemma enqueue_loop_spec:
  fixes msg :: "'p message"
  assumes "wp_inv wp" and "enqueue_loop accepts w msg queues wp = (es, wp')"
  shows "wp_inv wp' \<and> wp_watcheeActorRef wp' = wp_watcheeActorRef wp \<and> wp_watcherss wp' = wp_watcherss wp \<and>
    subscriptions wp' = subscriptions wp - refused accepts w queues \<and>
    (in_sync U wp \<longrightarrow> in_sync (apply_effects es U) wp')"
  using assms
proof (induction queues arbitrary: wp es U)
  case Nil
  then show ?case by (simp add: refused_def)
next
  case (Cons q queues)
  obtain es1 :: "'p effect list" and wp1 where 1: "(if \<not> accepts q then updateOuterWatch w False q wp else ([], wp)) = (es1, wp1)" by fastforce
  obtain es2 where 2: "enqueue_loop accepts w msg queues wp1 = (es2, wp')" "es = QueueEnqueue q msg # es1 @ es2"
    using Cons.prems(2) 1 by (auto simp: Let_def split: prod.splits)
  have step: "wp_inv wp1 \<and> wp_watcheeActorRef wp1 = wp_watcheeActorRef wp \<and> wp_watcherss wp1 = wp_watcherss wp \<and>
      subscriptions wp1 = (if accepts q then subscriptions wp else subscriptions wp - {(w, SubQueue q)}) \<and>
      (in_sync U wp \<longrightarrow> in_sync (apply_effects es1 U) wp1)"
    using 1 updateOuterWatch_spec [OF Cons.prems(1), of w False q es1 wp1 U] Cons.prems(1)
    by (auto simp: update_subs_def split: if_splits)
  then have "wp_inv wp1" by simp
  from Cons.IH [OF this 2(1), of "apply_effects es1 U"] step show ?case
    by (auto simp: 2(2) refused_def split: if_splits)
qed

definition queue_members :: "WatchProxy \<Rightarrow> int \<Rightarrow> nat set" where
  "queue_members wp w = members (wp_queuess wp) w"

definition watcher_members :: "WatchProxy \<Rightarrow> int \<Rightarrow> ActorRefImpl set" where
  "watcher_members wp w = members (wp_watcherss wp) w"

lemma notify_spec:
  fixes msg :: "'p message"
  assumes "wp_inv wp" and "set queues = queue_members wp w" and "notify accepts queues watchers w msg e wp = (es, wp')"
  shows "wp_inv wp' \<and> wp_watcheeActorRef wp' = wp_watcheeActorRef wp \<and>
    subscriptions wp' = subscriptions wp - {(w, SubQueue q) | q. \<not> accepts q} \<and>
    (in_sync U wp \<longrightarrow> in_sync (apply_effects es U) wp')"
proof -
  obtain es1 :: "'p effect list" where 1: "(if wp_queuess wp w \<noteq> None then enqueue_loop accepts w msg queues wp else ([], wp)) = (es1, wp')"
    and es: "es = es1 \<or> (\<exists>x. es = es1 @ [CtxLocalRouter x])"
    using assms(3) by (auto simp: notify_def Let_def split: prod.splits if_splits)
  have ap: "apply_effects es U = apply_effects es1 U"
    using es by (auto simp: apply_effects_def)
  have subs: "subscriptions wp - refused accepts w queues = subscriptions wp - {(w, SubQueue q) | q. \<not> accepts q}"
    using assms(2) by (auto simp: refused_def queue_members_def subscriptions_def)
  show ?thesis
  proof (cases "wp_queuess wp w")
    case None
    with 1 have "es1 = []" "wp' = wp" by auto
    moreover have "(w, SubQueue q) \<notin> subscriptions wp" for q using None by (simp add: subscriptions_def members_def)
    ultimately show ?thesis using assms(1) by (auto simp: ap)
  next
    case (Some x)
    with 1 have "enqueue_loop accepts w msg queues wp = (es1, wp')" by simp
    from enqueue_loop_spec [OF assms(1) this, of U] show ?thesis by (simp add: ap subs)
  qed
qed

section \<open>Runs of an actor\<close>

text \<open>The effects of a list of messages, one after the other.\<close>

fun run :: "('m \<Rightarrow> 's \<Rightarrow> ('e list \<times> 's) option) \<Rightarrow> 'm list \<Rightarrow> 's \<Rightarrow> ('e list \<times> 's) option" where
  "run step [] s = Some ([], s)"
| "run step (m # ms) s = do {
     (es, s) \<leftarrow> step m s;
     (es', s) \<leftarrow> run step ms s;
     Some (es @ es', s) }"

text \<open>
  An actor whose effects keep the world in agreement with its state, and whose state refines an
  abstract one: then so do its runs.
\<close>

locale synced_actor =
  fixes step :: "'m \<Rightarrow> 's \<Rightarrow> ('e list \<times> 's) option"
    and inv :: "'s \<Rightarrow> bool"
    and abs :: "'s \<Rightarrow> 'a"
    and spec :: "'m \<Rightarrow> 'a \<Rightarrow> 'a"
    and agrees :: "'w \<Rightarrow> 's \<Rightarrow> bool"
    and world :: "'e list \<Rightarrow> 'w \<Rightarrow> 'w"
  assumes world_Nil: "world [] W = W"
    and world_append: "world (es @ es') W = world es' (world es W)"
    and step_inv: "inv s \<Longrightarrow> step m s = Some (es, s') \<Longrightarrow> inv s'"
    and step_abs: "inv s \<Longrightarrow> step m s = Some (es, s') \<Longrightarrow> abs s' = spec m (abs s)"
    and step_agrees: "inv s \<Longrightarrow> agrees W s \<Longrightarrow> step m s = Some (es, s') \<Longrightarrow> agrees (world es W) s'"
begin

lemma run_spec:
  assumes "inv s" and "agrees W s" and "run step ms s = Some (es, s')"
  shows "inv s' \<and> abs s' = fold spec ms (abs s) \<and> agrees (world es W) s'"
  using assms
proof (induction ms arbitrary: s W es)
  case Nil
  then show ?case by (simp add: world_Nil)
next
  case (Cons m ms)
  then obtain es1 s1 es2 where 1: "step m s = Some (es1, s1)" "run step ms s1 = Some (es2, s')" "es = es1 @ es2"
    by auto
  from Cons.IH [OF step_inv [OF Cons.prems(1) 1(1)] step_agrees [OF Cons.prems(1,2) 1(1)] 1(2)]
  show ?case by (simp add: 1(3) world_append step_abs [OF Cons.prems(1) 1(1)])
qed

end

text \<open>
  The proxy's messages after the first: \<open>MsgOnStart\<close> comes once. The orders in which Go visits the
  two maps enumerate their keys.
\<close>

definition notified_type :: "vactor_api \<Rightarrow> 'p message \<Rightarrow> int option" where
  "notified_type V msg =
     (case msg of
        MsgOnWatchMsg a w m \<Rightarrow> Some w
      | MsgOnEventMsg eventId m \<Rightarrow> Some (go_conv (WatchType_t V) eventId)
      | _ \<Rightarrow> None)"

definition orders_ok :: "vactor_api \<Rightarrow> ctx \<Rightarrow> 'p message \<Rightarrow> WatchProxy \<Rightarrow> bool" where
  "orders_ok V cx msg wp \<longleftrightarrow>
     (case notified_type V msg of
        None \<Rightarrow> True
      | Some w \<Rightarrow> distinct (cx_qorder cx) \<and> set (cx_qorder cx) = queue_members wp w \<and>
                  distinct (cx_worder cx) \<and> set (cx_worder cx) = watcher_members wp w)"

definition proxy_step :: "vactor_api \<Rightarrow> ctx \<times> 'p message \<Rightarrow> WatchProxy \<Rightarrow> ('p effect list \<times> WatchProxy) option" where
  "proxy_step V = (\<lambda>(cx, msg) wp.
     if msg = MsgOnStart \<or> \<not> orders_ok V cx msg wp then None else WatchProxy_OnMessage V cx msg wp)"

text \<open>What a message means for the set of subscriptions.\<close>

definition subs_step :: "vactor_api \<Rightarrow> ctx \<times> 'p message \<Rightarrow> (int \<times> subscriber) set \<Rightarrow> (int \<times> subscriber) set" where
  "subs_step V = (\<lambda>(cx, msg) A.
     case msg of
       InnerWatch w b \<Rightarrow> (case cx_from cx of None \<Rightarrow> A | Some a \<Rightarrow> update_subs b (w, SubWatcher a) A)
     | OuterWatch w b q \<Rightarrow> update_subs b (w, SubQueue q) A
     | _ \<Rightarrow> (case notified_type V msg of
               None \<Rightarrow> A
             | Some w \<Rightarrow> A - {(w, SubQueue q) | q. \<not> cx_accepts cx q}))"

lemma proxy_step_spec:
  assumes "wp_inv wp" and "proxy_step V m wp = Some (es, wp')"
  shows "wp_inv wp' \<and> subscriptions wp' = subs_step V m (subscriptions wp) \<and>
    wp_watcheeActorRef wp' = wp_watcheeActorRef wp \<and> (in_sync U wp \<longrightarrow> in_sync (apply_effects es U) wp')"
proof -
  obtain cx msg where m: "m = (cx, msg)" by (cases m)
  have run: "WatchProxy_OnMessage V cx msg wp = Some (es, wp')" and ok: "orders_ok V cx msg wp" and start: "msg \<noteq> MsgOnStart"
    using assms(2) by (auto simp: proxy_step_def m split: if_splits)
  note notify = notify_spec [OF assms(1), of "cx_qorder cx" _ "cx_accepts cx" "cx_worder cx" _ _ es wp' U]
  show ?thesis
  proof (cases msg)
    case (InnerWatch w b)
    with run updateInnerWatch_spec [OF assms(1), of w b "cx_from cx" es wp' U] show ?thesis
      by (simp add: m WatchProxy_OnMessage_def subs_step_def split: option.splits)
  next
    case (OuterWatch w b q)
    with run updateOuterWatch_spec [OF assms(1), of w b q es wp' U] show ?thesis
      by (simp add: m WatchProxy_OnMessage_def subs_step_def)
  next
    case (MsgOnWatchMsg a w x)
    with run ok notify [of w] show ?thesis
      by (simp add: m WatchProxy_OnMessage_def subs_step_def orders_ok_def notified_type_def)
  next
    case (MsgOnEventMsg i x)
    with run ok notify [of "go_conv (WatchType_t V) i"] show ?thesis
      by (simp add: m WatchProxy_OnMessage_def subs_step_def orders_ok_def notified_type_def del: go_conv.simps)
  qed (use run start assms(1) in \<open>simp_all add: m WatchProxy_OnMessage_def subs_step_def notified_type_def\<close>)
qed

interpretation wpx: synced_actor "proxy_step V" wp_inv subscriptions "subs_step V" in_sync apply_effects
  for V
proof unfold_locales
  fix m :: "ctx \<times> 'p message" and es es' :: "'p effect list" and s s' W
  assume "wp_inv s" and "proxy_step V m s = Some (es, s')"
  note spec = proxy_step_spec [OF this, of W]
  show "wp_inv s'" and "subscriptions s' = subs_step V m (subscriptions s)"
    using spec by auto
  show "in_sync (apply_effects es W) s'" if "in_sync W s" using spec that by simp
qed (simp_all add: apply_effects_def)

section \<open>Main theorems\<close>

text \<open>
  C27. The watch proxy keeps exactly the subscriptions its messages ask for, and its watch on the
  remote actor in step with them: from \<open>MsgOnStart\<close> on, after any sequence of subscriptions,
  unsubscriptions, notifications and closed queues, whatever orders Go visits its maps in, it
  watches the actor for exactly the watch types that have a subscriber, and its stop interval is 0
  as long as there is one and ten seconds once the last one has left.
\<close>

theorem watch_proxy_refines_subscriptions:
  assumes "WatchProxy_OnMessage V cx MsgOnStart NewWatchProxy = Some (es0, wp0)"
    and "run (proxy_step V) msgs wp0 = Some (es, wp)"
  shows "subscriptions wp = fold (subs_step V) msgs {} \<and>
    upstream es {} = {(wp_watcheeActorRef wp, w) | w. w \<in> subscribed_types wp} \<and>
    (if subscriptions wp = {} then stop_interval es None \<in> {None, Some stopInterval}
     else stop_interval es None = Some 0)"
proof -
  have wp0: "wp_inv wp0" "subscriptions wp0 = {}"
    using assms(1) by (auto simp: WatchProxy_OnMessage_def NewWatchProxy_def wp_inv_def subscriptions_def members_def)
  then have "in_sync ({}, None) wp0" by (simp add: in_sync_def subscribed_types_def)
  from wpx.run_spec [OF wp0(1) this assms(2)] wp0(2) show ?thesis
    by (simp add: in_sync_def apply_effects_def split: if_splits)
qed

definition demo_ctx :: "ActorRef \<Rightarrow> nat list \<Rightarrow> ActorRefImpl list \<Rightarrow> ctx" where
  "demo_ctx from qs ws = \<lparr>cx_actorId = ''20-a'', cx_from = from,
     cx_create = (\<lambda>t i. Some \<lparr>ar_SystemId = 2, ar_GroupSlot = 1, ar_ActorType = t, ar_ActorId = i\<rparr>),
     cx_accepts = (\<lambda>q. q \<noteq> 7), cx_qorder = qs, cx_worder = ws\<rparr>"

definition demo_watcher :: ActorRefImpl where
  "demo_watcher = \<lparr>ar_SystemId = 1, ar_GroupSlot = 1, ar_ActorType = 21, ar_ActorId = ''w''\<rparr>"

definition demo_watchee :: ActorRef where
  "demo_watchee = Some \<lparr>ar_SystemId = 2, ar_GroupSlot = 1, ar_ActorType = 20, ar_ActorId = ''a''\<rparr>"

lemma demo_start:
  "WatchProxy_OnMessage demo_api (demo_ctx None [] []) MsgOnStart NewWatchProxy =
     Some ([], NewWatchProxy\<lparr>wp_watcheeActorRef := demo_watchee\<rparr>)"
proof -
  have "digit 2 = CHR ''2''" "digit 0 = CHR ''0''" by code_simp+
  then have "proxy_id (the demo_watchee) = ''20-a''"
    by (simp add: demo_watchee_def proxy_id_def show_int_def show_nat.simps [of 20] show_nat.simps [of 2])
  moreover have "has_type (ActorType_t demo_api) 20" by (simp add: demo_api_def has_type_def)
  ultimately have "GetWatcheeActorRef demo_api (cx_create (demo_ctx None [] [])) ''20-a'' = Some demo_watchee"
    using GetWatcheeActorRef_proxy_id [of "the demo_watchee" demo_api "cx_create (demo_ctx None [] [])"]
    by (simp add: demo_watchee_def) (simp add: demo_ctx_def)
  then show ?thesis by (simp add: WatchProxy_OnMessage_def) (simp add: demo_ctx_def)
qed

text \<open>A queue and a watcher subscribe to type 3; the watcher leaves; the queue turns out closed.\<close>

lemma demo_run:
  "run (proxy_step demo_api)
     [(demo_ctx (Some demo_watcher) [] [], InnerWatch 3 True), (demo_ctx None [] [], OuterWatch 3 True 7),
      (demo_ctx (Some demo_watcher) [] [], InnerWatch 3 False),
      (demo_ctx None [7] [], MsgOnWatchMsg demo_watchee 3 (ProtoMsg 2 x))]
     (NewWatchProxy\<lparr>wp_watcheeActorRef := demo_watchee\<rparr>) =
   Some ([SetStopInterval 0, CtxWatch demo_watchee 3,
          QueueEnqueue 7 (MsgOnWatchMsg demo_watchee 3 (ProtoMsg 2 x)),
          SetStopInterval stopInterval, CtxUnwatch demo_watchee 3],
         NewWatchProxy\<lparr>wp_watcheeActorRef := demo_watchee\<rparr>)"
  by (simp add: proxy_step_def orders_ok_def notified_type_def WatchProxy_OnMessage_def updateInnerWatch_def
      updateOuterWatch_def notify_def watch_effects_def isWatch_def table_update_def NewWatchProxy_def
      demo_ctx_def queue_members_def watcher_members_def members_def Let_def fun_upd_idem)

theorem watch_proxy_refines_subscriptions_witness:
  "\<exists>es wp. run (proxy_step demo_api)
     [(demo_ctx (Some demo_watcher) [] [], InnerWatch 3 True), (demo_ctx None [] [], OuterWatch 3 True 7),
      (demo_ctx (Some demo_watcher) [] [], InnerWatch 3 False),
      (demo_ctx None [7] [], MsgOnWatchMsg demo_watchee 3 (ProtoMsg 2 [65 :: u8]))]
     (NewWatchProxy\<lparr>wp_watcheeActorRef := demo_watchee\<rparr>) = Some (es, wp) \<and>
     length es = 5 \<and> upstream es {} = {} \<and> subscriptions wp = {}"
proof -
  have "subscriptions (NewWatchProxy\<lparr>wp_watcheeActorRef := demo_watchee\<rparr>) = {}"
    by (simp add: NewWatchProxy_def subscriptions_def members_def)
  with watch_proxy_refines_subscriptions [OF demo_start demo_run [of "[65 :: u8]"]]
  show ?thesis using demo_run [of "[65 :: u8]"] by (simp add: subscribed_types_def del: run.simps)
qed

text \<open>What a list of effects enqueues and routes.\<close>

definition enqueued :: "'p effect list \<Rightarrow> (nat \<times> 'p message) list" where
  "enqueued es = concat (map (\<lambda>e. case e of QueueEnqueue q m \<Rightarrow> [(q, m)] | _ \<Rightarrow> []) es)"

definition routed :: "'p effect list \<Rightarrow> 'p envelope list" where
  "routed es = concat (map (\<lambda>e. case e of CtxLocalRouter x \<Rightarrow> [x] | _ \<Rightarrow> []) es)"

lemma watch_effects_silent [simp]: "enqueued (watch_effects b w wp) = []" "routed (watch_effects b w wp) = []"
  by (auto simp: watch_effects_def enqueued_def routed_def Let_def)

lemma enqueue_loop_silent:
  "enqueue_loop accepts w m queues wp = (es, wp') \<Longrightarrow>
   enqueued es = map (\<lambda>q. (q, m)) queues \<and> routed es = []"
proof (induction queues arbitrary: wp es)
  case (Cons q queues)
  then show ?case
    using watch_effects_silent
    by (fastforce simp: Let_def updateOuterWatch_def enqueued_def routed_def split: prod.splits if_splits)
qed (auto simp: enqueued_def routed_def)

text \<open>
  C28. A notification reaches every subscriber of its watch type exactly once: it is enqueued once in
  each subscribed queue, with the watchee as the source, and routed locally in one batch to the
  subscribed actors, or in none if there are none. Afterwards the queues that refused it are no
  longer subscribed, everybody else still is.
\<close>

theorem notification_delivered_once:
  assumes "wp_inv wp" and "orders_ok V cx (MsgOnWatchMsg a w m) wp"
    and "WatchProxy_OnMessage V cx (MsgOnWatchMsg a w m) wp = Some (es, wp')"
  shows "distinct (map fst (enqueued es)) \<and> fst ` set (enqueued es) = queue_members wp w \<and>
    snd ` set (enqueued es) \<subseteq> {MsgOnWatchMsg (wp_watcheeActorRef wp) w m} \<and>
    routed es = (if watcher_members wp w = {} then []
      else [EnvelopeBatchSend (wp_watcheeActorRef wp) (map Some (cx_worder cx)) [MsgOnWatchMsg a w m]]) \<and>
    distinct (cx_worder cx) \<and> set (cx_worder cx) = watcher_members wp w \<and>
    subscriptions wp' = subscriptions wp - {(w, SubQueue q) | q. \<not> cx_accepts cx q}"
proof -
  let ?m = "MsgOnWatchMsg (wp_watcheeActorRef wp) w m"
  have orders: "distinct (cx_qorder cx)" "set (cx_qorder cx) = queue_members wp w" "distinct (cx_worder cx)"
      "set (cx_worder cx) = watcher_members wp w"
    using assms(2) by (simp_all add: orders_ok_def notified_type_def)
  have n: "notify (cx_accepts cx) (cx_qorder cx) (cx_worder cx) w ?m (MsgOnWatchMsg a w m) wp = (es, wp')"
    using assms(3) by (simp add: WatchProxy_OnMessage_def)
  have tables: "wp_queuess wp w = None \<longleftrightarrow> queue_members wp w = {}" "wp_watcherss wp w = None \<longleftrightarrow> watcher_members wp w = {}"
    using assms(1) members_empty [of "wp_queuess wp"] members_empty [of "wp_watcherss wp"]
    by (simp_all add: wp_inv_def queue_members_def watcher_members_def)
  obtain es1 wp1 where l: "enqueue_loop (cx_accepts cx) w ?m (cx_qorder cx) wp = (es1, wp1)" by fastforce
  then have l': "(if wp_queuess wp w \<noteq> None then enqueue_loop (cx_accepts cx) w ?m (cx_qorder cx) wp else ([], wp)) = (es1, wp1)"
    using tables orders(2) by (auto split: if_splits)
  have "es = es1 @ (if watcher_members wp w = {} then []
      else [CtxLocalRouter (EnvelopeBatchSend (wp_watcheeActorRef wp1) (map Some (cx_worder cx)) [MsgOnWatchMsg a w m])])"
    and "wp1 = wp'"
    using n [unfolded notify_def l'] enqueue_loop_spec [OF assms(1) l] tables by (auto simp: Let_def)
  moreover have "wp_watcheeActorRef wp1 = wp_watcheeActorRef wp" using enqueue_loop_spec [OF assms(1) l] by simp
  ultimately have "enqueued es = map (\<lambda>q. (q, ?m)) (cx_qorder cx)" and
      "routed es = (if watcher_members wp w = {} then []
        else [EnvelopeBatchSend (wp_watcheeActorRef wp) (map Some (cx_worder cx)) [MsgOnWatchMsg a w m]])"
    using enqueue_loop_silent [OF l] by (auto simp: enqueued_def routed_def)
  with orders notify_spec [OF assms(1) orders(2) n] show ?thesis by (auto simp: comp_def image_image)
qed

theorem notification_delivered_once_witness:
  "\<exists>es wp'. WatchProxy_OnMessage demo_api (demo_ctx None [7] [demo_watcher]) (MsgOnWatchMsg demo_watchee 3 (ProtoMsg 2 [65 :: u8]))
       \<lparr>wp_queuess = [3 \<mapsto> {7}], wp_watcherss = [3 \<mapsto> {demo_watcher}], wp_watcheeActorRef = demo_watchee\<rparr> = Some (es, wp') \<and>
     fst ` set (enqueued es) = {7} \<and>
     routed es = [EnvelopeBatchSend demo_watchee [Some demo_watcher] [MsgOnWatchMsg demo_watchee 3 (ProtoMsg 2 [65])]] \<and>
     subscriptions wp' = {(3, SubWatcher demo_watcher)}"
proof -
  let ?wp = "\<lparr>wp_queuess = [3 \<mapsto> {7}], wp_watcherss = [3 \<mapsto> {demo_watcher}], wp_watcheeActorRef = demo_watchee\<rparr>"
  let ?cx = "demo_ctx None [7] [demo_watcher]" and ?m = "MsgOnWatchMsg demo_watchee 3 (ProtoMsg 2 [65 :: u8])"
  have inv: "wp_inv ?wp" by (simp add: wp_inv_def)
  have members: "queue_members ?wp 3 = {7}" "watcher_members ?wp 3 = {demo_watcher}"
    by (simp_all add: queue_members_def watcher_members_def members_def)
  then have ok: "orders_ok demo_api ?cx ?m ?wp"
    by (simp add: orders_ok_def notified_type_def demo_ctx_def)
  obtain es wp' where r: "WatchProxy_OnMessage demo_api ?cx ?m ?wp = Some (es, wp')"
    by (simp add: WatchProxy_OnMessage_def) fastforce
  have "subscriptions ?wp = {(3, SubQueue 7), (3, SubWatcher demo_watcher)}"
    by (auto simp: subscriptions_def members_def split: if_splits)
  with notification_delivered_once [OF inv ok r] r members show ?thesis
    by (intro exI [of _ es] exI [of _ wp']) (auto simp: demo_ctx_def)
qed

end
