(* ===== verification/Registration_Demo.thy ===== *)
theory Registration_Demo
  imports Registration_Safety
begin

text \<open>
  Concrete runs for the witnesses: node 1 of the demonstration cluster accepts a connection on which
  the requests to register system \<open>i\<close> arrive twice in one chunk, up to the handling of the first.
\<close>

text \<open>
  The request of system \<open>i\<close> is serialized as \<open>[9]\<close>, that of system 1 as \<open>[7]\<close>, the response as \<open>[8]\<close>.
\<close>

definition reg_proto :: "u32 \<Rightarrow> bytes proto_lib" where
  "reg_proto i = \<lparr>Marshal_pkg = \<lambda>p. if p = PkgRegisterSystemReq i then Some [9]
       else if p = PkgRegisterSystemReq 1 then Some [7] else if p = PkgRegisterSystemRsp ErrorCodeSuccess then Some [8] else None,
     Unmarshal_pkg = \<lambda>k bs. if k = PkgTypeRegisterSystemReq \<and> bs = [9] then Some (PkgRegisterSystemReq i)
       else if k = PkgTypeRegisterSystemReq \<and> bs = [7] then Some (PkgRegisterSystemReq 1)
       else if k = PkgTypeRegisterSystemRsp \<and> bs = [8] then Some (PkgRegisterSystemRsp ErrorCodeSuccess) else None,
     Marshal_msg = \<lambda>t c. Some c, Unmarshal_msg = \<lambda>t b. Some b\<rparr>"

definition reg_system :: "int \<Rightarrow> u32 \<Rightarrow> bytes system" where
  "reg_system sid i = \<lparr>sy_api = demo_api, sy_proto = reg_proto i, sy_registry = demo_registry, sy_config = demo_cluster sid\<rparr>"

lemma reg_system_simps [simp]:
  "sy_api (reg_system sid i) = demo_api" "sy_proto (reg_system sid i) = reg_proto i" "sy_config (reg_system sid i) = demo_cluster sid"
  by (simp_all add: reg_system_def)

lemma reg_proto_simps [simp]:
  "Marshal_pkg (reg_proto i) (PkgRegisterSystemReq i) = Some [9]"
  "Marshal_pkg (reg_proto i) (PkgRegisterSystemRsp ErrorCodeSuccess) = Some [8]"
  "Unmarshal_pkg (reg_proto i) PkgTypeRegisterSystemReq [9] = Some (PkgRegisterSystemReq i)"
  "Unmarshal_pkg (reg_proto i) PkgTypeRegisterSystemReq [7] = Some (PkgRegisterSystemReq 1)"
  "Unmarshal_pkg (reg_proto i) PkgTypeRegisterSystemRsp [8] = Some (PkgRegisterSystemRsp ErrorCodeSuccess)"
  by (simp_all add: reg_proto_def pkg_types)

lemma reg_proto_ok: "proto_ok (reg_proto i)"
  by (simp add: proto_ok_def reg_proto_def pkg_types)

lemma reg_compatible: "compatible (reg_system j i) (reg_system k i)"
  by (simp add: compatible_def reg_system_def demo_wire_types_ok reg_proto_ok demo_registry_ok)

lemma demo_node_of: "node_of (demo_cluster 1) 0" "node_of (demo_cluster 2) 1"
  by (simp_all add: node_of_def demo_cluster_def)

lemma demo_count: "cn_systemCount (NewClusterNet (demo_cluster sid)) = 2"
  by (subst NewClusterNet_count) (simp_all add: demo_cluster_def)

text \<open>Node 1 starts: it is first, so it listens and dials nobody.\<close>

lemma demo_server_start:
  "started_node (reg_system 1 i) = Some \<lparr>nd_cn = (NewClusterNet (demo_cluster 1))\<lparr>cn_connectedSystemCount := 1\<rparr>,
     nd_clients = Map.empty, nd_handling = {}\<rparr>" (is "_ = Some ?nd")
proof -
  obtain port clis cn where "start_net (reg_system 1 i) (NewClusterNet (demo_cluster 1)) = Some ((Some port, clis), cn)"
    using start_net_server [of "reg_system 1 i" 0] demo_node_of(1) by (auto simp: demo_cluster_def)
  then obtain nd where nd: "started_node (reg_system 1 i) = Some nd" by (auto simp: started_node_def)
  have "started_clients (reg_system 1 i) (NewClusterNet (demo_cluster 1) :: bytes clusterNet) = []"
    using started_clients_node [of "reg_system 1 i" 0] demo_node_of(1) by simp
  with nd started_node_fields [OF nd] show ?thesis by simp
qed

lemma request_fits: "msg_fits (PkgTypeRegisterSystemReq, [x])"
  by (simp add: msg_fits_def pkg_types MaxMsgId_def PacketHeaderSize_def)

lemma Next_requests:
  "Next (Append (frame (PkgTypeRegisterSystemReq, [x]) @ frame (PkgTypeRegisterSystemReq, [y])) ps_empty) =
     Some ((PkgTypeRegisterSystemReq, [x], True), \<lparr>ps_buf = frame (PkgTypeRegisterSystemReq, [y])\<rparr>)"
  "Next \<lparr>ps_buf = frame (PkgTypeRegisterSystemReq, [y])\<rparr> = Some ((PkgTypeRegisterSystemReq, [y], True), ps_empty)"
  using Next_frame [OF request_fits, of "Append (frame (PkgTypeRegisterSystemReq, [x]) @ frame (PkgTypeRegisterSystemReq, [y])) ps_empty"
      x "frame (PkgTypeRegisterSystemReq, [y])"]
    Next_frame [OF request_fits, of "\<lparr>ps_buf = frame (PkgTypeRegisterSystemReq, [y])\<rparr>" y "[]"]
  by (simp_all add: Append_def ps_empty_def length_frame PacketHeaderSize_def)

text \<open>The connection is accepted, the chunk arrives.\<close>

lemma demo_accepted:
  fixes ch :: bytes
  shows "\<exists>nd1 nd c. node_reachable (reg_system 1 i) nd1 \<and> nd_conns nd1 0 = newConn \<and> nd_handling nd1 = {} \<and>
     nt_splitters (cn_net (nd_cn nd1)) 0 = ps_empty \<and> node_step (reg_system 1 i) nd1 nd \<and> cs_read c = [ch] \<and> nd_handling nd = {0} \<and>
     nt_sessions (cn_net (nd_cn nd)) 0 = Some \<lparr>ns_id = 1, ns_bindObject = None, ns_conn = Some 0\<rparr> \<and>
     nt_splitters (cn_net (nd_cn nd)) 0 = Append ch ps_empty \<and>
     nd_conns nd 0 = Some c \<and> q_inv (cs_q c) \<and> \<not> QQueue_IsClose (cs_q c) \<and> cs_accepted c = [] \<and>
     cn_systemInfos (nd_cn nd) = cn_systemInfos (NewClusterNet (demo_cluster 1) :: bytes clusterNet) \<and>
     cn_connectedSystemCount (nd_cn nd) = 1 \<and> nd_clients nd = Map.empty \<and>
     dom (nt_sessions (cn_net (nd_cn nd))) = {0}"
proof -
  let ?S = "reg_system 1 i" and ?cn = "(NewClusterNet (demo_cluster 1) :: bytes clusterNet)\<lparr>cn_connectedSystemCount := 1\<rparr>"
  let ?nd0 = "\<lparr>nd_cn = ?cn, nd_clients = Map.empty, nd_handling = {}\<rparr>"
  have r0: "node_reachable ?S ?nd0" by (rule node_reachable.started [OF demo_server_start])
  obtain c where c: "newConn = Some c" using newConn_returns by blast
  have new: "cs_receiver c = RRead" "cs_accepted c = []" "cs_read c = []" "q_inv (cs_q c)" "\<not> QQueue_IsClose (cs_q c)"
    using newConn_fresh [OF c] by simp_all
  have net: "cn_net ?cn = new_net" by (simp add: NewClusterNet_def case_prod_beta)
  let ?n = "new_net\<lparr>nt_conns := [0 \<mapsto> c], nt_sessions := [0 \<mapsto> \<lparr>ns_id = 1, ns_bindObject = None, ns_conn = Some 0\<rparr>],
    nt_splitters := (\<lambda>_. ps_empty)(0 := ps_empty), nt_mgr := NewSessionMgr\<lparr>sm_genUId := 1, sm_sessions := [1 \<mapsto> 0]\<rparr>\<rparr>"
  have "accept_conn 0 (cn_net ?cn) = Some ?n"
    unfolding net by (simp add: accept_conn_def c NewSession_def new_net_def NewSessionMgr_def Let_def)
  moreover have "starts_server ?cn"
    using NewClusterNet_index [OF demo_node_of(1), where 'a = bytes] demo_count [of 1, where 'a = bytes]
    by (simp add: starts_server_def)
  ultimately have s1: "node_step ?S ?nd0 (set_net ?n ?nd0)"
    using net by (intro node_step.accept [of _ 0]) (simp_all add: new_net_def)
  let ?nd1 = "set_net ?n ?nd0" and ?c = "c\<lparr>cs_read := cs_read c @ [ch]\<rparr>"
  have s2: "node_step ?S ?nd1 ((set_splitter 0 (Append ch (nt_splitters (cn_net (nd_cn ?nd1)) 0)) (set_conn 0 ?c ?nd1))
      \<lparr>nd_handling := insert 0 (nd_handling ?nd1)\<rparr>)"
    by (rule node_step.chunk) (simp_all add: new)
  from node_reachable.step [OF r0 s1] s2 new c show ?thesis
    by (intro exI [of _ ?nd1] exI [of _ "(set_splitter 0 (Append ch (nt_splitters (cn_net (nd_cn ?nd1)) 0)) (set_conn 0 ?c ?nd1))
      \<lparr>nd_handling := insert 0 (nd_handling ?nd1)\<rparr>"] exI [of _ ?c])
      (simp add: set_splitter_def set_conn_def set_net_def)
qed

lemma demo_arrived:
  fixes ch :: bytes
  shows "\<exists>nd c. node_reachable (reg_system 1 i) nd \<and> nd_handling nd = {0} \<and>
     nt_sessions (cn_net (nd_cn nd)) 0 = Some \<lparr>ns_id = 1, ns_bindObject = None, ns_conn = Some 0\<rparr> \<and>
     nt_splitters (cn_net (nd_cn nd)) 0 = Append ch ps_empty \<and>
     nd_conns nd 0 = Some c \<and> q_inv (cs_q c) \<and> \<not> QQueue_IsClose (cs_q c) \<and> cs_accepted c = [] \<and>
     cn_systemInfos (nd_cn nd) = cn_systemInfos (NewClusterNet (demo_cluster 1) :: bytes clusterNet) \<and>
     cn_connectedSystemCount (nd_cn nd) = 1 \<and> nd_clients nd = Map.empty \<and>
     dom (nt_sessions (cn_net (nd_cn nd))) = {0}"
  using demo_accepted [of i ch] by (metis node_reachable.step)

text \<open>Node 2 starts, dials system 1 and sends its request.\<close>

lemma demo_client_start:
  "started_node (reg_system 2 i) = Some \<lparr>nd_cn = (NewClusterNet (demo_cluster 2))\<lparr>cn_connectedSystemCount := 1\<rparr>,
     nd_clients = [1 \<mapsto> NewClusterClient], nd_handling = {}\<rparr>"
proof -
  have "started_clients (reg_system 2 i) (NewClusterNet (demo_cluster 2) :: bytes clusterNet) = [1]"
    using started_clients_node [of "reg_system 2 i" 1] demo_node_of(2) by (simp add: demo_cluster_def)
  moreover have "\<not> starts_server ((NewClusterNet (demo_cluster 2) :: bytes clusterNet)\<lparr>cn_connectedSystemCount := n\<rparr>)" for n
    using NewClusterNet_index [OF demo_node_of(2), where 'a = bytes] demo_count [of 2, where 'a = bytes]
    by (simp add: starts_server_def)
  ultimately obtain nd where nd: "started_node (reg_system 2 i) = Some nd"
    by (auto simp: started_node_def start_net_def Let_def)
  with started_node_fields [OF nd] \<open>started_clients _ _ = [1]\<close> show ?thesis by (auto simp: fun_eq_iff)
qed

lemma demo_dialled:
  "\<exists>nd1 nd cl. node_reachable (reg_system 2 2) nd1 \<and> nd_conns nd1 0 = newConn \<and> nd_handling nd1 = {} \<and>
     nt_splitters (cn_net (nd_cn nd1)) 0 = ps_empty \<and> node_step (reg_system 2 2) nd1 nd \<and> nd_clients nd 1 = Some cl \<and> cl_pc cl = CSelect \<and> cl_cli cl = Some 0 \<and>
     cl_registerResponseChan cl = None \<and> cl_disconnectChan cl = None \<and> cn_connectedSystemCount (nd_cn nd) = 1 \<and>
     nd_handling nd = {} \<and> nt_clients (cn_net (nd_cn nd)) 0 = Some 1 \<and> nt_splitters (cn_net (nd_cn nd)) 0 = ps_empty \<and>
     (\<exists>c. nd_conns nd = [0 \<mapsto> c] \<and> q_inv (cs_q c) \<and> \<not> QQueue_IsClose (cs_q c) \<and> cs_receiver c = RRead \<and>
        cs_sender c = SDequeue \<and> cs_written c = [] \<and> cs_read c = [] \<and>
        q_list (cs_q c) = [frame (PkgTypeRegisterSystemReq, [9])] \<and> cs_accepted c = [frame (PkgTypeRegisterSystemReq, [9])])"
proof -
  let ?S = "reg_system 2 2" and ?cn = "(NewClusterNet (demo_cluster 2) :: bytes clusterNet)\<lparr>cn_connectedSystemCount := 1\<rparr>"
  let ?nd0 = "\<lparr>nd_cn = ?cn, nd_clients = [1 \<mapsto> NewClusterClient], nd_handling = {}\<rparr>"
  have r0: "node_reachable ?S ?nd0" by (rule node_reachable.started [OF demo_client_start])
  have net: "cn_net ?cn = new_net" by (simp add: NewClusterNet_def case_prod_beta)
  obtain c where c: "newConn = Some c" using newConn_returns by blast
  have new: "q_inv (cs_q c)" "\<not> QQueue_IsClose (cs_q c)"
    using newConn_fresh [OF c] by simp_all
  let ?n = "new_net\<lparr>nt_conns := [0 \<mapsto> c], nt_clients := [0 \<mapsto> 1], nt_splitters := (\<lambda>_. ps_empty)(0 := ps_empty)\<rparr>"
  let ?cl1 = "NewClusterClient\<lparr>cl_disconnectChan := None, cl_cli := Some 0, cl_pc := CRegister\<rparr>"
  let ?nd1 = "set_client 1 ?cl1 (set_net ?n ?nd0)"
  have dial: "dial_conn 0 1 (cn_net (nd_cn ?nd0)) = Some ?n"
    by (simp add: net dial_conn_def c) (simp add: new_net_def)
  have "client_step ?S 1 NewClusterClient ?nd0 ?nd1"
    by (rule client_step.dialled [OF _ _ dial]) (simp_all add: NewClusterClient_def net, simp add: new_net_def)
  then have r1: "node_reachable ?S ?nd1" by (intro node_reachable.step [OF r0] node_step.client) simp_all
  have byte: "PkgTypeRegisterSystemReq \<le> MaxMsgId" and c0: "nt_conns ?n 0 = Some c" by (simp_all add: pkg_types MaxMsgId_def)
  from net_SendMessage_open [OF c0 new(1,2) byte, of "[9]"] obtain c' where
      sent: "net_SendMessage 0 PkgTypeRegisterSystemReq [9] ?n = Some (None, ?n\<lparr>nt_conns := (nt_conns ?n)(0 \<mapsto> c')\<rparr>)"
        "q_inv (cs_q c')" "\<not> QQueue_IsClose (cs_q c')"
    by blast
  then have "net_SendData 0 (frame (PkgTypeRegisterSystemReq, [9])) ?n = Some (None, ?n\<lparr>nt_conns := (nt_conns ?n)(0 \<mapsto> c')\<rparr>)"
    by (simp add: net_SendMessage_def PackMessage_frame [OF byte])
  then have "SendData (frame (PkgTypeRegisterSystemReq, [9])) c = Some (None, c')"
    by (auto simp: net_SendData_def dest!: arg_cong [where f = "\<lambda>n. nt_conns n 0"])
  from SendData_returned [OF new(1) this] new(2) obtain q where "c' = c\<lparr>cs_q := q, cs_accepted := cs_accepted c @ [frame (PkgTypeRegisterSystemReq, [9])]\<rparr>"
      "q_list q = q_list (cs_q c) @ [frame (PkgTypeRegisterSystemReq, [9])]" by auto
  moreover have "q_list (cs_q c) = []" "cs_receiver c = RRead" "cs_sender c = SDequeue" "cs_written c = []" "cs_read c = []" "cs_accepted c = []"
    using c by (auto simp: newConn_def queue_NewQueue_def QQueue_Init_def dest: NewQueue_spec)
  ultimately have rr: "cs_receiver c' = RRead" "cs_sender c' = SDequeue" "cs_written c' = []" "cs_read c' = []"
      "q_list (cs_q c') = [frame (PkgTypeRegisterSystemReq, [9])]" "cs_accepted c' = [frame (PkgTypeRegisterSystemReq, [9])]" by simp_all
  have "to_u32 (cc_LocalSystemId (sy_config ?S)) = 2" by (simp add: demo_cluster_def to_u32_def)
  with sent(1) have "client_step ?S 1 ?cl1 ?nd1 (set_client 1 (?cl1\<lparr>cl_pc := CSelect\<rparr>) (set_net (?n\<lparr>nt_conns := (nt_conns ?n)(0 \<mapsto> c')\<rparr>) ?nd1))"
    by (intro client_step.request_sent [of _ 0]) simp_all
  then have "node_step ?S ?nd1 (set_client 1 (?cl1\<lparr>cl_pc := CSelect\<rparr>) (set_net (?n\<lparr>nt_conns := (nt_conns ?n)(0 \<mapsto> c')\<rparr>) ?nd1))"
    by (intro node_step.client) simp_all
  moreover have "cl_registerResponseChan (?cl1\<lparr>cl_pc := CSelect\<rparr>) = None" "cl_disconnectChan (?cl1\<lparr>cl_pc := CSelect\<rparr>) = None"
    by (simp_all add: NewClusterClient_def)
  ultimately show ?thesis using sent(2,3) rr r1 c
    by (intro exI [of _ ?nd1] exI [of _ "set_client 1 (?cl1\<lparr>cl_pc := CSelect\<rparr>) (set_net (?n\<lparr>nt_conns := (nt_conns ?n)(0 \<mapsto> c')\<rparr>) ?nd1)"]
        exI [of _ "?cl1\<lparr>cl_pc := CSelect\<rparr>"]) (simp add: set_client_def, blast)
qed

lemma demo_waiting:
  "\<exists>nd cl. node_reachable (reg_system 2 2) nd \<and> nd_clients nd 1 = Some cl \<and> cl_pc cl = CSelect \<and> cl_cli cl = Some 0 \<and>
     cl_registerResponseChan cl = None \<and> cl_disconnectChan cl = None \<and> cn_connectedSystemCount (nd_cn nd) = 1 \<and>
     nd_handling nd = {} \<and> nt_clients (cn_net (nd_cn nd)) 0 = Some 1 \<and> nt_splitters (cn_net (nd_cn nd)) 0 = ps_empty \<and>
     (\<exists>c. nd_conns nd = [0 \<mapsto> c] \<and> q_inv (cs_q c) \<and> \<not> QQueue_IsClose (cs_q c) \<and> cs_receiver c = RRead)"
  using demo_dialled by (metis node_reachable.step)

end
