(* ===== verification/Cluster_Start.thy ===== *)
theory Cluster_Start
  imports Registration_Demo
begin

text \<open>
  What the registration guarantees a node, and what it does not: the counter that \<open>start\<close> waits for,
  the handshake, and two ways in which a registration goes wrong.
\<close>

section \<open>The systems a node is connected to\<close>

definition connected_systems :: "'p node \<Rightarrow> int set" where
  "connected_systems nd = bound_systems (cn_systemInfos (nd_cn nd)) \<union> counted_clients (nd_clients nd)"

lemma bound_counted_disjoint:
  assumes "reg_inv infos n clients"
  shows "bound_systems infos \<inter> counted_clients clients = {}"
  using reg_invD(2,5) [OF assms] by (fastforce simp: bound_systems_def counted_clients_def)

lemma reg_inv_count:
  assumes "reg_inv infos n clients"
  shows "n = 1 + int (card (bound_systems infos \<union> counted_clients clients))"
    and "bound_systems infos \<union> counted_clients clients \<subseteq> dom infos"
proof -
  show "n = 1 + int (card (bound_systems infos \<union> counted_clients clients))"
    using reg_invD(6) [OF assms] reg_inv_finite [OF assms] bound_counted_disjoint [OF assms]
    by (simp add: card_Un_disjoint)
  show "bound_systems infos \<union> counted_clients clients \<subseteq> dom infos"
    using reg_invD(5) [OF assms] by (fastforce simp: bound_systems_def counted_clients_def)
qed

lemma connected_count_views:
  "node_inv nd \<Longrightarrow> cn_connectedSystemCount (nd_cn nd) = 1 + int (card (connected_systems nd))"
  using reg_inv_count(1) by (auto simp: node_inv_def node_reg_def connected_systems_def)

lemma config_dom:
  fixes nd :: "'p node"
  assumes "node_reachable S nd" and "node_of (sy_config S) k"
  shows "dom (cn_systemInfos (nd_cn nd)) = set (map sc_SystemId (cc_SystemConfigs (sy_config S)))"
    and "card (dom (cn_systemInfos (nd_cn nd))) = length (cc_SystemConfigs (sy_config S))"
proof -
  have "table (nd_cn nd) = table (NewClusterNet (sy_config S) :: 'p clusterNet)"
    using node_reachable_inv [OF assms] by blast
  from table_dom [OF this] show d: "dom (cn_systemInfos (nd_cn nd)) = set (map sc_SystemId (cc_SystemConfigs (sy_config S)))"
    using build_infos_dom [of "cc_LocalSystemId (sy_config S)" 0 False "-1" Map.empty "cc_SystemConfigs (sy_config S)"]
    by (simp add: NewClusterNet_def case_prod_beta)
  with assms(2) show "card (dom (cn_systemInfos (nd_cn nd))) = length (cc_SystemConfigs (sy_config S))"
    unfolding node_of_def by (metis distinct_card length_map)
qed

text \<open>The role of a system does not change.\<close>

lemma reachable_info:
  fixes nd :: "'p node"
  assumes "node_reachable S nd" and "node_of (sy_config S) k" and "j < length (cc_SystemConfigs (sy_config S))"
  obtains info where "cn_systemInfos (nd_cn nd) (sc_SystemId (cc_SystemConfigs (sy_config S) ! j)) = Some info"
    and "si_passive info = (j < k)" and "si_config info = cc_SystemConfigs (sy_config S) ! j"
proof -
  have "table (nd_cn nd) = table (NewClusterNet (sy_config S) :: 'p clusterNet)"
    using node_reachable_inv [OF assms(1,2)] by blast
  from table_info [OF this NewClusterNet_info [OF assms(2,3)]] that show ?thesis by auto
qed

text \<open>The node itself is connected to itself only if a session is bound to it.\<close>

lemma local_not_counted:
  assumes "node_reachable S nd" and "node_of (sy_config S) k"
  shows "cc_LocalSystemId (sy_config S) \<notin> counted_clients (nd_clients nd)"
proof -
  obtain info where "cn_systemInfos (nd_cn nd) (cc_LocalSystemId (sy_config S)) = Some info" "\<not> si_passive info"
    using reachable_info [OF assms, of k] assms(2) by (auto simp: node_of_def)
  moreover have "reg_inv (cn_systemInfos (nd_cn nd)) (cn_connectedSystemCount (nd_cn nd)) (nd_clients nd)"
    using node_reachable_inv [OF assms] by (simp add: node_inv_def node_reg_def)
  from reg_invD(5) [OF this] have "\<exists>info. cn_systemInfos (nd_cn nd) sid = Some info \<and> si_passive info"
    if "sid \<in> counted_clients (nd_clients nd)" for sid
    using that by (auto simp: counted_clients_def)
  ultimately show ?thesis by fastforce
qed

section \<open>The counter\<close>

text \<open>
  C30. In every reachable state of a node \<open>connectedSystemCount\<close> is one for the node itself plus the
  number of systems with a bound session plus the number of client goroutines between counting and
  uncounting. Only systems that come later in the configuration have a session, only those that
  come before have a client, and \<open>info.cli\<close> is the client's connection from the moment it is
  registered until it is lost.
\<close>

theorem connected_count:
  assumes "node_of (sy_config S) k" and "node_reachable S nd"
  shows "cn_connectedSystemCount (nd_cn nd) = 1 + int (card (connected_systems nd)) \<and>
    (\<forall>j info. j < length (cc_SystemConfigs (sy_config S)) \<longrightarrow>
       cn_systemInfos (nd_cn nd) (sc_SystemId (cc_SystemConfigs (sy_config S) ! j)) = Some info \<longrightarrow>
       (if j < k then si_session info = None else si_cli info = None) \<and>
       si_cli info = (case nd_clients nd (sc_SystemId (cc_SystemConfigs (sy_config S) ! j)) of
          None \<Rightarrow> None
        | Some cl \<Rightarrow> if cl_pc cl \<in> {CCount, CReady, CClear} then cl_cli cl else None))"
proof -
  have inv: "reg_inv (cn_systemInfos (nd_cn nd)) (cn_connectedSystemCount (nd_cn nd)) (nd_clients nd)"
    using node_reachable_inv [OF assms(2,1)] by (simp add: node_inv_def node_reg_def)
  have "(if j < k then si_session info = None else si_cli info = None) \<and>
      si_cli info = (case nd_clients nd (sc_SystemId (cc_SystemConfigs (sy_config S) ! j)) of
        None \<Rightarrow> None | Some cl \<Rightarrow> if cl_pc cl \<in> {CCount, CReady, CClear} then cl_cli cl else None)"
    if j: "j < length (cc_SystemConfigs (sy_config S))"
      and info: "cn_systemInfos (nd_cn nd) (sc_SystemId (cc_SystemConfigs (sy_config S) ! j)) = Some info" for j info
  proof -
    have "si_passive info = (j < k)" using reachable_info [OF assms(2,1) j] info by auto
    moreover have "nd_clients nd (sc_SystemId (cc_SystemConfigs (sy_config S) ! j)) = None" if "\<not> si_passive info"
      using reg_invD(5) [OF inv] info that by fastforce
    ultimately show ?thesis
      using reg_invD(2,3) [OF inv info] by (auto simp: stored_cli_def split: option.splits)
  qed
  then show ?thesis using reg_inv_count(1) [OF inv] by (auto simp: connected_systems_def)
qed

text \<open>
  The counter stays between 1 and the number of systems plus one; it exceeds the number of
  systems only if a session is bound to the node's own system id. An \<open>int32\<close> never overflows.
\<close>

theorem connected_count_bounds:
  assumes "node_of (sy_config S) k" and "node_reachable S nd"
  shows "1 \<le> cn_connectedSystemCount (nd_cn nd) \<and>
    cn_connectedSystemCount (nd_cn nd) \<le> int (length (cc_SystemConfigs (sy_config S))) +
      of_bool (cc_LocalSystemId (sy_config S) \<in> connected_systems nd)"
proof -
  have inv: "reg_inv (cn_systemInfos (nd_cn nd)) (cn_connectedSystemCount (nd_cn nd)) (nd_clients nd)"
    using node_reachable_inv [OF assms(2,1)] by (simp add: node_inv_def node_reg_def)
  let ?D = "dom (cn_systemInfos (nd_cn nd))" and ?l = "cc_LocalSystemId (sy_config S)"
  have D: "finite ?D" "card ?D = length (cc_SystemConfigs (sy_config S))"
    using reg_invD(1) [OF inv] config_dom(2) [OF assms(2,1)] by simp_all
  have sub: "connected_systems nd \<subseteq> ?D" using reg_inv_count(2) [OF inv] by (simp add: connected_systems_def)
  have "?l \<in> ?D" using assms(1) nth_mem [of k "map sc_SystemId (cc_SystemConfigs (sy_config S))"]
    by (auto simp: config_dom(1) [OF assms(2,1)] node_of_def)
  have "card (connected_systems nd) + of_bool (?l \<notin> connected_systems nd) \<le> length (cc_SystemConfigs (sy_config S))"
  proof (cases "?l \<in> connected_systems nd")
    case False
    with sub have "connected_systems nd \<subseteq> ?D - {?l}" by auto
    with D(1) have "card (connected_systems nd) \<le> card (?D - {?l})" by (simp add: card_mono)
    with card_Suc_Diff1 [OF D(1) \<open>?l \<in> ?D\<close>] D(2) False show ?thesis by simp
  next
    case True
    with card_mono [OF D(1) sub] D(2) show ?thesis by simp
  qed
  then show ?thesis using reg_inv_count(1) [OF inv] by (auto simp: connected_systems_def)
qed
section \<open>Waiting for the cluster\<close>

text \<open>All systems are there when the counter says so, unless the node is registered at itself.\<close>

lemma count_complete:
  assumes "node_of (sy_config S) k" and "node_reachable S nd"
    and "int (length (cc_SystemConfigs (sy_config S))) \<le> cn_connectedSystemCount (nd_cn nd)"
    and "cc_LocalSystemId (sy_config S) \<notin> connected_systems nd"
  shows "connected_systems nd =
    set (map sc_SystemId (cc_SystemConfigs (sy_config S))) - {cc_LocalSystemId (sy_config S)}"
proof -
  have inv: "reg_inv (cn_systemInfos (nd_cn nd)) (cn_connectedSystemCount (nd_cn nd)) (nd_clients nd)"
    using node_reachable_inv [OF assms(2,1)] by (simp add: node_inv_def node_reg_def)
  let ?D = "dom (cn_systemInfos (nd_cn nd))" and ?l = "cc_LocalSystemId (sy_config S)"
  have D: "finite ?D" "card ?D = length (cc_SystemConfigs (sy_config S))"
    using reg_invD(1) [OF inv] config_dom(2) [OF assms(2,1)] by simp_all
  have "?l \<in> ?D" using assms(1) nth_mem [of k "map sc_SystemId (cc_SystemConfigs (sy_config S))"]
    by (auto simp: config_dom(1) [OF assms(2,1)] node_of_def)
  with D assms(3) reg_inv_count(1) [OF inv] have "card (?D - {?l}) \<le> card (connected_systems nd)"
    by (simp add: connected_systems_def)
  moreover have "connected_systems nd \<subseteq> ?D - {?l}"
    using reg_inv_count(2) [OF inv] assms(4) by (auto simp: connected_systems_def)
  ultimately have "connected_systems nd = ?D - {?l}" using D(1) by (intro card_seteq) auto
  then show ?thesis using config_dom(1) [OF assms(2,1)] by simp
qed

lemma wait_connected_seen:
  assumes "wait_connected S cn (map (\<lambda>(nd, late). (cn_connectedSystemCount (nd_cn nd), late)) rounds) = Connected"
  shows "\<exists>(nd, late) \<in> set rounds. int (cn_systemCount cn) \<le> cn_connectedSystemCount (nd_cn nd)"
  using assms by (induction rounds) (auto split: if_splits)

text \<open>
  C32. What \<open>start\<close> has waited for: let each round of the waiting loop read the counter in some
  reachable state of the node. When the loop ends without an error, in one of these states every
  other system of the configuration was connected: the later ones with a bound session, the earlier
  ones by a registered client, or else a session was bound to the node's own system id.
\<close>

theorem start_waits_for_all:
  fixes rounds :: "('p node \<times> bool) list"
  assumes "node_of (sy_config S) k" and "\<forall>(nd, late) \<in> set rounds. node_reachable S nd"
    and "wait_connected S (NewClusterNet (sy_config S) :: 'p clusterNet)
      (map (\<lambda>(nd, late). (cn_connectedSystemCount (nd_cn nd), late)) rounds) = Connected"
  shows "\<exists>(nd, late) \<in> set rounds.
    connected_systems nd = set (map sc_SystemId (cc_SystemConfigs (sy_config S))) - {cc_LocalSystemId (sy_config S)} \<or>
    cc_LocalSystemId (sy_config S) \<in> bound_systems (cn_systemInfos (nd_cn nd))"
proof -
  obtain nd late where nd: "(nd, late) \<in> set rounds"
      "int (cn_systemCount (NewClusterNet (sy_config S) :: 'p clusterNet)) \<le> cn_connectedSystemCount (nd_cn nd)"
    using wait_connected_seen [OF assms(3)] by auto
  moreover from nd(1) assms(2) have r: "node_reachable S nd" by auto
  moreover have "cn_systemCount (NewClusterNet (sy_config S) :: 'p clusterNet) = length (cc_SystemConfigs (sy_config S))"
    using assms(1) by (simp add: NewClusterNet_count node_of_def)
  ultimately show ?thesis
    using count_complete [OF assms(1) r] local_not_counted [OF r assms(1)]
    by (intro bexI [of _ "(nd, late)"]) (auto simp: connected_systems_def)
qed
section \<open>The handshake\<close>

text \<open>A session that may register: it is there, its connection is open, the system is free.\<close>

definition can_register :: "nat \<Rightarrow> int \<Rightarrow> ConnSocket \<Rightarrow> 'p clusterNet \<Rightarrow> bool" where
  "can_register a sid c cn \<longleftrightarrow> nt_sessions (cn_net cn) a \<noteq> None \<and> conn_at cn a = Some c \<and> q_inv (cs_q c) \<and>
     \<not> QQueue_IsClose (cs_q c) \<and>
     (\<exists>info. cn_systemInfos cn sid = Some info \<and> \<not> si_passive info \<and> si_session info = None)"

text \<open>What the server does with a request it accepts.\<close>

lemma svr_handle_accepts:
  assumes "can_register a sid c cn"
    and "Unmarshal_pkg (sy_proto S) PkgTypeRegisterSystemReq payload = Some (PkgRegisterSystemReq i)"
    and "go_conv (SystemId_t (sy_api S)) (uint i) = sid"
    and "Marshal_pkg (sy_proto S) (PkgRegisterSystemRsp ErrorCodeSuccess) = Some data"
  shows "\<exists>cn' c' s info. svr_handle S a PkgTypeRegisterSystemReq payload cn = Some (None, cn') \<and>
    cn_systemInfos cn sid = Some info \<and> cn_systemInfos cn' = (cn_systemInfos cn)(sid \<mapsto> info\<lparr>si_session := Some a\<rparr>) \<and>
    cn_connectedSystemCount cn' = cn_connectedSystemCount cn + 1 \<and>
    nt_sessions (cn_net cn) a = Some s \<and> nt_sessions (cn_net cn') a = Some (s\<lparr>ns_bindObject := Some sid\<rparr>) \<and>
    nt_splitters (cn_net cn') = nt_splitters (cn_net cn) \<and>
    linked cn' sid a c' \<and> \<not> QQueue_IsClose (cs_q c') \<and>
    cs_accepted c' = cs_accepted c @ [frame (PkgTypeRegisterSystemRsp, data)]"
proof -
  from assms(1) obtain s info where s: "nt_sessions (cn_net cn) a = Some s" "conn_at cn a = Some c"
      and q: "q_inv (cs_q c)" "\<not> QQueue_IsClose (cs_q c)"
      and info: "cn_systemInfos cn sid = Some info" "\<not> si_passive info" "si_session info = None"
    by (auto simp: can_register_def)
  let ?n = "(cn_net cn)\<lparr>nt_sessions := (nt_sessions (cn_net cn))(a \<mapsto> s\<lparr>ns_bindObject := Some sid\<rparr>)\<rparr>"
  have "nt_conns ?n a = Some c" "PkgTypeRegisterSystemRsp \<le> MaxMsgId"
    using s(2) by (simp_all add: conn_at_def pkg_types MaxMsgId_def)
  from net_SendMessage_open [OF this(1) q this(2), of data] obtain c' where
      c': "net_SendMessage a PkgTypeRegisterSystemRsp data ?n = Some (None, ?n\<lparr>nt_conns := (nt_conns ?n)(a \<mapsto> c')\<rparr>)"
        "q_inv (cs_q c')" "\<not> QQueue_IsClose (cs_q c')" "cs_accepted c' = cs_accepted c @ [frame (PkgTypeRegisterSystemRsp, data)]"
    by blast
  let ?cn = "(add_connected 1 (upd_info sid (\<lambda>info. info\<lparr>si_session := Some a\<rparr>) (cn\<lparr>cn_net := ?n\<rparr>)))\<lparr>cn_net :=
    ?n\<lparr>nt_conns := (nt_conns ?n)(a \<mapsto> c')\<rparr>\<rparr>"
  have "svr_register S a sid cn = Some (None, ?cn)"
    by (simp add: svr_register_def info SetBindObject_def s(1) Let_def assms(4) c'(1))
  then have "svr_handle S a PkgTypeRegisterSystemReq payload cn = Some (None, ?cn)"
    by (simp add: svr_handle_def svr_OnMessage_def assms(2,3))
  moreover have "linked ?cn sid a c'" using info c'(2) by (simp add: linked_def link_def conn_at_def)
  ultimately show ?thesis
    using s(1) info c'(3,4) by (intro exI [of _ ?cn] exI [of _ c'] exI [of _ s] exI [of _ info]) simp
qed

text \<open>The demonstration run continued: the first request is handled, the second one is still in the buffer.\<close>

lemma demo_infos:
  "cn_systemInfos (NewClusterNet (demo_cluster 1)) sid =
     (if sid \<in> {1, 2}
      then Some \<lparr>si_config = cc_SystemConfigs (demo_cluster 1) ! nat (sid - 1), si_passive = False, si_session = None, si_cli = None\<rparr>
      else None)"
  by (simp add: NewClusterNet_def demo_cluster_def Let_def)

lemma demo_can_register:
  assumes "sid \<in> {1, 2}"
  shows "\<exists>nd c. node_reachable (reg_system 1 i) nd \<and> nd_handling nd = {0} \<and> can_register 0 sid c (nd_cn nd) \<and> cs_accepted c = [] \<and>
    nt_sessions (cn_net (nd_cn nd)) 0 = Some \<lparr>ns_id = 1, ns_bindObject = None, ns_conn = Some 0\<rparr> \<and>
    nt_splitters (cn_net (nd_cn nd)) 0 = Append ch ps_empty \<and> cn_connectedSystemCount (nd_cn nd) = 1 \<and>
    cn_systemInfos (nd_cn nd) = cn_systemInfos (NewClusterNet (demo_cluster 1) :: bytes clusterNet) \<and> nd_clients nd = Map.empty"
proof -
  obtain nd c where nd: "node_reachable (reg_system 1 i) nd" "nd_handling nd = {0}"
      "nt_sessions (cn_net (nd_cn nd)) 0 = Some \<lparr>ns_id = 1, ns_bindObject = None, ns_conn = Some 0\<rparr>"
      "nt_splitters (cn_net (nd_cn nd)) 0 = Append ch ps_empty"
      "nd_conns nd 0 = Some c" "q_inv (cs_q c)" "\<not> QQueue_IsClose (cs_q c)" "cs_accepted c = []"
      "cn_systemInfos (nd_cn nd) = cn_systemInfos (NewClusterNet (demo_cluster 1) :: bytes clusterNet)"
      "cn_connectedSystemCount (nd_cn nd) = 1" "nd_clients nd = Map.empty"
    using demo_arrived [of i ch] by blast
  then have "can_register 0 sid c (nd_cn nd)"
    using assms by (auto simp: can_register_def conn_at_def demo_infos)
  with nd show ?thesis by blast
qed

lemma demo_registered:
  assumes "sid \<in> {1, 2}" and "sid = uint i" and "Next (Append ch ps_empty) = Some ((PkgTypeRegisterSystemReq, [9], True), p)"
  shows "\<exists>nd. node_reachable (reg_system 1 i) nd \<and> nd_handling nd = {0} \<and>
    nt_sessions (cn_net (nd_cn nd)) 0 = Some \<lparr>ns_id = 1, ns_bindObject = Some sid, ns_conn = Some 0\<rparr> \<and>
    nt_splitters (cn_net (nd_cn nd)) 0 = p \<and>
    cn_connectedSystemCount (nd_cn nd) = 2 \<and> connected_systems nd = {sid} \<and>
    (\<exists>info. cn_systemInfos (nd_cn nd) sid = Some info \<and> si_session info = Some 0) \<and>
    (\<exists>c. \<forall>sid' \<in> {1, 2} - {sid}. can_register 0 sid' c (nd_cn nd))"
proof -
  let ?S = "reg_system 1 i"
  obtain nd c where nd: "node_reachable ?S nd" "nd_handling nd = {0}" "can_register 0 sid c (nd_cn nd)"
      "nt_sessions (cn_net (nd_cn nd)) 0 = Some \<lparr>ns_id = 1, ns_bindObject = None, ns_conn = Some 0\<rparr>"
      "nt_splitters (cn_net (nd_cn nd)) 0 = Append ch ps_empty" "cn_connectedSystemCount (nd_cn nd) = 1"
      "cn_systemInfos (nd_cn nd) = cn_systemInfos (NewClusterNet (demo_cluster 1) :: bytes clusterNet)" "nd_clients nd = Map.empty"
    using demo_can_register [OF assms(1), of i ch] by blast
  have can: "can_register 0 sid c (nd_cn (set_splitter 0 p nd))"
    using nd(3) by (simp add: can_register_def conn_at_def set_splitter_def set_net_def)
  have conv: "go_conv (SystemId_t (sy_api ?S)) (uint i) = sid"
    using assms by (auto simp: demo_api_def)
  obtain cn' c' info where h: "svr_handle ?S 0 PkgTypeRegisterSystemReq [9] (nd_cn (set_splitter 0 p nd)) = Some (None, cn')"
      "cn_systemInfos (nd_cn (set_splitter 0 p nd)) sid = Some info"
      "cn_systemInfos cn' = (cn_systemInfos (nd_cn (set_splitter 0 p nd)))(sid \<mapsto> info\<lparr>si_session := Some 0\<rparr>)"
      "cn_connectedSystemCount cn' = cn_connectedSystemCount (nd_cn (set_splitter 0 p nd)) + 1"
      "nt_sessions (cn_net cn') 0 = Some \<lparr>ns_id = 1, ns_bindObject = Some sid, ns_conn = Some 0\<rparr>"
      "nt_splitters (cn_net cn') = nt_splitters (cn_net (nd_cn (set_splitter 0 p nd)))"
      and c': "linked cn' sid 0 c'" "\<not> QQueue_IsClose (cs_q c')"
    using svr_handle_accepts [OF can, of ?S "[9]" i "[8]"] conv nd(4)
    by (auto simp: set_splitter_def set_net_def)
  have "node_step ?S nd (nd\<lparr>nd_cn := cn'\<rparr>)"
    using nd(2,4,5) assms(3) h(1) by (intro node_step.frame_session) auto
  then have r: "node_reachable ?S (nd\<lparr>nd_cn := cn'\<rparr>)" by (rule node_reachable.step [OF nd(1)])
  have "bound_systems (cn_systemInfos cn') = {sid}"
    using h(3) by (auto simp: bound_systems_upd nd(7)) (auto simp: bound_systems_def demo_infos split: if_splits)
  then have "connected_systems (nd\<lparr>nd_cn := cn'\<rparr>) = {sid}"
    by (auto simp: connected_systems_def counted_clients_def nd(8))
  moreover have "\<forall>sid' \<in> {1, 2} - {sid}. can_register 0 sid' c' cn'"
    using c' h(3,5) nd(7) by (auto simp: can_register_def linked_def demo_infos)
  ultimately show ?thesis using r nd(2,6) h(3-6)
    by (intro exI [of _ "nd\<lparr>nd_cn := cn'\<rparr>"]) (auto simp: set_splitter_def)
qed

lemma demo_ids: "(1 :: int) \<in> {1, 2}" "1 = uint (1 :: u32)" "(2 :: int) \<in> {1, 2}" "2 = uint (2 :: u32)"
  by simp_all

section \<open>The client's goroutine on its own\<close>

text \<open>
  The goroutine of the client of \<open>sid\<close> takes a step and nothing else in the node moves: no chunk or
  frame arrives, no other goroutine runs.
\<close>

definition client_alone :: "'p system \<Rightarrow> int \<Rightarrow> 'p node \<Rightarrow> 'p node \<Rightarrow> bool" where
  "client_alone S sid nd nd' \<longleftrightarrow> (\<exists>cl. nd_clients nd sid = Some cl \<and> client_step S sid cl nd nd')"

lemma client_alone_node_step: "client_alone S sid nd nd' \<Longrightarrow> node_step S nd nd'"
  by (auto simp: client_alone_def intro: node_step.client)

lemma client_alone_steps: "(client_alone S sid ^^ k) nd nd' \<Longrightarrow> (node_step S)\<^sup>*\<^sup>* nd nd'"
  by (induction k arbitrary: nd') (auto intro: rtranclp.rtrancl_into_rtrancl client_alone_node_step)

text \<open>A relation that goes from \<open>a\<close> to \<open>d\<close> in three steps, without a choice, and ends there.\<close>

lemma three_steps:
  assumes "\<And>x. r a x \<longleftrightarrow> x = b" and "\<And>x. r b x \<longleftrightarrow> x = c" and "\<And>x. r c x \<longleftrightarrow> x = d" and "\<And>x. \<not> r d x"
  shows "(r ^^ k) a x \<longleftrightarrow> (k, x) \<in> {(0, a), (1, b), (2, c), (3, d)}"
proof (induction k arbitrary: x)
  case (Suc k)
  have "(r ^^ Suc k) a x \<longleftrightarrow> (\<exists>y. (k, y) \<in> {(0, a), (1, b), (2, c), (3, d)} \<and> r y x)"
    using Suc.IH by (simp add: OO_def)
  also have "\<dots> \<longleftrightarrow> (Suc k, x) \<in> {(0, a), (1, b), (2, c), (3, d)}" using assms by auto
  finally show ?case .
qed auto

lemma three_steps_end:
  assumes "\<And>x. r a x \<longleftrightarrow> x = b" and "\<And>x. r b x \<longleftrightarrow> x = c" and "\<And>x. r c x \<longleftrightarrow> x = d" and "\<And>x. \<not> r d x"
    and "(r ^^ k) a x"
  shows "k \<le> 3 \<and> (r ^^ (3 - k)) x d"
proof -
  from assms(5) have "(k, x) \<in> {(0, a), (1, b), (2, c), (3, d)}" by (simp only: three_steps [OF assms(1-4)])
  moreover have "(r ^^ 3) a d" by (simp only: three_steps [OF assms(1-4)]) simp
  moreover have "(r ^^ 2) b d" "(r ^^ 1) c d" using assms(2,3) by (auto simp: numeral_2_eq_2)
  ultimately show ?thesis by auto
qed

text \<open>
  A waiting client that finds an accepting response in its channel completes: it has no choice until
  it waits for the next disconnect.
\<close>

lemma select_completes:
  fixes nd :: "'p node"
  assumes "nd_clients nd sid = Some cl" and "cl_pc cl = CSelect" and "cl_cli cl = Some b"
    and "cl_registerResponseChan cl = Some True" and "cl_disconnectChan cl = None"
    and "cn_systemInfos (nd_cn nd) sid = Some info" and "si_passive info"
  shows "\<exists>nd'. (\<forall>k x. (client_alone S sid ^^ k) nd x \<longrightarrow> k \<le> 3 \<and> (client_alone S sid ^^ (3 - k)) x nd') \<and>
    link (nd_cn nd') sid = Some b \<and>
    cn_connectedSystemCount (nd_cn nd') = cn_connectedSystemCount (nd_cn nd) + 1 \<and> nd_conns nd' = nd_conns nd"
proof -
  let ?cl2 = "cl\<lparr>cl_registerResponseChan := None, cl_pc := CSetCli\<rparr>"
  let ?cl3 = "?cl2\<lparr>cl_pc := CCount\<rparr>" and ?cl4 = "?cl2\<lparr>cl_pc := CReady\<rparr>"
  let ?nd2 = "set_client sid ?cl2 nd"
  let ?nd3 = "set_client sid ?cl3 (?nd2\<lparr>nd_cn := upd_info sid (\<lambda>info. info\<lparr>si_cli := Some b\<rparr>) (nd_cn ?nd2)\<rparr>)"
  let ?nd4 = "set_client sid ?cl4 (?nd3\<lparr>nd_cn := add_connected 1 (nd_cn ?nd3)\<rparr>)"
  note steps = client_step.select_accepted client_step.set_cli client_step.count
  have s1: "client_alone S sid nd x \<longleftrightarrow> x = ?nd2" for x
    using assms(1-5) steps(1) [of cl S sid nd] by (auto simp: client_alone_def elim: client_stepE)
  have s2: "client_alone S sid ?nd2 x \<longleftrightarrow> x = ?nd3" for x
    using assms(3) steps(2) [of ?cl2 S sid ?nd2] by (auto simp: client_alone_def elim: client_stepE)
  have s3: "client_alone S sid ?nd3 x \<longleftrightarrow> x = ?nd4" for x
    using steps(3) [of ?cl3 S sid ?nd3] by (auto simp: client_alone_def elim: client_stepE)
  have s4: "\<not> client_alone S sid ?nd4 x" for x
    using assms(5) by (auto simp: client_alone_def elim: client_stepE)
  have "link (nd_cn ?nd4) sid = Some b" using assms(6,7) by (simp add: link_def)
  with three_steps_end [of "client_alone S sid", OF s1 s2 s3 s4] assms(6) show ?thesis
    by (intro exI [of _ ?nd4]) simp
qed

text \<open>What the client does with the response.\<close>

lemma client_completes:
  assumes "node_reachable S nd" and "node_of (sy_config S) k"
    and "nd_clients nd sid = Some cl" and "cl_pc cl = CSelect" and "cl_cli cl = Some b" and "cl_registerResponseChan cl = None"
    and "cl_disconnectChan cl = None"
    and "Unmarshal_pkg (sy_proto S) PkgTypeRegisterSystemRsp data = Some (PkgRegisterSystemRsp ErrorCodeSuccess)"
  shows "\<exists>nd1 nd'. cli_handle S sid PkgTypeRegisterSystemRsp data nd = Some nd1 \<and>
    (\<forall>k x. (client_alone S sid ^^ k) nd1 x \<longrightarrow> k \<le> 3 \<and> (client_alone S sid ^^ (3 - k)) x nd') \<and>
    link (nd_cn nd') sid = Some b \<and> cn_connectedSystemCount (nd_cn nd') = cn_connectedSystemCount (nd_cn nd) + 1"
proof -
  have inv: "reg_inv (cn_systemInfos (nd_cn nd)) (cn_connectedSystemCount (nd_cn nd)) (nd_clients nd)"
    using node_reachable_inv [OF assms(1,2)] by (simp add: node_inv_def node_reg_def)
  obtain info where info: "cn_systemInfos (nd_cn nd) sid = Some info" "si_passive info"
    using reg_invD(5) [OF inv assms(3)] by blast
  let ?nd1 = "set_client sid (cl\<lparr>cl_registerResponseChan := Some True\<rparr>) nd"
  have "cli_handle S sid PkgTypeRegisterSystemRsp data nd = Some ?nd1"
    by (simp add: cli_handle_def assms Let_def)
  moreover obtain nd' where "\<forall>k x. (client_alone S sid ^^ k) ?nd1 x \<longrightarrow> k \<le> 3 \<and> (client_alone S sid ^^ (3 - k)) x nd'"
      "link (nd_cn nd') sid = Some b" "cn_connectedSystemCount (nd_cn nd') = cn_connectedSystemCount (nd_cn nd) + 1"
    using select_completes [of ?nd1 sid "cl\<lparr>cl_registerResponseChan := Some True\<rparr>" b info S] assms(4,5,7) info by auto
  ultimately show ?thesis by blast
qed

text \<open>
  C33. The handshake. The request of a client with the server's configuration and libraries, arriving
  on an open session while its system is not registered, is accepted: the session is bound, the
  counter incremented and exactly one response sent. When that response arrives at the client
  waiting for it, its goroutine runs on by its own steps, with no further input and no choice: every
  run of it has at most three steps and can be continued to \<open>nd'\<close>, where all three are done, it waits for
  a disconnect, and the node has counted the system and sends to it over the dialled connection.
\<close>

theorem handshake_completes:
  fixes nd :: "'p node"
  assumes "compatible S S'" and "has_type (SystemId_t (sy_api S)) (cc_LocalSystemId (sy_config S'))"
    and "Marshal_pkg (sy_proto S') (PkgRegisterSystemReq (to_u32 (cc_LocalSystemId (sy_config S')))) = Some payload"
    and "Marshal_pkg (sy_proto S) (PkgRegisterSystemRsp ErrorCodeSuccess) = Some data"
    and "can_register a (cc_LocalSystemId (sy_config S')) c cn"
    and "node_reachable S' nd" and "node_of (sy_config S') k"
    and "nd_clients nd sid = Some cl" and "cl_pc cl = CSelect" and "cl_cli cl = Some b" and "cl_registerResponseChan cl = None"
    and "cl_disconnectChan cl = None"
  shows "\<exists>cn' c' nd1 nd'. svr_handle S a PkgTypeRegisterSystemReq payload cn = Some (None, cn') \<and>
    linked cn' (cc_LocalSystemId (sy_config S')) a c' \<and>
    cs_accepted c' = cs_accepted c @ [frame (PkgTypeRegisterSystemRsp, data)] \<and>
    cn_connectedSystemCount cn' = cn_connectedSystemCount cn + 1 \<and>
    cli_handle S' sid PkgTypeRegisterSystemRsp data nd = Some nd1 \<and>
    (\<forall>k x. (client_alone S' sid ^^ k) nd1 x \<longrightarrow> k \<le> 3 \<and> (client_alone S' sid ^^ (3 - k)) x nd') \<and>
    link (nd_cn nd') sid = Some b \<and> cn_connectedSystemCount (nd_cn nd') = cn_connectedSystemCount (nd_cn nd) + 1"
proof -
  have P: "proto_ok (sy_proto S)" "sy_proto S' = sy_proto S" and W: "int_width (SystemId_t (sy_api S)) \<le> 32"
    using assms(1) by (simp_all add: compatible_def wire_types_ok_def)
  have "Unmarshal_pkg (sy_proto S) PkgTypeRegisterSystemReq payload =
      Some (PkgRegisterSystemReq (to_u32 (cc_LocalSystemId (sy_config S'))))"
    using proto_ok_pkg [OF P(1), of "PkgRegisterSystemReq _"] assms(3) P(2) by simp
  from svr_handle_accepts [OF assms(5) this go_conv_via_u32 [OF W assms(2)] assms(4)] obtain cn' c' where
    "svr_handle S a PkgTypeRegisterSystemReq payload cn = Some (None, cn')" "linked cn' (cc_LocalSystemId (sy_config S')) a c'"
    "cs_accepted c' = cs_accepted c @ [frame (PkgTypeRegisterSystemRsp, data)]"
    "cn_connectedSystemCount cn' = cn_connectedSystemCount cn + 1"
    by blast
  moreover have "Unmarshal_pkg (sy_proto S') PkgTypeRegisterSystemRsp data = Some (PkgRegisterSystemRsp ErrorCodeSuccess)"
    using proto_ok_pkg [OF P(1), of "PkgRegisterSystemRsp ErrorCodeSuccess"] assms(4) P(2) by simp
  ultimately show ?thesis using client_completes [OF assms(6-12), of data] by blast
qed

section \<open>A registration that gets stuck\<close>

text \<open>Only \<open>OnDisconnect\<close> of the session itself unbinds a system.\<close>

definition bound_to :: "int \<Rightarrow> nat \<Rightarrow> 'p clusterNet \<Rightarrow> bool" where
  "bound_to sid a cn \<longleftrightarrow> (\<exists>info. cn_systemInfos cn sid = Some info \<and> si_session info = Some a)"

text \<open>
  A system whose session is bound to a connection that was closed by this side before its receiver
  noticed anything: nothing will unbind it.
\<close>

definition stuck :: "int \<Rightarrow> nat \<Rightarrow> 'p node \<Rightarrow> bool" where
  "stuck sid a nd \<longleftrightarrow> node_inv nd \<and>
     bound_to sid a (nd_cn nd) \<and> (\<exists>c. nd_conns nd a = Some c \<and> silent c)"

lemma bound_to_upd:
  assumes "bound_to sid a cn" and "\<And>info. cn_systemInfos cn sid' = Some info \<Longrightarrow> sid' = sid \<Longrightarrow> si_session (f info) = si_session info"
  shows "bound_to sid a (upd_info sid' f cn)"
  using assms by (auto simp: bound_to_def upd_info_def split: option.splits)

lemma bound_to_simps [simp]:
  "bound_to sid a (add_connected k cn) = bound_to sid a cn" "bound_to sid a (cn\<lparr>cn_net := n\<rparr>) = bound_to sid a cn"
  "bound_to sid a (cn\<lparr>cn_routed := es\<rparr>) = bound_to sid a cn"
  by (simp_all add: bound_to_def)

lemma svr_register_bound:
  assumes "svr_register S b sid' cn = Some (err, cn')" and "bound_to sid a cn"
  shows "bound_to sid a cn'"
proof (cases "\<exists>info. cn_systemInfos cn sid' = Some info \<and> \<not> si_passive info \<and> si_session info = None")
  case True
  with assms(2) have "sid' \<noteq> sid" by (auto simp: bound_to_def)
  with assms(2) have "bound_to sid a (upd_info sid' f (cn\<lparr>cn_net := n\<rparr>))" for f n by (intro bound_to_upd) auto
  with assms(1) True show ?thesis
    by (auto simp: svr_register_def Let_def bind_eq_Some_conv split: option.splits)
next
  case False
  with assms show ?thesis by (auto simp: svr_register_def split: option.splits if_splits)
qed

lemma svr_handle_bound:
  assumes "svr_handle S b msgId data cn = Some (err, cn')" and "bound_to sid a cn"
  shows "bound_to sid a cn'"
proof -
  from assms(1) obtain err1 cn1 where m: "svr_OnMessage S b msgId data cn = Some (err1, cn1)"
    and cn': "cn' = cn1 \<or> (\<exists>n. cn' = cn1\<lparr>cn_net := n\<rparr>)"
    by (auto simp: svr_handle_def bind_eq_Some_conv split: if_splits)
  from m assms(2) have "bound_to sid a cn1"
    using svr_register_bound [of S b _ cn err1 cn1] cn_OnMessage_keeps [of S msgId data cn err1 cn1]
    by (auto simp: svr_OnMessage_def split: if_splits option.splits pkg.splits)
  with cn' show ?thesis by auto
qed

lemma svr_disconnected_bound:
  assumes "svr_disconnected b cn = Some cn'" and "bound_to sid a cn" and "b \<noteq> a"
  shows "bound_to sid a cn'"
proof -
  from assms(1) obtain cn1 n where d: "svr_OnDisconnect b cn = Some cn1" "cn' = cn1\<lparr>cn_net := n\<rparr>"
    by (auto simp: svr_disconnected_def bind_eq_Some_conv)
  have "bound_to sid a (upd_info sid' (\<lambda>info. info\<lparr>si_session := None\<rparr>) (cn\<lparr>cn_net := n\<rparr>))"
    if "cn_systemInfos cn sid' = Some info" "si_session info = Some b" for sid' info n
    using that assms(2,3) by (intro bound_to_upd) (auto simp: bound_to_def)
  with d(1) assms(2) have "bound_to sid a cn1"
    by (auto simp: svr_OnDisconnect_def Let_def bind_eq_Some_conv split: option.splits if_splits)
  with d(2) show ?thesis by simp
qed
lemma client_step_bound:
  assumes "client_step S sid' cl nd nd'" and "bound_to sid a (nd_cn nd)"
  shows "bound_to sid a (nd_cn nd')"
  using assms by cases (auto simp: set_net_def intro: bound_to_upd)

lemma cli_handle_bound:
  assumes "cli_handle S sid' msgId data nd = Some nd'" and "bound_to sid a (nd_cn nd)"
  shows "bound_to sid a (nd_cn nd')"
  using assms cn_OnMessage_keeps [of S msgId data "nd_cn nd"]
  by (fastforce simp: cli_handle_def bind_eq_Some_conv Let_def split: if_splits)

lemma bound_to_views [simp]:
  "bound_to sid a (nd_cn (set_net n nd)) = bound_to sid a (nd_cn nd)"
  "bound_to sid a (nd_cn (set_conn b c nd)) = bound_to sid a (nd_cn nd)"
  "bound_to sid a (nd_cn (set_splitter b p nd)) = bound_to sid a (nd_cn nd)"
  by (simp_all add: set_net_def set_conn_def set_splitter_def)

lemma stuck_step:
  assumes "node_step S nd nd'" and "stuck sid a nd"
  shows "stuck sid a nd'"
proof -
  from assms(2) obtain c where inv: "node_inv nd" and b: "bound_to sid a (nd_cn nd)"
      and c: "nd_conns nd a = Some c" "silent c"
    by (auto simp: stuck_def)
  from node_step_keeps [OF assms(1) inv] inv c(1) obtain c' where
      "node_inv nd'" "nd_conns nd' a = Some c'" "conn_step\<^sup>*\<^sup>* c c'"
    by (auto simp: node_keeps_def)
  moreover have "conn_inv c" using inv c(1) by (auto simp: node_inv_def net_safe_def intro: conn_reachable_inv)
  moreover have "bound_to sid a (nd_cn nd')"
    using assms(1)
  proof cases
    case (frame_session a' s msgId payload p err cn)
    then show ?thesis using svr_handle_bound [OF frame_session(5)] b by simp
  next
    case (frame_client a' sid' msgId payload p)
    then show ?thesis using cli_handle_bound [OF frame_client(4)] b by simp
  next
    case (lost_session a' c'' s cn)
    then have "a' \<noteq> a" using c by (auto simp: silent_def)
    with lost_session show ?thesis using svr_disconnected_bound [OF lost_session(5)] b by simp
  next
    case (client sid' cl)
    then show ?thesis using client_step_bound b by blast
  next
    case (send sid' e err cn)
    then show ?thesis using Send_net [OF send(2)] b by auto
  qed (use b in simp_all)
  ultimately show ?thesis using c(2) silent_stays [of c c'] by (auto simp: stuck_def)
qed

lemma stuck_steps: "(node_step S)\<^sup>*\<^sup>* nd nd' \<Longrightarrow> stuck sid a nd \<Longrightarrow> stuck sid a nd'"
  by (induction rule: rtranclp_induct) (auto intro: stuck_step)

lemma stuck_bound: "stuck sid a nd \<Longrightarrow> bound_to sid a (nd_cn nd)"
  by (simp add: stuck_def)

lemma stuck_refuses:
  assumes "stuck sid a nd"
  shows "svr_register S b sid (nd_cn nd) = Some (Some ''systemId alreay register'', nd_cn nd)"
proof -
  from assms obtain info where info: "cn_systemInfos (nd_cn nd) sid = Some info" "si_session info = Some a"
      and inv: "reg_inv (cn_systemInfos (nd_cn nd)) (cn_connectedSystemCount (nd_cn nd)) (nd_clients nd)"
    by (auto simp: stuck_def bound_to_def node_inv_def node_reg_def)
  moreover have "\<not> si_passive info" using reg_invD(2) [OF inv info(1)] info(2) by auto
  ultimately show ?thesis by (simp add: svr_register_def)
qed

text \<open>
  C34. A registration can get stuck for good. If handling a frame on a registered session returns an
  error, \<open>NewServer\<close>'s closure closes the session; the receiver then finds the connection closed and
  does not call \<open>OnDisconnect\<close>. In every later state of the node the system stays bound to the dead
  session, and every new request to register it, on whatever session, is refused.
\<close>

theorem error_leaves_registration_stuck:
  assumes "node_of (sy_config S) k" and "node_reachable S nd"
    and "a \<in> nd_handling nd" and "Next (nt_splitters (cn_net (nd_cn nd)) a) = Some ((msgId, payload, True), p)"
    and "svr_handle S a msgId payload (nd_cn (set_splitter a p nd)) = Some (Some err, cn)"
    and "bound_to sid a (nd_cn nd)" and "(node_step S)\<^sup>*\<^sup>* (nd\<lparr>nd_cn := cn\<rparr>) nd'"
    and "nt_sessions (cn_net (nd_cn nd)) a = Some s"
  shows "node_step S nd (nd\<lparr>nd_cn := cn\<rparr>) \<and> bound_to sid a (nd_cn nd') \<and>
    svr_register S b sid (nd_cn nd') = Some (Some ''systemId alreay register'', nd_cn nd')"
proof -
  let ?nd = "set_splitter a p nd"
  have inv: "node_inv nd" using node_reachable_inv [OF assms(2,1)] by blast
  with assms(3) obtain c where c: "nd_conns nd a = Some c" "cs_receiver c = RRead" by (auto simp: node_inv_def)
  from inv have safe: "net_safe (cn_net (nd_cn ?nd))"
    using node_keeps_splitter [of nd a p] by (auto simp: node_keeps_def node_inv_def)
  from assms(5) obtain cn1 e n where h: "svr_OnMessage S a msgId payload (nd_cn ?nd) = Some (Some err, cn1)"
      "Session_Close a (cn_net cn1) = Some (e, n)" "cn = cn1\<lparr>cn_net := n\<rparr>"
    by (auto simp: svr_handle_def bind_eq_Some_conv split: if_splits)
  have "net_safe (cn_net cn1) \<and> conns_out (cn_net (nd_cn ?nd)) (cn_net cn1)"
    using svr_OnMessage_keeps [OF h(1)] safe by (simp add: cn_keeps_def)
  with Session_Close_safe [OF h(2)] have out: "conns_out (cn_net (nd_cn ?nd)) n" and closed: "\<exists>c. nt_conns n a = Some c \<and> QQueue_IsClose (cs_q c)"
    by (auto intro: conns_out_trans)
  have "nd_conns ?nd a = Some c" using c(1) by (simp add: set_splitter_def)
  from conns_outD [OF out this] closed obtain c1 where
      c1: "nt_conns n a = Some c1" "QQueue_IsClose (cs_q c1)" "cs_receiver c1 = cs_receiver c" by auto
  have step: "node_step S nd (nd\<lparr>nd_cn := cn\<rparr>)"
    by (rule node_step.frame_session [OF assms(3,8,4,5)])
  have "bound_to sid a cn" using svr_handle_bound [OF assms(5)] assms(6) by simp
  moreover have "node_inv (nd\<lparr>nd_cn := cn\<rparr>)" using node_step_keeps [OF step inv] inv by (simp add: node_keeps_def)
  ultimately have "stuck sid a (nd\<lparr>nd_cn := cn\<rparr>)" using c1 c(2) h(3) by (auto simp: stuck_def silent_def)
  from stuck_steps [OF assms(7) this] show ?thesis using stuck_refuses [of sid a nd' S b] step by (simp add: stuck_def)
qed
section \<open>A node that registers itself\<close>

text \<open>
  C35. A node accepts a registration of its own system id: its own info is not passive. The session
  is bound to it and the counter incremented although no other system has connected, so that the
  waiting loop of \<open>start\<close> ends without an error one system too early.
\<close>

theorem self_registration_accepted:
  fixes nd :: "'p node"
  assumes "node_of (sy_config S) k" and "node_reachable S nd"
    and "nt_sessions (cn_net (nd_cn nd)) a \<noteq> None" and "nd_conns nd a = Some c" and "\<not> QQueue_IsClose (cs_q c)"
    and "cc_LocalSystemId (sy_config S) \<notin> connected_systems nd"
    and "Unmarshal_pkg (sy_proto S) PkgTypeRegisterSystemReq payload = Some (PkgRegisterSystemReq i)"
    and "go_conv (SystemId_t (sy_api S)) (uint i) = cc_LocalSystemId (sy_config S)"
    and "Marshal_pkg (sy_proto S) (PkgRegisterSystemRsp ErrorCodeSuccess) = Some data"
  shows "\<exists>cn. svr_handle S a PkgTypeRegisterSystemReq payload (nd_cn nd) = Some (None, cn) \<and>
    bound_to (cc_LocalSystemId (sy_config S)) a cn \<and>
    (\<forall>sid. sid \<noteq> cc_LocalSystemId (sy_config S) \<longrightarrow> link cn sid = link (nd_cn nd) sid) \<and>
    (length (cc_SystemConfigs (sy_config S)) \<le> card (connected_systems nd) + 2 \<longrightarrow>
       wait_connected S cn ((cn_connectedSystemCount cn, late) # rounds) = Connected)"
proof -
  let ?l = "cc_LocalSystemId (sy_config S)"
  have inv: "node_inv nd" and t: "table (nd_cn nd) = table (NewClusterNet (sy_config S) :: 'p clusterNet)"
    using node_reachable_inv [OF assms(2,1)] by auto
  obtain info where info: "cn_systemInfos (nd_cn nd) ?l = Some info" "\<not> si_passive info"
    using reachable_info [OF assms(2,1), of k] assms(1) by (auto simp: node_of_def)
  with assms(6) have "si_session info = None" by (auto simp: connected_systems_def bound_systems_def)
  with info assms(3-5) inv have "can_register a ?l c (nd_cn nd)"
    by (auto simp: can_register_def conn_at_def node_inv_def intro: net_safe_q)
  from svr_handle_accepts [OF this assms(7-9)] obtain cn where cn:
      "svr_handle S a PkgTypeRegisterSystemReq payload (nd_cn nd) = Some (None, cn)"
      "cn_systemInfos cn = (cn_systemInfos (nd_cn nd))(?l \<mapsto> info\<lparr>si_session := Some a\<rparr>)"
      "cn_connectedSystemCount cn = cn_connectedSystemCount (nd_cn nd) + 1"
    using info by auto
  have "table cn = table (nd_cn nd)" using svr_handle_keeps [OF cn(1)] by (simp add: cn_keeps_def)
  then have "cn_systemCount cn = length (cc_SystemConfigs (sy_config S))"
    using t assms(1) by (simp add: table_def NewClusterNet_count node_of_def)
  moreover have "cn_connectedSystemCount (nd_cn nd) = 1 + int (card (connected_systems nd))"
    using connected_count_views [OF inv] .
  ultimately show ?thesis using cn by (auto simp: bound_to_def link_def)
qed
theorem self_registration_accepted_witness:
  "\<exists>(nd :: bytes node) cn. node_reachable (reg_system 1 1) nd \<and> connected_systems nd = {} \<and>
     svr_handle (reg_system 1 1) 0 PkgTypeRegisterSystemReq [9] (nd_cn nd) = Some (None, cn) \<and> bound_to 1 0 cn \<and>
     link cn 2 = None \<and> wait_connected (reg_system 1 1) cn [(cn_connectedSystemCount cn, False)] = Connected"
proof -
  let ?S = "reg_system 1 1"
  obtain nd :: "bytes node" and c where nd: "node_reachable ?S nd" "can_register 0 1 c (nd_cn nd)"
      "nt_sessions (cn_net (nd_cn nd)) 0 = Some \<lparr>ns_id = 1, ns_bindObject = None, ns_conn = Some 0\<rparr>"
      "cn_systemInfos (nd_cn nd) = cn_systemInfos (NewClusterNet (demo_cluster 1) :: bytes clusterNet)" "nd_clients nd = Map.empty"
    using demo_can_register [of 1 1] by blast
  have none: "connected_systems nd = {}"
    by (auto simp: connected_systems_def bound_systems_def counted_clients_def nd demo_infos split: if_splits)
  have "node_of (sy_config ?S) 0" "cc_LocalSystemId (sy_config ?S) = 1" "length (cc_SystemConfigs (sy_config ?S)) = 2"
    using demo_node_of(1) by (simp_all add: demo_cluster_def)
  moreover have "nd_conns nd 0 = Some c" "\<not> QQueue_IsClose (cs_q c)"
    using nd(2) by (simp_all add: can_register_def conn_at_def)
  moreover have "link (nd_cn nd) 2 = None" by (simp add: link_def nd(4) demo_infos)
  moreover have "go_conv (SystemId_t (sy_api ?S)) (uint (1 :: u32)) = 1" by (simp add: demo_api_def)
  moreover have "1 \<notin> connected_systems nd" by (simp add: none)
  ultimately obtain cn where "svr_handle ?S 0 PkgTypeRegisterSystemReq [9] (nd_cn nd) = Some (None, cn)" "bound_to 1 0 cn"
      "link cn 2 = None" "wait_connected ?S cn [(cn_connectedSystemCount cn, False)] = Connected"
    using self_registration_accepted [of ?S 0 nd 0 c "[9]" 1 "[8]" False "[]"] nd(1,3) none by auto
  with nd(1) none show ?thesis by blast
qed

theorem connected_count_witness:
  "\<exists>nd :: bytes node. node_reachable (reg_system 1 2) nd \<and> connected_systems nd = {2} \<and> cn_connectedSystemCount (nd_cn nd) = 1 + 1"
proof -
  obtain nd :: "bytes node" where "node_reachable (reg_system 1 2) nd" "connected_systems nd = {2}"
    using demo_registered [OF demo_ids(3,4) Next_requests(1)] by blast
  moreover have "node_of (sy_config (reg_system 1 2)) 0" using demo_node_of(1) by simp
  ultimately show ?thesis using connected_count [of "reg_system 1 2" 0 nd] by auto
qed

theorem connected_count_bounds_witness:
  "\<exists>nd :: bytes node. node_reachable (reg_system 1 1) nd \<and> 1 \<in> connected_systems nd \<and> cn_connectedSystemCount (nd_cn nd) \<le> 3"
proof -
  obtain nd :: "bytes node" where "node_reachable (reg_system 1 1) nd" "connected_systems nd = {1}"
    using demo_registered [OF demo_ids(1,2) Next_requests(1)] by blast
  moreover have "node_of (sy_config (reg_system 1 1)) 0" using demo_node_of(1) by simp
  ultimately show ?thesis using connected_count_bounds [of "reg_system 1 1" 0 nd]
    by (intro exI [of _ nd]) (simp add: demo_cluster_def)
qed

theorem start_waits_for_all_witness:
  "\<exists>nd :: bytes node. node_reachable (reg_system 1 2) nd \<and>
     wait_connected (reg_system 1 2) (NewClusterNet (demo_cluster 1) :: bytes clusterNet) [(1, False), (cn_connectedSystemCount (nd_cn nd), False)] = Connected \<and>
     connected_systems nd = {1, 2} - {1}"
proof -
  let ?S = "reg_system 1 2"
  obtain nd0 :: "bytes node" where nd0: "node_reachable ?S nd0" "cn_connectedSystemCount (nd_cn nd0) = 1" "connected_systems nd0 = {}"
  proof
    show "node_reachable ?S \<lparr>nd_cn = (NewClusterNet (demo_cluster 1))\<lparr>cn_connectedSystemCount := 1\<rparr>,
        nd_clients = Map.empty, nd_handling = {}\<rparr>"
      by (rule node_reachable.started [OF demo_server_start])
  qed (auto simp: connected_systems_def bound_systems_def counted_clients_def demo_infos split: if_splits)
  obtain nd :: "bytes node" where nd: "node_reachable ?S nd" "connected_systems nd = {2}" "cn_connectedSystemCount (nd_cn nd) = 2"
    using demo_registered [OF demo_ids(3,4) Next_requests(1)] by blast
  have count: "cn_systemCount (NewClusterNet (demo_cluster 1) :: bytes clusterNet) = 2" by (rule demo_count)
  let ?rounds = "[(nd0, False), (nd, False)]"
  have w: "wait_connected ?S (NewClusterNet (sy_config ?S) :: bytes clusterNet)
      (map (\<lambda>(nd, late). (cn_connectedSystemCount (nd_cn nd), late)) ?rounds) = Connected"
    by (simp add: nd0 nd count)
  have "node_of (sy_config ?S) 0" "\<forall>(nd, late) \<in> set ?rounds. node_reachable ?S nd" using demo_node_of(1) nd0 nd by simp_all
  from start_waits_for_all [OF this w]
  have "connected_systems nd = {1, 2} - {1} \<or> connected_systems nd0 = {1, 2} - {1} \<or>
      1 \<in> connected_systems nd \<or> 1 \<in> connected_systems nd0"
    by (auto simp: demo_cluster_def connected_systems_def)
  with nd nd0 w show ?thesis by (intro exI [of _ nd]) auto
qed

theorem error_leaves_registration_stuck_witness:
  "\<exists>nd nd' :: bytes node. node_reachable (reg_system 1 2) nd \<and> node_step (reg_system 1 2) nd nd' \<and> bound_to 2 0 (nd_cn nd') \<and>
     svr_register (reg_system 1 2) 1 2 (nd_cn nd') = Some (Some ''systemId alreay register'', nd_cn nd')"
proof -
  let ?S = "reg_system 1 2"
  obtain nd :: "bytes node" where nd: "node_reachable ?S nd" "nd_handling nd = {0}"
      "nt_sessions (cn_net (nd_cn nd)) 0 = Some \<lparr>ns_id = 1, ns_bindObject = Some 2, ns_conn = Some 0\<rparr>"
      "nt_splitters (cn_net (nd_cn nd)) 0 = \<lparr>ps_buf = frame (PkgTypeRegisterSystemReq, [9])\<rparr>"
      "\<exists>info. cn_systemInfos (nd_cn nd) 2 = Some info \<and> si_session info = Some 0"
    using demo_registered [OF demo_ids(3,4) Next_requests(1)] by blast
  have cfg: "node_of (sy_config ?S) 0" using demo_node_of(1) by simp
  have inv: "node_inv nd" using node_reachable_inv [OF nd(1) cfg] by blast
  have b: "bound_to 2 0 (nd_cn nd)" using nd(5) by (simp add: bound_to_def)
  let ?nd = "set_splitter 0 ps_empty nd"
  obtain c where c: "nd_conns ?nd 0 = Some c" "q_inv (cs_q c)"
    using inv nd(2) by (auto simp: node_inv_def set_splitter_def intro: net_safe_q)
  then obtain c' where "Conn_Disconnect c = Some (None, c')"
    using qq.close_closes [OF c(2)] by (auto simp: Conn_Disconnect_def)
  moreover have s: "nt_sessions (cn_net (nd_cn ?nd)) 0 = Some \<lparr>ns_id = 1, ns_bindObject = Some 2, ns_conn = Some 0\<rparr>"
    by (simp add: set_splitter_def nd(3))
  ultimately obtain n where n: "Session_Close 0 (cn_net (nd_cn ?nd)) = Some (None, n)"
    using c(1) by (simp add: Session_Close_def net_Disconnect_def)
  have "svr_register ?S 0 2 (nd_cn ?nd) = Some (Some ''systemId alreay register'', nd_cn ?nd)"
  proof -
    obtain info where "cn_systemInfos (nd_cn nd) 2 = Some info" "si_session info = Some 0" using nd(5) by blast
    moreover from this have "\<not> si_passive info"
      using reg_invD(2) [of "cn_systemInfos (nd_cn nd)" _ "nd_clients nd" 2 info] inv by (auto simp: node_inv_def node_reg_def)
    ultimately show ?thesis by (simp add: svr_register_def)
  qed
  then have h: "svr_handle ?S 0 PkgTypeRegisterSystemReq [9] (nd_cn ?nd) =
      Some (Some ''systemId alreay register'', (nd_cn ?nd)\<lparr>cn_net := n\<rparr>)"
    by (simp add: svr_handle_def svr_OnMessage_def demo_api_def n)
  have nxt: "Next (nt_splitters (cn_net (nd_cn nd)) 0) = Some ((PkgTypeRegisterSystemReq, [9], True), ps_empty)"
    by (simp add: nd(4) Next_requests)
  have "0 \<in> nd_handling nd" by (simp add: nd(2))
  from error_leaves_registration_stuck [OF cfg nd(1) this nxt h b rtranclp.rtrancl_refl nd(3), of 1] nd(1)
  show ?thesis by blast
qed
theorem handshake_completes_witness:
  "\<exists>(nd1 :: bytes node) (nd' :: bytes node) (cn' :: bytes clusterNet).
     cli_handle (reg_system 2 2) 1 PkgTypeRegisterSystemRsp [8] nd1 \<noteq> None \<and> link (nd_cn nd') 1 = Some 0 \<and>
     cn_connectedSystemCount (nd_cn nd') = 2 \<and> link cn' 2 = Some 0 \<and> cn_connectedSystemCount cn' = 2"
proof -
  let ?S = "reg_system 1 2" and ?S' = "reg_system 2 2"
  obtain snd :: "bytes node" and c where s: "can_register 0 2 c (nd_cn snd)" "cn_connectedSystemCount (nd_cn snd) = 1"
    using demo_can_register [OF demo_ids(3), of 2] by blast
  obtain nd :: "bytes node" and cl where nd: "node_reachable ?S' nd" "nd_clients nd 1 = Some cl" "cl_pc cl = CSelect"
      "cl_cli cl = Some 0" "cl_registerResponseChan cl = None" "cl_disconnectChan cl = None" "cn_connectedSystemCount (nd_cn nd) = 1"
    using demo_waiting by blast
  have local_id: "cc_LocalSystemId (sy_config ?S') = 2" by (simp add: demo_cluster_def)
  have t: "has_type (SystemId_t (sy_api ?S)) (cc_LocalSystemId (sy_config ?S'))"
    unfolding local_id by (simp add: demo_api_def has_type_def)
  have req: "Marshal_pkg (sy_proto ?S') (PkgRegisterSystemReq (to_u32 (cc_LocalSystemId (sy_config ?S')))) = Some [9]"
    unfolding local_id by (simp add: to_u32_def)
  have rsp: "Marshal_pkg (sy_proto ?S) (PkgRegisterSystemRsp ErrorCodeSuccess) = Some [8]" by simp
  have can: "can_register 0 (cc_LocalSystemId (sy_config ?S')) c (nd_cn snd)" unfolding local_id by (rule s(1))
  have node: "node_of (sy_config ?S') 1" using demo_node_of(2) by simp
  obtain cn' :: "bytes clusterNet" and c' and nd1 nd' :: "bytes node" where "linked cn' (cc_LocalSystemId (sy_config ?S')) 0 c'"
      "cn_connectedSystemCount cn' = cn_connectedSystemCount (nd_cn snd) + 1"
      "cli_handle ?S' 1 PkgTypeRegisterSystemRsp [8] nd = Some nd1" "link (nd_cn nd') 1 = Some 0"
      "cn_connectedSystemCount (nd_cn nd') = cn_connectedSystemCount (nd_cn nd) + 1"
    using handshake_completes [OF reg_compatible t req rsp can nd(1) node nd(2-6)] by blast
  with s(2) nd(7) show ?thesis unfolding local_id
    by (intro exI [of _ nd] exI [of _ nd'] exI [of _ cn']) (simp add: linked_def)
qed

end
