(* ===== verification/Cluster_Recovery.thy ===== *)
theory Cluster_Recovery
  imports Cluster_Start
begin

text \<open>
  What happens when a registered connection is lost: what the server unbinds, and what the client's
  goroutine makes of a response that arrived too late.
\<close>

section \<open>The receiver notices\<close>

text \<open>The reads fail, nobody has disconnected locally: three steps lead the receiver to its callback.\<close>

definition same_registry :: "'p node \<Rightarrow> 'p node \<Rightarrow> bool" where
  "same_registry nd nd' \<longleftrightarrow> cn_systemInfos (nd_cn nd') = cn_systemInfos (nd_cn nd) \<and>
     cn_connectedSystemCount (nd_cn nd') = cn_connectedSystemCount (nd_cn nd) \<and>
     nt_sessions (cn_net (nd_cn nd')) = nt_sessions (cn_net (nd_cn nd)) \<and>
     nt_clients (cn_net (nd_cn nd')) = nt_clients (cn_net (nd_cn nd)) \<and>
     nd_clients nd' = nd_clients nd \<and> nd_handling nd' = nd_handling nd"

lemma set_conn_same: "same_registry nd (set_conn a c nd)"
  by (simp add: same_registry_def set_conn_def set_net_def)

lemma set_splitter_same: "same_registry nd (set_splitter a p nd)"
  by (simp add: same_registry_def set_splitter_def set_net_def)

lemma same_registry_trans: "same_registry nd nd' \<Longrightarrow> same_registry nd' nd'' \<Longrightarrow> same_registry nd nd''"
  by (simp add: same_registry_def)

lemma set_conn_conns [simp]: "nd_conns (set_conn a c nd) = (nd_conns nd)(a \<mapsto> c)"
  "nd_handling (set_conn a c nd) = nd_handling nd"
  by (simp_all add: set_conn_def)

lemma receiver_notices:
  assumes "nd_conns nd a = Some c" and "cs_receiver c = RRead" and "a \<notin> nd_handling nd"
    and "\<not> QQueue_IsClose (cs_q c)" and "q_inv (cs_q c)"
  shows "\<exists>nd' c'. (node_step S)\<^sup>*\<^sup>* nd nd' \<and> nd_conns nd' a = Some c' \<and> cs_receiver c' = RCallback \<and> same_registry nd nd' \<and>
    (\<forall>b. b \<noteq> a \<longrightarrow> nd_conns nd' b = nd_conns nd b)"
proof -
  let ?c1 = "c\<lparr>cs_receiver := RCheckClose\<rparr>" and ?c2 = "c\<lparr>cs_receiver := RDisconnect\<rparr>"
  obtain q where q: "QQueue_Close (cs_q c) = Some (None, q)" using qq.close_closes [OF assms(5)] by auto
  let ?c3 = "c\<lparr>cs_q := q, cs_receiver := RCallback\<rparr>"
  have r1: "receiver_step c ?c1" using receiver_step.read_error [OF assms(2)] .
  have r2: "receiver_step ?c1 ?c2" using receiver_step.check [of ?c1] assms(4) by simp
  have r3: "receiver_step ?c2 ?c3"
    using receiver_step.disconnect [of ?c2 None "?c2\<lparr>cs_q := q\<rparr>"] q by (simp add: Conn_Disconnect_def)
  have s1: "node_step S nd (set_conn a ?c1 nd)"
    by (rule node_step.receiver [OF assms(1,3) _ r1]) (simp_all add: assms)
  have s2: "node_step S (set_conn a ?c1 nd) (set_conn a ?c2 (set_conn a ?c1 nd))"
    by (rule node_step.receiver [OF _ _ _ r2]) (simp_all add: assms)
  have s3: "node_step S (set_conn a ?c2 (set_conn a ?c1 nd)) (set_conn a ?c3 (set_conn a ?c2 (set_conn a ?c1 nd)))"
    by (rule node_step.receiver [OF _ _ _ r3]) (simp_all add: assms)
  have "(node_step S)\<^sup>*\<^sup>* nd (set_conn a ?c3 (set_conn a ?c2 (set_conn a ?c1 nd)))"
    by (rule rtranclp.rtrancl_into_rtrancl [OF rtranclp.rtrancl_into_rtrancl [OF r_into_rtranclp [of "node_step S", OF s1] s2] s3])
  moreover have "same_registry nd (set_conn a ?c3 (set_conn a ?c2 (set_conn a ?c1 nd)))"
    by (intro same_registry_trans [OF same_registry_trans [OF set_conn_same set_conn_same] set_conn_same])
  ultimately show ?thesis by (intro exI [of _ "set_conn a ?c3 (set_conn a ?c2 (set_conn a ?c1 nd))"] exI [of _ ?c3]) simp
qed

section \<open>The server's side\<close>

lemma svr_disconnected_frees:
  assumes "nt_sessions (cn_net cn) a = Some s" and "ns_bindObject s = Some sid"
    and "cn_systemInfos cn sid = Some info" and "si_session info = Some a"
  shows "\<exists>cn'. svr_disconnected a cn = Some cn' \<and>
    cn_systemInfos cn' = (cn_systemInfos cn)(sid \<mapsto> info\<lparr>si_session := None\<rparr>) \<and>
    cn_connectedSystemCount cn' = cn_connectedSystemCount cn - 1 \<and> nt_conns (cn_net cn') = nt_conns (cn_net cn)"
  using assms by (simp add: svr_disconnected_def svr_OnDisconnect_def GetBindObject_def SetBindObject_def)

text \<open>
  C38. \<open>OnDisconnect\<close> frees the system the session registered last, and no other. When the callback of
  a lost session runs, the system it is bound to has no session any more, the counter is decremented
  and the system can be registered again on any open session. But a session that registered several
  systems is remembered by all of their infos: the others stay bound to it for ever, and no request
  to register them is accepted again.
\<close>

theorem disconnect_frees_last_registration:
  assumes "node_of (sy_config S) k" and "node_reachable S nd"
    and "nd_conns nd a = Some c" and "cs_receiver c = RCallback"
    and "nt_sessions (cn_net (nd_cn nd)) a = Some s" and "ns_bindObject s = Some sid" and "bound_to sid a (nd_cn nd)"
  shows "\<exists>nd1. node_step S nd nd1 \<and> cn_connectedSystemCount (nd_cn nd1) = cn_connectedSystemCount (nd_cn nd) - 1 \<and>
    (\<forall>b c'. nt_sessions (cn_net (nd_cn nd1)) b \<noteq> None \<longrightarrow> nd_conns nd1 b = Some c' \<longrightarrow> \<not> QQueue_IsClose (cs_q c') \<longrightarrow>
       can_register b sid c' (nd_cn nd1)) \<and>
    (\<forall>sid' nd' b. sid' \<noteq> sid \<longrightarrow> bound_to sid' a (nd_cn nd) \<longrightarrow> (node_step S)\<^sup>*\<^sup>* nd1 nd' \<longrightarrow>
       bound_to sid' a (nd_cn nd') \<and>
       svr_register S b sid' (nd_cn nd') = Some (Some ''systemId alreay register'', nd_cn nd'))"
proof -
  have inv: "node_inv nd" using node_reachable_inv [OF assms(2,1)] by blast
  obtain info where info: "cn_systemInfos (nd_cn nd) sid = Some info" "si_session info = Some a"
    using assms(7) by (auto simp: bound_to_def)
  have active: "\<not> si_passive info"
    using reg_invD(2) [of "cn_systemInfos (nd_cn nd)" _ "nd_clients nd" sid info] inv info by (auto simp: node_inv_def node_reg_def)
  let ?c = "c\<lparr>cs_callbacks := cs_callbacks c + 1, cs_receiver := RReturned\<rparr>"
  let ?nd = "set_conn a ?c nd"
  have nd: "cn_systemInfos (nd_cn ?nd) = cn_systemInfos (nd_cn nd)"
      "cn_connectedSystemCount (nd_cn ?nd) = cn_connectedSystemCount (nd_cn nd)"
      "nt_sessions (cn_net (nd_cn ?nd)) a = Some s"
    using assms(5) by (simp_all add: set_conn_def)
  obtain cn where lost: "svr_disconnected a (nd_cn ?nd) = Some cn"
      and cn: "cn_systemInfos cn = (cn_systemInfos (nd_cn nd))(sid \<mapsto> info\<lparr>si_session := None\<rparr>)"
        "cn_connectedSystemCount cn = cn_connectedSystemCount (nd_cn nd) - 1" "nt_conns (cn_net cn) = (nd_conns nd)(a \<mapsto> ?c)"
    using svr_disconnected_frees [OF nd(3) assms(6), of info] info nd by auto
  have step: "node_step S nd (nd\<lparr>nd_cn := cn\<rparr>)" by (rule node_step.lost_session [OF assms(3-5) lost])
  have inv1: "node_inv (nd\<lparr>nd_cn := cn\<rparr>)" using node_step_keeps [OF step inv] inv by (simp add: node_keeps_def)
  have conn: "nd_conns (nd\<lparr>nd_cn := cn\<rparr>) a = Some ?c" using cn(3) by simp
  have free: "can_register b sid c' (nd_cn (nd\<lparr>nd_cn := cn\<rparr>))"
    if "nt_sessions (cn_net (nd_cn (nd\<lparr>nd_cn := cn\<rparr>))) b \<noteq> None" "nd_conns (nd\<lparr>nd_cn := cn\<rparr>) b = Some c'"
      "\<not> QQueue_IsClose (cs_q c')" for b c'
  proof -
    have "q_inv (cs_q c')" using inv1 that(2) by (auto simp: node_inv_def intro: net_safe_q)
    with that cn(1) active show ?thesis by (simp add: can_register_def conn_at_def)
  qed
  have "stuck sid' a (nd\<lparr>nd_cn := cn\<rparr>)" if "sid' \<noteq> sid" "bound_to sid' a (nd_cn nd)" for sid'
  proof -
    have "conn_inv ?c" using inv1 conn by (auto simp: node_inv_def net_safe_def intro: conn_reachable_inv)
    then have "silent ?c" by (simp add: conn_inv_def silent_def)
    moreover have "bound_to sid' a cn" using that cn(1) by (simp add: bound_to_def)
    ultimately show ?thesis using inv1 conn by (simp add: stuck_def)
  qed
  then have "bound_to sid' a (nd_cn nd') \<and> svr_register S b sid' (nd_cn nd') = Some (Some ''systemId alreay register'', nd_cn nd')"
    if "sid' \<noteq> sid" "bound_to sid' a (nd_cn nd)" "(node_step S)\<^sup>*\<^sup>* (nd\<lparr>nd_cn := cn\<rparr>) nd'" for sid' nd' b
    using that by (blast intro: stuck_steps stuck_bound stuck_refuses)
  with step free cn(2) show ?thesis by (intro exI [of _ "nd\<lparr>nd_cn := cn\<rparr>"]) auto
qed

text \<open>
  The run for the witness: a session registers system 2, then system 1, and the peer goes away.
\<close>

lemma demo_double:
  "\<exists>(nd :: bytes node) c s. node_reachable (reg_system 1 2) nd \<and> nd_conns nd 0 = Some c \<and> cs_receiver c = RCallback \<and>
     nt_sessions (cn_net (nd_cn nd)) 0 = Some s \<and> ns_bindObject s = Some 1 \<and>
     bound_to 1 0 (nd_cn nd) \<and> bound_to 2 0 (nd_cn nd)"
proof -
  let ?S = "reg_system 1 2"
  have other: "(1 :: int) \<in> {1, 2} - {2}" by simp
  obtain nd :: "bytes node" and c where nd: "node_reachable ?S nd" "nd_handling nd = {0}"
      "nt_sessions (cn_net (nd_cn nd)) 0 = Some \<lparr>ns_id = 1, ns_bindObject = Some 2, ns_conn = Some 0\<rparr>"
      "nt_splitters (cn_net (nd_cn nd)) 0 = \<lparr>ps_buf = frame (PkgTypeRegisterSystemReq, [7])\<rparr>"
      "\<exists>info. cn_systemInfos (nd_cn nd) 2 = Some info \<and> si_session info = Some 0"
      "can_register 0 1 c (nd_cn nd)"
    using demo_registered [OF demo_ids(3,4) Next_requests(1) [of 9 7]] other by blast
  let ?nd = "set_splitter 0 ps_empty nd"
  have can: "can_register 0 1 c (nd_cn ?nd)" using nd(6) by (simp add: can_register_def conn_at_def set_splitter_def set_net_def)
  have conv: "go_conv (SystemId_t (sy_api ?S)) (uint (1 :: u32)) = 1" by (simp add: demo_api_def)
  have "Unmarshal_pkg (sy_proto ?S) PkgTypeRegisterSystemReq [7] = Some (PkgRegisterSystemReq 1)" by simp
  from svr_handle_accepts [OF can this conv, of "[8]"] obtain cn c' s where
      h: "svr_handle ?S 0 PkgTypeRegisterSystemReq [7] (nd_cn ?nd) = Some (None, cn)"
      "bound_to 1 0 cn" "nt_sessions (cn_net cn) 0 = Some s" "ns_bindObject s = Some 1"
      "nt_splitters (cn_net cn) = nt_splitters (cn_net (nd_cn ?nd))" "nt_conns (cn_net cn) 0 = Some c'" "q_inv (cs_q c')"
      "\<not> QQueue_IsClose (cs_q c')"
    by (auto simp: bound_to_def linked_def conn_at_def)
  have "bound_to 2 0 (nd_cn ?nd)" using nd(5) by (simp add: bound_to_def)
  then have b2: "bound_to 2 0 cn" by (rule svr_handle_bound [OF h(1)])
  let ?nd1 = "nd\<lparr>nd_cn := cn\<rparr>"
  have nxt: "Next (nt_splitters (cn_net (nd_cn nd)) 0) = Some ((PkgTypeRegisterSystemReq, [7], True), ps_empty)"
    by (simp add: nd(4) Next_requests)
  have "0 \<in> nd_handling nd" by (simp add: nd(2))
  then have "node_step ?S nd ?nd1" by (rule node_step.frame_session [OF _ nd(3) nxt h(1)])
  then have r1: "node_reachable ?S ?nd1" by (rule node_reachable.step [OF nd(1)])
  let ?nd2 = "(set_splitter 0 ps_empty ?nd1)\<lparr>nd_handling := nd_handling ?nd1 - {0}\<rparr>"
  have s1: "nt_splitters (cn_net (nd_cn ?nd1)) 0 = ps_empty" using h(5) by (simp add: set_splitter_def)
  have fin: "Next (nt_splitters (cn_net (nd_cn ?nd1)) 0) = Some ((0, [], False), ps_empty)"
    unfolding s1 by (rule Next_empty) (simp add: ps_empty_def)
  have "0 \<in> nd_handling ?nd1" by (simp add: nd(2))
  then have "node_step ?S ?nd1 ?nd2" by (rule node_step.frames_done [OF _ fin])
  then have r2: "node_reachable ?S ?nd2" by (rule node_reachable.step [OF r1])
  have cfg: "node_of (sy_config ?S) 0" using demo_node_of(1) by simp
  have rr: "cs_receiver c' = RRead" using node_reachable_inv [OF r1 cfg] nd(2) h(6) by (auto simp: node_inv_def)
  have "nd_conns ?nd2 0 = Some c'" using h(6) by (simp add: set_splitter_def)
  moreover have "0 \<notin> nd_handling ?nd2" by simp
  ultimately obtain nd' c'' where gone: "(node_step ?S)\<^sup>*\<^sup>* ?nd2 nd'" "nd_conns nd' 0 = Some c''" "cs_receiver c'' = RCallback"
      "same_registry ?nd2 nd'"
    using receiver_notices [of ?nd2 0 c'] rr h(7,8) by blast
  from gone(1) r2 have "node_reachable ?S nd'"
    by (induction rule: rtranclp_induct) (auto intro: node_reachable.step)
  moreover have "nt_sessions (cn_net (nd_cn nd')) 0 = Some s" "bound_to 1 0 (nd_cn nd')" "bound_to 2 0 (nd_cn nd')"
    using gone(4) h(2,3) b2 by (simp_all add: same_registry_def bound_to_def set_splitter_def set_net_def)
  ultimately show ?thesis using gone(2,3) h(4) by blast
qed

theorem disconnect_frees_last_registration_witness:
  "\<exists>(nd :: bytes node) nd1. node_reachable (reg_system 1 2) nd \<and> node_step (reg_system 1 2) nd nd1 \<and>
     cn_connectedSystemCount (nd_cn nd1) = cn_connectedSystemCount (nd_cn nd) - 1 \<and> bound_to 2 0 (nd_cn nd1) \<and>
     svr_register (reg_system 1 2) 1 2 (nd_cn nd1) = Some (Some ''systemId alreay register'', nd_cn nd1)"
proof -
  obtain nd :: "bytes node" and c s where nd: "node_reachable (reg_system 1 2) nd" "nd_conns nd 0 = Some c" "cs_receiver c = RCallback"
      "nt_sessions (cn_net (nd_cn nd)) 0 = Some s" "ns_bindObject s = Some 1" "bound_to 1 0 (nd_cn nd)" "bound_to 2 0 (nd_cn nd)"
    using demo_double by blast
  have cfg: "node_of (sy_config (reg_system 1 2)) 0" using demo_node_of(1) by simp
  have "(2 :: int) \<noteq> 1" by simp
  with disconnect_frees_last_registration [OF cfg nd(1-6)] nd(1,7) show ?thesis by blast
qed
section \<open>The client's side\<close>

text \<open>The select takes the disconnect although a response has arrived, and the client dials again.\<close>

lemma select_and_redial:
  assumes "node_reachable S nd" and "node_of (sy_config S) k"
    and "nd_clients nd sid = Some cl" and "cl_pc cl = CSelect" and "cl_disconnectChan cl = Some x" and "cl_registerResponseChan cl = Some True"
    and "nd_conns nd b = None"
  shows "\<exists>nd' cl' c. (node_step S)\<^sup>*\<^sup>* nd nd' \<and> nd_clients nd' sid = Some cl' \<and> cl_pc cl' = CRegister \<and> cl_cli cl' = Some b \<and>
    cl_registerResponseChan cl' = Some True \<and> cl_disconnectChan cl' = None \<and> newConn = Some c \<and> nd_conns nd' = (nd_conns nd)(b \<mapsto> c) \<and>
    cn_systemInfos (nd_cn nd') = cn_systemInfos (nd_cn nd) \<and>
    cn_connectedSystemCount (nd_cn nd') = cn_connectedSystemCount (nd_cn nd)"
proof -
  let ?cl1 = "cl\<lparr>cl_disconnectChan := None, cl_pc := CDial\<rparr>" and ?nd1 = "set_client sid (cl\<lparr>cl_disconnectChan := None, cl_pc := CDial\<rparr>) nd"
  have s1: "node_step S nd ?nd1"
    by (rule node_step.client [OF assms(3)], rule client_step.select_disconnect [OF assms(4,5)])
  obtain c where c: "newConn = Some c" using newConn_returns by blast
  let ?n = "(cn_net (nd_cn nd))\<lparr>nt_conns := (nd_conns nd)(b \<mapsto> c), nt_clients := (nt_clients (cn_net (nd_cn nd)))(b \<mapsto> sid),
             nt_splitters := (nt_splitters (cn_net (nd_cn nd)))(b := ps_empty)\<rparr>"
  have dial: "dial_conn b sid (cn_net (nd_cn ?nd1)) = Some ?n" by (simp add: dial_conn_def c)
  let ?cl2 = "?cl1\<lparr>cl_disconnectChan := None, cl_cli := Some b, cl_pc := CRegister\<rparr>"
  have "client_step S sid ?cl1 ?nd1 (set_client sid ?cl2 (set_net ?n ?nd1))"
    by (rule client_step.dialled [OF _ _ dial]) (simp_all add: assms(7))
  then have s2: "node_step S ?nd1 (set_client sid ?cl2 (set_net ?n ?nd1))" by (rule node_step.client [rotated]) simp
  have "(node_step S)\<^sup>*\<^sup>* nd (set_client sid ?cl2 (set_net ?n ?nd1))"
    by (rule rtranclp.rtrancl_into_rtrancl [OF r_into_rtranclp [of "node_step S", OF s1] s2])
  then show ?thesis using assms(6) c
    by (intro exI [of _ "set_client sid ?cl2 (set_net ?n ?nd1)"] exI [of _ ?cl2] exI [of _ c]) simp
qed

lemma node_reachable_steps: "(node_step S)\<^sup>*\<^sup>* nd nd' \<Longrightarrow> node_reachable S nd \<Longrightarrow> node_reachable S nd'"
  by (induction rule: rtranclp_induct) (auto intro: node_reachable.step)

text \<open>
  C39. The response channel is never emptied between attempts. If an accepting response and the
  disconnect are both waiting when the client reaches its \<open>select\<close>, Go may take the disconnect; the
  client dials again, and after sending the request takes the old response for the new answer: it
  counts the system and uses the new connection, on which nothing has been received yet.
\<close>

theorem stale_response_accepted:
  assumes "node_of (sy_config S) k" and "node_reachable S nd"
    and "nd_clients nd sid = Some cl" and "cl_pc cl = CSelect" and "cl_disconnectChan cl = Some x" and "cl_registerResponseChan cl = Some True"
    and "nd_conns nd b = None"
  shows "\<exists>nd' c. (node_step S)\<^sup>*\<^sup>* nd nd' \<and> link (nd_cn nd') sid = Some b \<and> nd_conns nd' b = Some c \<and> cs_read c = [] \<and>
    cn_connectedSystemCount (nd_cn nd') = cn_connectedSystemCount (nd_cn nd) + 1"
proof -
  obtain nd1 cl1 c where n1: "(node_step S)\<^sup>*\<^sup>* nd nd1" "nd_clients nd1 sid = Some cl1" "cl_pc cl1 = CRegister" "cl_cli cl1 = Some b"
      "cl_registerResponseChan cl1 = Some True" "cl_disconnectChan cl1 = None" "newConn = Some c" "nd_conns nd1 = (nd_conns nd)(b \<mapsto> c)"
      "cn_systemInfos (nd_cn nd1) = cn_systemInfos (nd_cn nd)"
      "cn_connectedSystemCount (nd_cn nd1) = cn_connectedSystemCount (nd_cn nd)"
    using select_and_redial [OF assms(2,1,3-7)] by blast
  have inv: "reg_inv (cn_systemInfos (nd_cn nd)) (cn_connectedSystemCount (nd_cn nd)) (nd_clients nd)"
    using node_reachable_inv [OF assms(2,1)] by (simp add: node_inv_def node_reg_def)
  obtain info where info: "cn_systemInfos (nd_cn nd) sid = Some info" "si_passive info"
    using reg_invD(5) [OF inv assms(3)] by blast
  let ?data = "case Marshal_pkg (sy_proto S) (PkgRegisterSystemReq (to_u32 (cc_LocalSystemId (sy_config S)))) of
    None \<Rightarrow> [] | Some data \<Rightarrow> data"
  note q = newConn_fresh [OF n1(7)]
  have byte: "PkgTypeRegisterSystemReq \<le> MaxMsgId" and b: "nd_conns nd1 b = Some c" using n1(8) by (simp_all add: pkg_types MaxMsgId_def)
  have pack: "net_SendMessage b PkgTypeRegisterSystemReq ?data n = net_SendData b (frame (PkgTypeRegisterSystemReq, ?data)) n" for n
    by (simp add: net_SendMessage_def PackMessage_frame [OF byte])
  obtain c' where sent: "SendData (frame (PkgTypeRegisterSystemReq, ?data)) c = Some (None, c')" and read: "cs_read c' = []"
    using SendData_open [OF q(1,2)] q(5) by metis
  let ?n = "(cn_net (nd_cn nd1))\<lparr>nt_conns := (nd_conns nd1)(b \<mapsto> c')\<rparr>" and ?cl2 = "cl1\<lparr>cl_pc := CSelect\<rparr>"
  let ?nd2 = "set_client sid ?cl2 (set_net ?n nd1)"
  have "net_SendMessage b PkgTypeRegisterSystemReq ?data (cn_net (nd_cn nd1)) = Some (None, ?n)"
    unfolding pack by (simp add: net_SendData_def b sent)
  then have "node_step S nd1 ?nd2"
    by (intro node_step.client [OF n1(2)] client_step.request_sent [OF n1(3,4)])
  moreover obtain nd' where e: "\<forall>k x. (client_alone S sid ^^ k) ?nd2 x \<longrightarrow> k \<le> 3 \<and> (client_alone S sid ^^ (3 - k)) x nd'"
      "link (nd_cn nd') sid = Some b" "cn_connectedSystemCount (nd_cn nd') = cn_connectedSystemCount (nd_cn ?nd2) + 1"
      "nd_conns nd' = nd_conns ?nd2"
    using select_completes [of ?nd2 sid ?cl2 b info S] n1(4,5,6,9) info by auto
  moreover have "(node_step S)\<^sup>*\<^sup>* ?nd2 nd'"
    using e(1) [rule_format, of 0 ?nd2] by (auto intro: client_alone_steps)
  ultimately have "(node_step S)\<^sup>*\<^sup>* nd nd'" using n1(1) by (meson rtranclp.rtrancl_into_rtrancl rtranclp_trans)
  with e(2-4) n1(10) read show ?thesis by (intro exI [of _ nd'] exI [of _ c']) simp
qed

text \<open>
  The run for the witness: node 2 gets its response, and the connection is lost before its client
  goroutine has read it.
\<close>

lemma demo_stale:
  "\<exists>(nd :: bytes node) cl. node_reachable (reg_system 2 2) nd \<and> nd_clients nd 1 = Some cl \<and> cl_pc cl = CSelect \<and>
     cl_disconnectChan cl = Some True \<and> cl_registerResponseChan cl = Some True \<and> nd_conns nd 1 = None"
proof -
  let ?S = "reg_system 2 2" and ?f = "frame (PkgTypeRegisterSystemRsp, [8])"
  obtain nd :: "bytes node" and cl c where nd: "node_reachable ?S nd" "nd_clients nd 1 = Some cl" "cl_pc cl = CSelect"
      "cl_registerResponseChan cl = None" "cl_disconnectChan cl = None" "nd_handling nd = {}"
      "nt_clients (cn_net (nd_cn nd)) 0 = Some 1" "nt_splitters (cn_net (nd_cn nd)) 0 = ps_empty"
      "nd_conns nd = [0 \<mapsto> c]" "q_inv (cs_q c)" "\<not> QQueue_IsClose (cs_q c)" "cs_receiver c = RRead"
    using demo_waiting by blast
  let ?c1 = "c\<lparr>cs_read := cs_read c @ [?f]\<rparr>"
  let ?nd1 = "(set_splitter 0 (Append ?f (nt_splitters (cn_net (nd_cn nd)) 0)) (set_conn 0 ?c1 nd))\<lparr>nd_handling := insert 0 (nd_handling nd)\<rparr>"
  have r1: "node_reachable ?S ?nd1"
    by (rule node_reachable.step [OF nd(1)], rule node_step.chunk) (simp_all add: nd(6,9,12))
  have nd1: "nd_clients ?nd1 1 = Some cl" "nt_clients (cn_net (nd_cn ?nd1)) 0 = Some 1"
      "nt_splitters (cn_net (nd_cn ?nd1)) 0 = Append ?f ps_empty" "nd_conns ?nd1 = [0 \<mapsto> ?c1]" "nd_handling ?nd1 = {0}"
    using nd by (simp_all add: set_splitter_def set_conn_def set_net_def)
  let ?cl1 = "cl\<lparr>cl_registerResponseChan := Some True\<rparr>" and ?nd2 = "set_client 1 (cl\<lparr>cl_registerResponseChan := Some True\<rparr>) (set_splitter 0 ps_empty ?nd1)"
  have "msg_fits (PkgTypeRegisterSystemRsp, [8])" by (simp add: msg_fits_def pkg_types MaxMsgId_def PacketHeaderSize_def)
  from Next_frame [OF this, of "Append ?f ps_empty" "[]"]
  have nxt: "Next (nt_splitters (cn_net (nd_cn ?nd1)) 0) = Some ((PkgTypeRegisterSystemRsp, [8], True), ps_empty)"
    unfolding nd1(3) by (simp add: Append_def ps_empty_def length_frame PacketHeaderSize_def)
  have h: "cli_handle ?S 1 PkgTypeRegisterSystemRsp [8] (set_splitter 0 ps_empty ?nd1) = Some ?nd2"
    using nd1(1) nd(4) by (simp add: cli_handle_def Let_def)
  have "0 \<in> nd_handling ?nd1" by simp
  from node_reachable.step [OF r1 node_step.frame_client [OF this nd1(2) nxt h]] have r2: "node_reachable ?S ?nd2" .
  let ?nd3 = "(set_splitter 0 ps_empty ?nd2)\<lparr>nd_handling := nd_handling ?nd2 - {0}\<rparr>"
  have s2: "nt_splitters (cn_net (nd_cn ?nd2)) 0 = ps_empty" and h2: "0 \<in> nd_handling ?nd2" by (simp_all add: set_splitter_def)
  have "Next (nt_splitters (cn_net (nd_cn ?nd2)) 0) = Some ((0, [], False), ps_empty)"
    unfolding s2 by (rule Next_empty) (simp add: ps_empty_def)
  from node_reachable.step [OF r2 node_step.frames_done [OF h2 this]] have r3: "node_reachable ?S ?nd3" .
  have nd3: "nd_conns ?nd3 = [0 \<mapsto> ?c1]" "nd_clients ?nd3 1 = Some ?cl1" "nt_clients (cn_net (nd_cn ?nd3)) 0 = Some 1"
    using nd1(2,4) by (simp_all add: set_splitter_def)
  have "nd_conns ?nd3 0 = Some ?c1" unfolding nd3(1) by simp
  from receiver_notices [OF this, of ?S] obtain nd4 c4 where n4: "(node_step ?S)\<^sup>*\<^sup>* ?nd3 nd4" "nd_conns nd4 0 = Some c4"
      "cs_receiver c4 = RCallback" "same_registry ?nd3 nd4" "\<And>b. b \<noteq> 0 \<Longrightarrow> nd_conns nd4 b = nd_conns ?nd3 b"
    using nd(10-12) by auto
  have same4: "nt_clients (cn_net (nd_cn nd4)) 0 = Some 1" "nd_clients nd4 1 = Some ?cl1"
    using n4(4) nd3(2,3) by (simp_all only: same_registry_def)
  let ?nd5 = "set_client 1 (?cl1\<lparr>cl_disconnectChan := Some True\<rparr>)
    (set_conn 0 (c4\<lparr>cs_callbacks := cs_callbacks c4 + 1, cs_receiver := RReturned\<rparr>) nd4)"
  have "node_step ?S nd4 ?nd5"
    by (rule node_step.lost_client [OF n4(2,3) same4]) (simp add: nd(5))
  then have "node_reachable ?S ?nd5" by (rule node_reachable.step [OF node_reachable_steps [OF n4(1) r3]])
  moreover have "nd_conns ?nd5 1 = None" using n4(5) [of 1] nd3(1) by simp
  ultimately show ?thesis using nd(3) by (intro exI [of _ ?nd5] exI [of _ "?cl1\<lparr>cl_disconnectChan := Some True\<rparr>"]) simp
qed

theorem stale_response_accepted_witness:
  "\<exists>(nd :: bytes node) nd' c. node_reachable (reg_system 2 2) nd \<and> (node_step (reg_system 2 2))\<^sup>*\<^sup>* nd nd' \<and>
     link (nd_cn nd') 1 = Some 1 \<and> nd_conns nd' 1 = Some c \<and> cs_read c = []"
proof -
  obtain nd :: "bytes node" and cl where nd: "node_reachable (reg_system 2 2) nd" "nd_clients nd 1 = Some cl" "cl_pc cl = CSelect"
      "cl_disconnectChan cl = Some True" "cl_registerResponseChan cl = Some True" "nd_conns nd 1 = None"
    using demo_stale by blast
  have cfg: "node_of (sy_config (reg_system 2 2)) 1" using demo_node_of(2) by simp
  from stale_response_accepted [OF cfg nd] nd(1) show ?thesis by blast
qed

end
