(* ===== verification/Session_Registry.thy ===== *)
theory Session_Registry
  imports Cluster_Recovery
begin

text \<open>
  The session manager of a running node: which sessions it lists, and that their ids are unique as
  long as fewer than $2^{32}$ connections have been accepted.
\<close>

section \<open>What the manager's invariant depends on\<close>

text \<open>The ids of the sessions, the manager, how often each connection's callback ran, the clients' connections.\<close>

record sess_view =
  sv_ids :: "nat \<rightharpoonup> u32"
  sv_mgr :: sessionMgr
  sv_callbacks :: "nat \<rightharpoonup> nat"
  sv_clients :: "nat set"

definition view :: "net \<Rightarrow> sess_view" where
  "view n = \<lparr>sv_ids = (\<lambda>a. map_option ns_id (nt_sessions n a)), sv_mgr = nt_mgr n,
     sv_callbacks = (\<lambda>a. map_option cs_callbacks (nt_conns n a)), sv_clients = dom (nt_clients n)\<rparr>"

text \<open>A connection whose callback count stays, a session whose id stays.\<close>

lemma view_conn:
  "nt_conns n a = Some c \<Longrightarrow> cs_callbacks c' = cs_callbacks c \<Longrightarrow> view (n\<lparr>nt_conns := (nt_conns n)(a \<mapsto> c')\<rparr>) = view n"
  by (auto simp: view_def)

lemma view_session:
  "nt_sessions n a = Some s \<Longrightarrow> ns_id s' = ns_id s \<Longrightarrow> view (n\<lparr>nt_sessions := (nt_sessions n)(a \<mapsto> s')\<rparr>) = view n"
  by (auto simp: view_def)

lemma view_splitters: "view (n\<lparr>nt_splitters := p\<rparr>) = view n"
  by (simp add: view_def)

lemma net_SendData_view: "net_SendData a data n = Some (err, n') \<Longrightarrow> net_safe n \<Longrightarrow> view n' = view n"
  using SendData_returned net_safe_q by (fastforce simp: net_SendData_def intro!: view_conn)

lemma net_Disconnect_view: "net_Disconnect a n = Some (err, n') \<Longrightarrow> net_safe n \<Longrightarrow> view n' = view n"
  using Conn_Disconnect_returned net_safe_q by (fastforce simp: net_Disconnect_def intro!: view_conn)

lemma net_SendMessage_view: "net_SendMessage a msgId data n = Some (err, n') \<Longrightarrow> net_safe n \<Longrightarrow> view n' = view n"
  by (auto simp: net_SendMessage_def net_SendData_view split: sum.splits)

lemma Session_Close_view:
  assumes "Session_Close a n = Some (err, n')" and "net_safe n"
  shows "view n' = view n"
proof -
  obtain s where s: "nt_sessions n a = Some s" using assms(1) by (auto simp: Session_Close_def)
  show ?thesis
  proof (cases "ns_conn s")
    case (Some b)
    with assms(1) s obtain err' m where m: "net_Disconnect b n = Some (err', m)"
        "n' = m\<lparr>nt_sessions := (nt_sessions m)(a \<mapsto> s\<lparr>ns_conn := None\<rparr>)\<rparr>"
      by (auto simp: Session_Close_def)
    from net_Disconnect_safe [OF m(1) assms(2)] s have "nt_sessions m a = Some s" by simp
    from view_session [OF this, of "s\<lparr>ns_conn := None\<rparr>"] m net_Disconnect_view [OF m(1) assms(2)] show ?thesis by simp
  qed (use assms(1) s in \<open>simp add: Session_Close_def\<close>)
qed

lemma SetBindObject_view: "SetBindObject a b n = Some n' \<Longrightarrow> view n' = view n"
  by (auto simp: SetBindObject_def intro!: view_session)

text \<open>The operations of the cluster net.\<close>

lemma doSend_view:
  "doSend S sid msgId data cn = Some (err, cn') \<Longrightarrow> net_safe (cn_net cn) \<Longrightarrow> view (cn_net cn') = view (cn_net cn)"
  by (auto simp: doSend_def Let_def net_SendMessage_view split: if_splits option.splits)

lemma Send_view:
  "Send S sid e cn = Some (err, cn') \<Longrightarrow> net_safe (cn_net cn) \<Longrightarrow> view (cn_net cn') = view (cn_net cn)"
  by (auto dest!: Send_sends simp: doSend_view)

lemma svr_OnDisconnect_view:
  "svr_OnDisconnect a cn = Some cn' \<Longrightarrow> view (cn_net cn') = view (cn_net cn)"
  by (auto simp: svr_OnDisconnect_def Let_def SetBindObject_view split: option.splits if_splits)

lemma svr_register_view:
  assumes "svr_register S a sid cn = Some (err, cn')" and "net_safe (cn_net cn)"
  shows "view (cn_net cn') = view (cn_net cn)"
proof (cases "\<exists>info. cn_systemInfos cn sid = Some info \<and> \<not> si_passive info \<and> si_session info = None")
  case True
  with assms(1) obtain n where n: "SetBindObject a (Some sid) (cn_net cn) = Some n"
    by (auto simp: svr_register_def)
  from SetBindObject_safe [OF n assms(2)] SetBindObject_view [OF n] have "net_safe n" "view n = view (cn_net cn)" by auto
  with assms(1) True n show ?thesis
    by (auto simp: svr_register_def Let_def split: option.splits dest: net_SendMessage_view)
next
  case False
  with assms(1) show ?thesis by (auto simp: svr_register_def split: option.splits if_splits)
qed

lemma svr_handle_view:
  assumes "svr_handle S a msgId data cn = Some (err, cn')" and "net_safe (cn_net cn)"
  shows "view (cn_net cn') = view (cn_net cn)"
proof -
  from assms(1) obtain err1 cn1 where m: "svr_OnMessage S a msgId data cn = Some (err1, cn1)"
    and c: "cn' = cn1 \<or> (\<exists>err n. Session_Close a (cn_net cn1) = Some (err, n) \<and> cn' = cn1\<lparr>cn_net := n\<rparr>)"
    by (auto simp: svr_handle_def split: if_splits)
  have "view (cn_net cn1) = view (cn_net cn)"
    using m assms(2) svr_register_view [of S a _ cn err1 cn1] cn_OnMessage_keeps [of S msgId data cn err1 cn1]
    by (auto simp: svr_OnMessage_def split: if_splits option.splits pkg.splits)
  moreover have "net_safe (cn_net cn1)" using svr_OnMessage_keeps [OF m] assms(2) by (simp add: cn_keeps_def)
  ultimately show ?thesis using c by (auto simp: Session_Close_view)
qed
section \<open>The invariant\<close>

text \<open>While fewer than $2^{32}$ sessions were made: the ids are 1, 2, \<dots> in the order of the accepts,
  and the manager lists the sessions whose callback has not run.\<close>

definition mgr_ok :: "(nat \<rightharpoonup> u32) \<Rightarrow> sessionMgr \<Rightarrow> (nat \<rightharpoonup> nat) \<Rightarrow> bool" where
  "mgr_ok ids m cb \<longleftrightarrow> unat (sm_genUId m) = card (dom ids) \<and>
     (\<forall>a i. ids a = Some i \<longrightarrow> unat i \<le> card (dom ids)) \<and>
     (\<forall>a b i. ids a = Some i \<longrightarrow> ids b = Some i \<longrightarrow> a = b) \<and>
     (\<forall>i a. GetSession i m = Some a \<longleftrightarrow> ids a = Some i \<and> cb a = Some 0)"

definition sess_inv :: "sess_view \<Rightarrow> bool" where
  "sess_inv v \<longleftrightarrow> finite (dom (sv_ids v)) \<and> dom (sv_ids v) \<inter> sv_clients v = {} \<and>
     sv_clients v \<subseteq> dom (sv_callbacks v) \<and> dom (sv_ids v) \<subseteq> dom (sv_callbacks v) \<and>
     (card (dom (sv_ids v)) < 2 ^ 32 \<longrightarrow> mgr_ok (sv_ids v) (sv_mgr v) (sv_callbacks v))"

lemma mgr_okD:
  assumes "mgr_ok ids m cb"
  shows "unat (sm_genUId m) = card (dom ids)" and "ids a = Some i \<Longrightarrow> unat i \<le> card (dom ids)"
    and "ids a = Some i \<Longrightarrow> ids b = Some i \<Longrightarrow> a = b"
    and "GetSession i m = Some a \<longleftrightarrow> ids a = Some i \<and> cb a = Some 0"
  using assms by (auto simp: mgr_ok_def)

lemma mgr_ok_new:
  assumes "mgr_ok ids m cb" and "finite (dom ids)" and "a \<notin> dom ids" and "card (dom ids) + 1 < 2 ^ 32" and "NewSession a m = (i, m')"
  shows "mgr_ok (ids(a \<mapsto> i)) m' (cb(a \<mapsto> 0))"
proof -
  have card: "card (dom (ids(a \<mapsto> i))) = card (dom ids) + 1" using assms(2,3) by simp
  have i: "i = sm_genUId m + 1" "m' = m\<lparr>sm_genUId := i, sm_sessions := (sm_sessions m)(i \<mapsto> a)\<rparr>"
    using assms(5) by (auto simp: NewSession_def Let_def)
  have n: "unat i = card (dom ids) + 1"
    using mgr_okD(1) [OF assms(1)] assms(4) unfolding i(1) by (simp add: unat_word_ariths)
  have old: "j \<noteq> i" if "ids b = Some j" for b j using mgr_okD(2) [OF assms(1) that] n by auto
  show ?thesis
    unfolding mgr_ok_def card
  proof (intro conjI allI impI)
    show "unat (sm_genUId m') = card (dom ids) + 1" using n by (simp add: i(2))
    show "unat j \<le> card (dom ids) + 1" if "(ids(a \<mapsto> i)) b = Some j" for b j
      using that n mgr_okD(2) [OF assms(1), of b j] by (auto split: if_splits)
    show "b = c" if "(ids(a \<mapsto> i)) b = Some j" "(ids(a \<mapsto> i)) c = Some j" for b c j
      using that old mgr_okD(3) [OF assms(1), of b j c] by (auto split: if_splits)
    show "GetSession j m' = Some b \<longleftrightarrow> (ids(a \<mapsto> i)) b = Some j \<and> (cb(a \<mapsto> 0)) b = Some 0" for j b
    proof -
      have get: "GetSession j m' = (if j = i then Some a else GetSession j m)" by (simp add: i(2) GetSession_def)
      have "ids a = None" using assms(3) by (simp add: domIff)
      then show ?thesis
        using old [of b i] mgr_okD(4) [OF assms(1), of j b] unfolding get by (cases "j = i"; cases "b = a") auto
    qed
  qed
qed

lemma mgr_ok_callback:
  assumes "mgr_ok ids m cb" and "ids a = Some i"
  shows "mgr_ok ids (RemoveSession i m) (cb(a \<mapsto> Suc k))"
  unfolding mgr_ok_def
proof (intro conjI allI impI)
  show "GetSession j (RemoveSession i m) = Some b \<longleftrightarrow> ids b = Some j \<and> (cb(a \<mapsto> Suc k)) b = Some 0" for j b
  proof -
    have get: "GetSession j (RemoveSession i m) = (if j = i then None else GetSession j m)"
      by (simp add: GetSession_def RemoveSession_def)
    show ?thesis
    proof (cases "b = a")
      case True
      with assms(2) mgr_okD(4) [OF assms(1), of j b] show ?thesis unfolding get by simp
    next
      case False
      then have "ids b \<noteq> Some i" using mgr_okD(3) [OF assms(1,2), of b] by blast
      with False mgr_okD(4) [OF assms(1), of j b] show ?thesis unfolding get by auto
    qed
  qed
  show "unat (sm_genUId (RemoveSession i m)) = card (dom ids)" using mgr_okD(1) [OF assms(1)] by (simp add: RemoveSession_def)
  show "unat j \<le> card (dom ids)" if "ids b = Some j" for b j using that by (rule mgr_okD(2) [OF assms(1)])
  show "b = c" if "ids b = Some j" "ids c = Some j" for b c j using that by (rule mgr_okD(3) [OF assms(1)])
qed

text \<open>Connections that belong to no session do not matter.\<close>

lemma mgr_ok_other: "mgr_ok ids m cb \<Longrightarrow> a \<notin> dom ids \<Longrightarrow> mgr_ok ids m (cb(a \<mapsto> k))"
  by (auto simp: mgr_ok_def domIff)

section \<open>Every step keeps it\<close>

text \<open>And no session loses its id.\<close>

definition sess_next :: "sess_view \<Rightarrow> sess_view \<Rightarrow> bool" where
  "sess_next v v' \<longleftrightarrow> sess_inv v' \<and> sv_ids v \<subseteq>\<^sub>m sv_ids v'"

lemma sess_next_same: "sess_inv v \<Longrightarrow> sess_next v v"
  by (simp add: sess_next_def)

lemma accept_sess_inv:
  assumes "sess_inv (view n)" and "nt_conns n a = None" and "accept_conn a n = Some n'"
  shows "sess_next (view n) (view n')"
proof -
  obtain i m where im: "NewSession a (nt_mgr n) = (i, m)" by fastforce
  with assms(3) obtain c where c: "newConn = Some c" "n' = n\<lparr>nt_conns := (nt_conns n)(a \<mapsto> c), nt_sessions := (nt_sessions n)(a \<mapsto> \<lparr>ns_id = i, ns_bindObject = None, ns_conn = Some a\<rparr>),
        nt_splitters := (nt_splitters n)(a := ps_empty), nt_mgr := m\<rparr>"
    by (auto simp: accept_conn_def)
  have "cs_callbacks c = 0" using c(1) by (auto simp: newConn_def)
  then have v: "view n' = (view n)\<lparr>sv_ids := (sv_ids (view n))(a \<mapsto> i), sv_mgr := m, sv_callbacks := (sv_callbacks (view n))(a \<mapsto> 0)\<rparr>"
    by (auto simp: view_def c(2))
  have mgr: "sv_mgr (view n) = nt_mgr n" by (simp add: view_def)
  have "a \<notin> dom (sv_callbacks (view n))" using assms(2) by (simp add: view_def domIff)
  then have "a \<notin> dom (sv_ids (view n))" "a \<notin> sv_clients (view n)" using assms(1) by (auto simp: sess_inv_def)
  with assms(1) im mgr_ok_new [of "sv_ids (view n)" "sv_mgr (view n)" "sv_callbacks (view n)" a i m] show ?thesis
    unfolding v by (auto simp: sess_next_def sess_inv_def mgr map_le_def)
qed

lemma dial_sess_inv:
  assumes "sess_inv (view n)" and "nt_conns n a = None" and "dial_conn a sid n = Some n'"
  shows "sess_next (view n) (view n')"
proof -
  from assms(3) obtain c where c: "newConn = Some c" "n' = n\<lparr>nt_conns := (nt_conns n)(a \<mapsto> c),
      nt_clients := (nt_clients n)(a \<mapsto> sid), nt_splitters := (nt_splitters n)(a := ps_empty)\<rparr>"
    by (auto simp: dial_conn_def)
  have "cs_callbacks c = 0" using c(1) by (auto simp: newConn_def)
  then have v: "view n' = (view n)\<lparr>sv_callbacks := (sv_callbacks (view n))(a \<mapsto> 0), sv_clients := insert a (sv_clients (view n))\<rparr>"
    by (auto simp: view_def c(2))
  have "a \<notin> dom (sv_callbacks (view n))" using assms(2) by (simp add: view_def domIff)
  then have "a \<notin> dom (sv_ids (view n))" using assms(1) by (auto simp: sess_inv_def)
  with assms(1) mgr_ok_other show ?thesis unfolding v by (auto simp: sess_next_def sess_inv_def)
qed
text \<open>A callback runs: a client's, or a session's, which is then removed.\<close>

lemma callback_client_sess_inv:
  assumes "sess_inv (view n)" and "a \<in> dom (nt_clients n)"
    and "view n' = (view n)\<lparr>sv_callbacks := (sv_callbacks (view n))(a \<mapsto> k)\<rparr>"
  shows "sess_inv (view n')"
proof -
  have "sv_clients (view n) = dom (nt_clients n)" by (simp add: view_def)
  with assms(1,2) have "a \<notin> dom (sv_ids (view n))" by (auto simp: sess_inv_def)
  with assms(1) mgr_ok_other show ?thesis unfolding assms(3) by (auto simp: sess_inv_def)
qed

lemma callback_session_sess_inv:
  assumes "sess_inv v" and "sv_ids v a = Some i"
  shows "sess_inv (v\<lparr>sv_callbacks := (sv_callbacks v)(a \<mapsto> Suc k), sv_mgr := RemoveSession i (sv_mgr v)\<rparr>)"
  using assms mgr_ok_callback by (auto simp: sess_inv_def)

lemma svr_disconnected_view:
  assumes "svr_disconnected a cn = Some cn'" and "nt_sessions (cn_net cn) a = Some s"
  shows "view (cn_net cn') = (view (cn_net cn))\<lparr>sv_mgr := RemoveSession (ns_id s) (nt_mgr (cn_net cn))\<rparr>"
proof -
  from assms(1) obtain cn1 s' where d: "svr_OnDisconnect a cn = Some cn1" "nt_sessions (cn_net cn1) a = Some s'"
      "cn' = cn1\<lparr>cn_net := (cn_net cn1)\<lparr>nt_mgr := RemoveSession (ns_id s') (nt_mgr (cn_net cn1))\<rparr>\<rparr>"
    by (auto simp: svr_disconnected_def)
  have v: "view (cn_net cn1) = view (cn_net cn)" by (rule svr_OnDisconnect_view [OF d(1)])
  then have "sv_ids (view (cn_net cn1)) a = sv_ids (view (cn_net cn)) a" "sv_mgr (view (cn_net cn1)) = sv_mgr (view (cn_net cn))" by simp_all
  then have "ns_id s' = ns_id s" "nt_mgr (cn_net cn1) = nt_mgr (cn_net cn)" using d(2) assms(2) by (simp_all add: view_def)
  moreover have "view ((cn_net cn1)\<lparr>nt_mgr := m\<rparr>) = (view (cn_net cn1))\<lparr>sv_mgr := m\<rparr>" for m by (simp add: view_def)
  ultimately show ?thesis using d(3) v by simp
qed

lemma client_step_sess_inv:
  assumes "client_step S sid cl nd nd'" and "sess_inv (view (cn_net (nd_cn nd)))" and "net_safe (cn_net (nd_cn nd))"
  shows "sess_next (view (cn_net (nd_cn nd))) (view (cn_net (nd_cn nd')))"
  using assms(1)
proof cases
  case (dialled a n)
  then show ?thesis using dial_sess_inv [OF assms(2)] by auto
next
  case (request_sent a n)
  then show ?thesis using net_SendMessage_view [OF request_sent(4) assms(3)] assms(2) by (simp add: sess_next_same)
next
  case (request_failed a err n derr n')
  have "view n = view (cn_net (nd_cn nd))" "net_safe n"
    using net_SendMessage_view [OF request_failed(4) assms(3)] net_SendMessage_safe [OF request_failed(4) assms(3)] by auto
  then show ?thesis using request_failed(1) net_Disconnect_view [OF request_failed(5)] assms(2) by (simp add: sess_next_same)
next
  case (select_refused a derr n)
  then show ?thesis using net_Disconnect_view [OF select_refused(5) assms(3)] assms(2) by (simp add: sess_next_same)
qed (use assms(2) in \<open>simp_all add: sess_next_same\<close>)

lemma conn_step_view:
  "nd_conns nd a = Some c \<Longrightarrow> cs_callbacks c' = cs_callbacks c \<Longrightarrow> view (cn_net (nd_cn (set_conn a c' nd))) = view (cn_net (nd_cn nd))"
  by (simp add: set_conn_def view_conn)

lemma receiver_step_callbacks:
  assumes "receiver_step c c'" and "cs_receiver c \<noteq> RCallback"
  shows "cs_callbacks c' = cs_callbacks c"
  using assms by (auto elim!: receiver_stepE simp: Conn_Disconnect_def)

lemma node_step_sess_inv:
  assumes "node_step S nd nd'" and inv: "sess_inv (view (cn_net (nd_cn nd)))" and safe: "net_safe (cn_net (nd_cn nd))"
  shows "sess_next (view (cn_net (nd_cn nd))) (view (cn_net (nd_cn nd')))"
  using assms(1)
proof cases
  case (accept a n)
  then show ?thesis using accept_sess_inv [OF inv] by simp
next
  case (sender a c c')
  moreover from this have "cs_callbacks c' = cs_callbacks c" by (auto elim: sender_stepE)
  ultimately show ?thesis using inv by (simp add: conn_step_view sess_next_same)
next
  case (chunk a c ch)
  then show ?thesis using inv conn_step_view [OF chunk(2), of "c\<lparr>cs_read := cs_read c @ [ch]\<rparr>"]
    by (simp add: set_splitter_def view_splitters sess_next_same)
next
  case (frame_session a s msgId payload p err cn)
  have "net_safe (cn_net (nd_cn (set_splitter a p nd)))" using safe by (simp add: set_splitter_def net_safe_def)
  from svr_handle_view [OF frame_session(5) this] show ?thesis using frame_session(1) inv
    by (simp add: set_splitter_def view_splitters sess_next_same)
next
  case (frame_client a sid msgId payload p)
  have "view (cn_net (nd_cn nd')) = view (cn_net (nd_cn (set_splitter a p nd)))"
    using frame_client(4) cn_OnMessage_keeps [of S msgId payload "nd_cn (set_splitter a p nd)"]
    by (auto simp: cli_handle_def Let_def split: if_splits)
  then show ?thesis using inv by (simp add: set_splitter_def view_splitters sess_next_same)
next
  case (frames_done a msgId payload p)
  then show ?thesis using inv by (simp add: set_splitter_def view_splitters sess_next_same)
next
  case (receiver a c c')
  then show ?thesis using inv receiver_step_callbacks by (simp add: conn_step_view sess_next_same)
next
  case (lost_session a c s cn)
  let ?c = "c\<lparr>cs_callbacks := cs_callbacks c + 1, cs_receiver := RReturned\<rparr>"
  have s: "nt_sessions (cn_net (nd_cn (set_conn a ?c nd))) a = Some s" using lost_session(4) by (simp add: set_conn_def)
  have "view (cn_net (nd_cn (set_conn a ?c nd))) =
      (view (cn_net (nd_cn nd)))\<lparr>sv_callbacks := (sv_callbacks (view (cn_net (nd_cn nd))))(a \<mapsto> Suc (cs_callbacks c))\<rparr>"
    by (auto simp: set_conn_def view_def)
  then have "view (cn_net cn) = (view (cn_net (nd_cn nd)))\<lparr>sv_callbacks := (sv_callbacks (view (cn_net (nd_cn nd))))(a \<mapsto> Suc (cs_callbacks c)),
      sv_mgr := RemoveSession (ns_id s) (sv_mgr (view (cn_net (nd_cn nd))))\<rparr>"
    using svr_disconnected_view [OF lost_session(5) s] by (simp add: view_def set_conn_def)
  moreover have "sv_ids (view (cn_net (nd_cn nd))) a = Some (ns_id s)" using lost_session(4) by (simp add: view_def)
  ultimately show ?thesis using callback_session_sess_inv [OF inv] lost_session(1) by (simp add: sess_next_def)
next
  case (lost_client a c sid cl)
  let ?c = "c\<lparr>cs_callbacks := cs_callbacks c + 1, cs_receiver := RReturned\<rparr>"
  have "view (cn_net (nd_cn nd')) =
      (view (cn_net (nd_cn nd)))\<lparr>sv_callbacks := (sv_callbacks (view (cn_net (nd_cn nd))))(a \<mapsto> cs_callbacks c + 1)\<rparr>"
    using lost_client(1) by (auto simp: set_conn_def view_def)
  moreover from this lost_client(4) have "sess_inv (view (cn_net (nd_cn nd')))" by (intro callback_client_sess_inv [OF inv]) auto
  ultimately show ?thesis by (simp add: sess_next_def)
next
  case (client sid cl)
  then show ?thesis using client_step_sess_inv inv safe by blast
next
  case (send sid e err cn)
  then show ?thesis using Send_view [OF send(2) safe] inv by (simp add: sess_next_same)
qed

lemma node_reachable_sess_inv:
  assumes "node_reachable S nd" and "node_of (sy_config S) k"
  shows "sess_inv (view (cn_net (nd_cn nd)))"
  using assms(1)
proof (induction rule: node_reachable.induct)
  case (started nd)
  have "cn_net (nd_cn nd) = new_net" unfolding started_node_fields [OF started] by (simp add: NewClusterNet_def case_prod_beta)
  then show ?case by (simp add: sess_inv_def view_def new_net_def mgr_ok_def NewSessionMgr_def GetSession_def)
next
  case (step nd nd')
  from node_reachable_inv [OF step(1) assms(2)] have "net_safe (cn_net (nd_cn nd))" by (simp add: node_inv_def)
  with step show ?case using node_step_sess_inv by (auto simp: sess_next_def)
qed
section \<open>Main theorem\<close>

lemma node_steps_ids:
  assumes "(node_step S)\<^sup>*\<^sup>* nd nd'" and "node_reachable S nd" and "node_of (sy_config S) k"
    and "nt_sessions (cn_net (nd_cn nd)) a = Some s"
  shows "\<exists>s'. nt_sessions (cn_net (nd_cn nd')) a = Some s' \<and> ns_id s' = ns_id s"
  using assms(1)
proof (induction rule: rtranclp_induct)
  case (step nd1 nd2)
  from node_reachable_steps [OF step(1) assms(2)] have r: "node_reachable S nd1" .
  from node_reachable_inv [OF r assms(3)] have "net_safe (cn_net (nd_cn nd1))" by (simp add: node_inv_def)
  from node_step_sess_inv [OF step(2) node_reachable_sess_inv [OF r assms(3)] this]
  have "sv_ids (view (cn_net (nd_cn nd1))) \<subseteq>\<^sub>m sv_ids (view (cn_net (nd_cn nd2)))" by (simp add: sess_next_def)
  moreover from step(3) have "sv_ids (view (cn_net (nd_cn nd1))) a = Some (ns_id s)" by (auto simp: view_def)
  ultimately have "sv_ids (view (cn_net (nd_cn nd2))) a = Some (ns_id s)" by (metis map_le_def domI)
  then show ?case by (auto simp: view_def)
qed (use assms(4) in simp)

lemma silent_kept:
  assumes "(node_step S)\<^sup>*\<^sup>* nd nd'" and "node_inv nd" and "nd_conns nd a = Some c" and "silent c"
  shows "\<exists>c'. nd_conns nd' a = Some c' \<and> silent c' \<and> cs_callbacks c' = cs_callbacks c"
proof -
  from assms(1) have "node_inv nd' \<and> (\<exists>c'. nd_conns nd' a = Some c' \<and> silent c' \<and> cs_callbacks c' = cs_callbacks c)"
  proof (induction rule: rtranclp_induct)
    case (step nd1 nd2)
    then obtain c1 where c1: "nd_conns nd1 a = Some c1" "silent c1" "cs_callbacks c1 = cs_callbacks c" and inv: "node_inv nd1" by blast
    from node_step_keeps [OF step(2) inv] inv c1(1) obtain c2 where c2: "node_inv nd2" "nd_conns nd2 a = Some c2" "conn_step\<^sup>*\<^sup>* c1 c2"
      by (auto simp: node_keeps_def)
    have "conn_inv c1" using inv c1(1) by (auto simp: node_inv_def net_safe_def intro: conn_reachable_inv)
    with silent_stays [OF c2(3) this c1(2)] c1(3) c2(1,2) show ?case by simp
  qed (use assms(2-4) in blast)
  then show ?thesis by blast
qed

text \<open>
  C40. As long as a node has accepted fewer than $2^{32}$ connections, no two sessions have the same
  id, and the manager lists under an id exactly the session with this id whose disconnect callback
  has not run. So a session that this side closed before its receiver noticed anything is listed for
  ever: its callback never runs, and nothing else removes it.
\<close>

theorem sessions_listed_until_callback:
  assumes "node_of (sy_config S) k" and "node_reachable S nd" and "card (dom (nt_sessions (cn_net (nd_cn nd)))) < 2 ^ 32"
  shows "(\<forall>i a. GetSession i (nt_mgr (cn_net (nd_cn nd))) = Some a \<longleftrightarrow>
      (\<exists>s c. nt_sessions (cn_net (nd_cn nd)) a = Some s \<and> ns_id s = i \<and> nd_conns nd a = Some c \<and> cs_callbacks c = 0)) \<and>
    (\<forall>a b s t. nt_sessions (cn_net (nd_cn nd)) a = Some s \<longrightarrow> nt_sessions (cn_net (nd_cn nd)) b = Some t \<longrightarrow>
      ns_id s = ns_id t \<longrightarrow> a = b) \<and>
    (\<forall>a s c nd'. nt_sessions (cn_net (nd_cn nd)) a = Some s \<longrightarrow> nd_conns nd a = Some c \<longrightarrow> silent c \<longrightarrow> cs_callbacks c = 0 \<longrightarrow>
      (node_step S)\<^sup>*\<^sup>* nd nd' \<longrightarrow> card (dom (nt_sessions (cn_net (nd_cn nd')))) < 2 ^ 32 \<longrightarrow>
      GetSession (ns_id s) (nt_mgr (cn_net (nd_cn nd'))) = Some a)"
proof -
  have ok: "mgr_ok (sv_ids (view (cn_net (nd_cn x)))) (nt_mgr (cn_net (nd_cn x))) (sv_callbacks (view (cn_net (nd_cn x))))"
    if "node_reachable S x" "card (dom (nt_sessions (cn_net (nd_cn x)))) < 2 ^ 32" for x
  proof -
    have "dom (sv_ids (view (cn_net (nd_cn x)))) = dom (nt_sessions (cn_net (nd_cn x)))" by (auto simp: view_def)
    moreover have "sv_mgr (view (cn_net (nd_cn x))) = nt_mgr (cn_net (nd_cn x))" by (simp add: view_def)
    ultimately show ?thesis using node_reachable_sess_inv [OF that(1) assms(1)] that(2) by (simp add: sess_inv_def)
  qed
  have listed: "GetSession i (nt_mgr (cn_net (nd_cn x))) = Some a \<longleftrightarrow>
      (\<exists>s c. nt_sessions (cn_net (nd_cn x)) a = Some s \<and> ns_id s = i \<and> nd_conns x a = Some c \<and> cs_callbacks c = 0)"
    if "node_reachable S x" "card (dom (nt_sessions (cn_net (nd_cn x)))) < 2 ^ 32" for x i a
    using mgr_okD(4) [OF ok [OF that], of i a] by (auto simp: view_def)
  have unique: "a = b" if "nt_sessions (cn_net (nd_cn nd)) a = Some s" "nt_sessions (cn_net (nd_cn nd)) b = Some t" "ns_id s = ns_id t" for a b s t
    using mgr_okD(3) [OF ok [OF assms(2,3)], of a "ns_id s" b] that by (simp add: view_def)
  have leak: "GetSession (ns_id s) (nt_mgr (cn_net (nd_cn nd'))) = Some a"
    if l: "nt_sessions (cn_net (nd_cn nd)) a = Some s" "nd_conns nd a = Some c" "silent c" "cs_callbacks c = 0"
      "(node_step S)\<^sup>*\<^sup>* nd nd'" "card (dom (nt_sessions (cn_net (nd_cn nd')))) < 2 ^ 32" for a s c nd'
  proof -
    have "node_inv nd" using node_reachable_inv [OF assms(2,1)] by blast
    from silent_kept [OF l(5) this l(2,3)] l(4) obtain c' where "nd_conns nd' a = Some c'" "cs_callbacks c' = 0" by auto
    moreover obtain s' where "nt_sessions (cn_net (nd_cn nd')) a = Some s'" "ns_id s' = ns_id s"
      using node_steps_ids [OF l(5) assms(2,1) l(1)] by blast
    ultimately show ?thesis using listed [OF node_reachable_steps [OF l(5) assms(2)] l(6)] by blast
  qed
  show ?thesis using listed [OF assms(2,3)] unique leak by blast
qed

theorem sessions_listed_until_callback_witness:
  "\<exists>nd :: bytes node. node_reachable (reg_system 1 2) nd \<and> GetSession 1 (nt_mgr (cn_net (nd_cn nd))) = Some 0"
proof -
  obtain nd :: "bytes node" and c where nd: "node_reachable (reg_system 1 2) nd"
      "nt_sessions (cn_net (nd_cn nd)) 0 = Some \<lparr>ns_id = 1, ns_bindObject = None, ns_conn = Some 0\<rparr>" "nd_handling nd = {0}"
      "dom (nt_sessions (cn_net (nd_cn nd))) = {0}"
    using demo_arrived [of 2 "[]"] by blast
  have cfg: "node_of (sy_config (reg_system 1 2)) 0" using demo_node_of(1) by simp
  have inv: "node_inv nd" using node_reachable_inv [OF nd(1) cfg] by blast
  with nd(3) obtain c where c: "nd_conns nd 0 = Some c" "cs_receiver c = RRead" by (auto simp: node_inv_def)
  with inv have "conn_inv c" by (auto simp: node_inv_def net_safe_def intro: conn_reachable_inv)
  with c(2) have "cs_callbacks c = 0" by (simp add: conn_inv_def)
  moreover have "card (dom (nt_sessions (cn_net (nd_cn nd)))) < 2 ^ 32" by (simp add: nd(4))
  ultimately have "GetSession 1 (nt_mgr (cn_net (nd_cn nd))) = Some 0"
    using sessions_listed_until_callback [OF cfg nd(1)] nd(2) c(1) by auto
  with nd(1) show ?thesis by blast
qed

end
