(* ===== verification/Wiring.thy ===== *)
theory Wiring
  imports Registration Placement
begin

text \<open>
  How the callbacks of the network layers are installed and called: the setters and closures of
  \<open>acceptor.go\<close>, \<open>connector.go\<close>, \<open>server.go\<close>, \<open>client.go\<close>, \<open>cluster_server.go\<close> and \<open>cluster_client.go\<close>
  as functions on the state of the node. A function field is \<open>None\<close> while it is \<open>nil\<close>, and calling it
  then is a panic. \<open>node_step\<close> runs the handlers directly; \<open>Wiring_Steps\<close> shows that this is what the
  installed callbacks do.
\<close>

section \<open>Callbacks of a connection\<close>

text \<open>The two function fields of \<open>ConnSocket\<close>, \<open>nil\<close> in a new connection.\<close>

record 'p conn_funcs =
  onDisconnectFunc :: "('p node \<Rightarrow> 'p node option) option"
  onDataFunc :: "(bytes \<Rightarrow> 'p node \<Rightarrow> (go_error \<times> 'p node) option) option"

definition no_funcs :: "'p conn_funcs" where
  "no_funcs = \<lparr>onDisconnectFunc = None, onDataFunc = None\<rparr>"

definition Conn_SetOnDisconnect :: "('p node \<Rightarrow> 'p node option) \<Rightarrow> 'p conn_funcs \<Rightarrow> 'p conn_funcs" where
  "Conn_SetOnDisconnect f cf = cf\<lparr>onDisconnectFunc := Some f\<rparr>"

definition Conn_SetOnData :: "(bytes \<Rightarrow> 'p node \<Rightarrow> (go_error \<times> 'p node) option) \<Rightarrow> 'p conn_funcs \<Rightarrow> 'p conn_funcs" where
  "Conn_SetOnData f cf = cf\<lparr>onDataFunc := Some f\<rparr>"

abbreviation nd_splitter :: "'p node \<Rightarrow> nat \<Rightarrow> PacketSplitter" where
  "nd_splitter nd a \<equiv> nt_splitters (cn_net (nd_cn nd)) a"

text \<open>
  The loop of the on-data closures of \<open>netServer.Start\<close> and \<open>netClient.Connect\<close>, on the splitter kept
  for the connection: the error of \<open>onMessage\<close> is ignored and the closure returns \<open>nil\<close>.
\<close>

partial_function (option) frames_loop ::
  "nat \<Rightarrow> (u32 \<Rightarrow> bytes \<Rightarrow> 'p node \<Rightarrow> (go_error \<times> 'p node) option) \<Rightarrow> 'p node \<Rightarrow> 'p node option" where
  "frames_loop a onMessage nd =
     Option.bind (Next (nd_splitter nd a)) (\<lambda>((msgId, payload, ok), p).
       if \<not> ok then Some (set_splitter a p nd)
       else Option.bind (onMessage msgId payload (set_splitter a p nd)) (\<lambda>(err, nd). frames_loop a onMessage nd))"

definition on_data ::
  "nat \<Rightarrow> (u32 \<Rightarrow> bytes \<Rightarrow> 'p node \<Rightarrow> (go_error \<times> 'p node) option) \<Rightarrow> bytes \<Rightarrow> 'p node \<Rightarrow> (go_error \<times> 'p node) option" where
  "on_data a onMessage data nd =
     map_option (Pair None) (frames_loop a onMessage (set_splitter a (Append data (nd_splitter nd a)) nd))"

section \<open>The acceptor\<close>

text \<open>\<open>as_listener\<close> is \<open>None\<close> while the listener is \<open>nil\<close>, then says whether it is open.\<close>

record 'p AcceptorSocket =
  as_onAcceptFunc :: "(nat \<Rightarrow> 'p conn_funcs \<Rightarrow> 'p node \<Rightarrow> ('p conn_funcs \<times> 'p node) option) option"
  as_host :: string
  as_port :: u16
  as_listener :: "bool option"

definition NewAcceptor :: "'p AcceptorSocket" where
  "NewAcceptor = \<lparr>as_onAcceptFunc = None, as_host = '''', as_port = 0, as_listener = None\<rparr>"

definition SetOnAccept ::
  "(nat \<Rightarrow> 'p conn_funcs \<Rightarrow> 'p node \<Rightarrow> ('p conn_funcs \<times> 'p node) option) \<Rightarrow> 'p AcceptorSocket \<Rightarrow> 'p AcceptorSocket" where
  "SetOnAccept f this = this\<lparr>as_onAcceptFunc := Some f\<rparr>"

definition Acceptor_SetAddress :: "string \<Rightarrow> u16 \<Rightarrow> 'p AcceptorSocket \<Rightarrow> 'p AcceptorSocket" where
  "Acceptor_SetAddress host port this = this\<lparr>as_host := host, as_port := port\<rparr>"

text \<open>
  What \<open>Accept\<close> returns: a connection, for which the model has the fresh address \<open>a\<close>, or an error.
  The loop ends with the first error; it is still waiting (\<open>None\<close>) when the list is used up. Each round
  makes the connection, calls \<open>onAcceptFunc\<close> and starts the goroutines; \<open>fs\<close> collects the callbacks.
\<close>

datatype accepted = Accepted nat | AcceptError string

fun accept_loop ::
  "'p AcceptorSocket \<Rightarrow> accepted list \<Rightarrow> (nat \<rightharpoonup> 'p conn_funcs) \<Rightarrow> 'p node \<Rightarrow>
     ((go_error option \<times> (nat \<rightharpoonup> 'p conn_funcs)) \<times> 'p node) option" where
  "accept_loop this [] fs nd = Some ((None, fs), nd)"
| "accept_loop this (AcceptError err # rs) fs nd = Some ((Some (Some err), fs), nd)"
| "accept_loop this (Accepted a # rs) fs nd = do {
     c \<leftarrow> newConn;
     f \<leftarrow> as_onAcceptFunc this;
     (cf, nd) \<leftarrow> f a no_funcs (set_conn a c nd);
     accept_loop this rs (fs(a \<mapsto> cf)) nd }"

text \<open>
  \<open>Start\<close>: \<open>listen\<close> is the error of \<open>net.Listen\<close> on a network and an address; an error leaves the
  listener \<open>nil\<close>.
\<close>

definition Acceptor_Start ::
  "(string \<Rightarrow> string \<Rightarrow> go_error) \<Rightarrow> accepted list \<Rightarrow> 'p AcceptorSocket \<Rightarrow> 'p node \<Rightarrow>
     ((go_error option \<times> (nat \<rightharpoonup> 'p conn_funcs)) \<times> 'p AcceptorSocket \<times> 'p node) option" where
  "Acceptor_Start listen rs this nd =
     (let err = listen ''tcp'' (as_host this @ '':'' @ show_int (uint (as_port this))) in
      if err \<noteq> None then Some ((Some err, Map.empty), this\<lparr>as_listener := None\<rparr>, nd)
      else do {
        let this = this\<lparr>as_listener := Some True\<rparr>;
        (r, nd) \<leftarrow> accept_loop this rs Map.empty nd;
        Some (r, this, nd) })"

definition Acceptor_Stop :: "'p AcceptorSocket \<Rightarrow> go_error \<times> 'p AcceptorSocket" where
  "Acceptor_Stop this =
     (if as_listener this \<noteq> None then (None, this\<lparr>as_listener := Some False\<rparr>) else (None, this))"

section \<open>The network server\<close>

record 'p netServer =
  sv_acceptor :: "'p AcceptorSocket option"
  sv_onConnect :: "(nat \<Rightarrow> 'p node \<Rightarrow> 'p node option) option"
  sv_onDisconnect :: "(nat \<Rightarrow> 'p node \<Rightarrow> 'p node option) option"
  sv_onMessage :: "(nat \<Rightarrow> u32 \<Rightarrow> bytes \<Rightarrow> 'p node \<Rightarrow> (go_error \<times> 'p node) option) option"

text \<open>The session manager of the server is \<open>nt_mgr\<close>.\<close>

definition NewNetServer :: "'p netServer" where
  "NewNetServer = \<lparr>sv_acceptor = None, sv_onConnect = None, sv_onDisconnect = None, sv_onMessage = None\<rparr>"

definition SetAcceptor :: "'p AcceptorSocket \<Rightarrow> 'p netServer \<Rightarrow> 'p netServer" where
  "SetAcceptor acceptor ns = ns\<lparr>sv_acceptor := Some acceptor\<rparr>"

definition Server_SetOnConnect :: "(nat \<Rightarrow> 'p node \<Rightarrow> 'p node option) \<Rightarrow> 'p netServer \<Rightarrow> 'p netServer" where
  "Server_SetOnConnect onConnect ns = ns\<lparr>sv_onConnect := Some onConnect\<rparr>"

definition Server_SetOnDisconnect :: "(nat \<Rightarrow> 'p node \<Rightarrow> 'p node option) \<Rightarrow> 'p netServer \<Rightarrow> 'p netServer" where
  "Server_SetOnDisconnect onDisconnect ns = ns\<lparr>sv_onDisconnect := Some onDisconnect\<rparr>"

definition Server_SetOnMessage ::
  "(nat \<Rightarrow> u32 \<Rightarrow> bytes \<Rightarrow> 'p node \<Rightarrow> (go_error \<times> 'p node) option) \<Rightarrow> 'p netServer \<Rightarrow> 'p netServer" where
  "Server_SetOnMessage onMessage ns = ns\<lparr>sv_onMessage := Some onMessage\<rparr>"

text \<open>
  The accept handler. The session is stored at the address of its connection, which stands for the
  pointer \<open>s\<close>; its send function, which packs and sends on \<open>conn\<close>, is \<open>net_SendMessage\<close>. The function
  fields of the server are read when a callback runs; nothing sets them after \<open>Start\<close>.
\<close>

definition run_onDisconnect :: "'p netServer \<Rightarrow> nat \<Rightarrow> 'p node \<Rightarrow> 'p node option" where
  "run_onDisconnect ns a nd = do {
     f \<leftarrow> sv_onDisconnect ns;
     nd \<leftarrow> f a nd;
     let n = cn_net (nd_cn nd);
     sID \<leftarrow> GetID a n;
     Some (set_net (n\<lparr>nt_mgr := RemoveSession sID (nt_mgr n)\<rparr>) nd) }"

definition run_onMessage :: "'p netServer \<Rightarrow> nat \<Rightarrow> u32 \<Rightarrow> bytes \<Rightarrow> 'p node \<Rightarrow> (go_error \<times> 'p node) option" where
  "run_onMessage ns a msgId payload nd = do { f \<leftarrow> sv_onMessage ns; f a msgId payload nd }"

definition accept_handler :: "'p netServer \<Rightarrow> nat \<Rightarrow> 'p conn_funcs \<Rightarrow> 'p node \<Rightarrow> ('p conn_funcs \<times> 'p node) option" where
  "accept_handler ns a cf nd = do {
     let n = cn_net (nd_cn nd);
     let (i, m) = NewSession a (nt_mgr n);
     let s = \<lparr>ns_id = i, ns_bindObject = None, ns_conn = None\<rparr>;
     n \<leftarrow> SetConn a a (n\<lparr>nt_sessions := (nt_sessions n)(a \<mapsto> s), nt_mgr := m\<rparr>);
     let nd = set_net (n\<lparr>nt_splitters := (nt_splitters n)(a := ps_empty)\<rparr>) nd;
     let cf = Conn_SetOnDisconnect (run_onDisconnect ns a) cf;
     let cf = Conn_SetOnData (on_data a (run_onMessage ns a)) cf;
     f \<leftarrow> sv_onConnect ns;
     nd \<leftarrow> f a nd;
     Some (cf, nd) }"

definition Server_Start ::
  "(string \<Rightarrow> string \<Rightarrow> go_error) \<Rightarrow> accepted list \<Rightarrow> 'p netServer \<Rightarrow> 'p node \<Rightarrow>
     ((go_error option \<times> (nat \<rightharpoonup> 'p conn_funcs)) \<times> 'p netServer \<times> 'p node) option" where
  "Server_Start listen rs ns nd = do {
     acceptor \<leftarrow> sv_acceptor ns;
     (r, acceptor, nd) \<leftarrow> Acceptor_Start listen rs (SetOnAccept (accept_handler ns) acceptor) nd;
     Some (r, ns\<lparr>sv_acceptor := Some acceptor\<rparr>, nd) }"

definition Server_Stop :: "'p netServer \<Rightarrow> (go_error \<times> 'p netServer) option" where
  "Server_Stop ns = do {
     acceptor \<leftarrow> sv_acceptor ns;
     let (err, acceptor) = Acceptor_Stop acceptor;
     Some (err, ns\<lparr>sv_acceptor := Some acceptor\<rparr>) }"

section \<open>The connector and the network client\<close>

text \<open>
  \<open>co_conn\<close> is the address under which the embedded \<open>ConnSocket\<close> is found once it is connected; until
  then only the connector refers to it.
\<close>

record 'p ConnectorSocket =
  co_onConnectFunc :: "('p node \<Rightarrow> 'p node option) option"
  co_conn :: nat
  co_socket :: ConnSocket
  co_funcs :: "'p conn_funcs"
  co_host :: string
  co_port :: u16

definition NewConnector :: "nat \<Rightarrow> 'p ConnectorSocket option" where
  "NewConnector a = do {
     c \<leftarrow> newConn;
     Some \<lparr>co_onConnectFunc = None, co_conn = a, co_socket = c, co_funcs = no_funcs, co_host = '''', co_port = 0\<rparr> }"

definition Connector_SetOnConnect :: "('p node \<Rightarrow> 'p node option) \<Rightarrow> 'p ConnectorSocket \<Rightarrow> 'p ConnectorSocket" where
  "Connector_SetOnConnect f this = this\<lparr>co_onConnectFunc := Some f\<rparr>"

definition Connector_SetAddress :: "string \<Rightarrow> u16 \<Rightarrow> 'p ConnectorSocket \<Rightarrow> 'p ConnectorSocket" where
  "Connector_SetAddress host port this = this\<lparr>co_host := host, co_port := port\<rparr>"

text \<open>
  \<open>Connect\<close>: \<open>dial\<close> is the error of \<open>net.Dial\<close> on a network and an address. On success the socket is
  connected, its goroutines start and \<open>onConnectFunc\<close> is called.
\<close>

definition Connector_Connect :: "(string \<Rightarrow> string \<Rightarrow> go_error) \<Rightarrow> 'p ConnectorSocket \<Rightarrow> 'p node \<Rightarrow> (go_error \<times> 'p node) option" where
  "Connector_Connect dial this nd =
     (let err = dial ''tcp'' (co_host this @ '':'' @ show_int (uint (co_port this))) in
      if err \<noteq> None then Some (err, nd)
      else do {
        f \<leftarrow> co_onConnectFunc this;
        nd \<leftarrow> f (set_conn (co_conn this) (co_socket this) nd);
        Some (None, nd) })"

record 'p netClient =
  nc_connector :: "'p ConnectorSocket option"
  nc_onConnect :: "('p node \<Rightarrow> 'p node option) option"
  nc_onDisconnect :: "('p node \<Rightarrow> 'p node option) option"
  nc_onMessage :: "(u32 \<Rightarrow> bytes \<Rightarrow> 'p node \<Rightarrow> (go_error \<times> 'p node) option) option"

text \<open>The splitter of the client is the one kept for its connection.\<close>

definition NewNetClient :: "'p netClient" where
  "NewNetClient = \<lparr>nc_connector = None, nc_onConnect = None, nc_onDisconnect = None, nc_onMessage = None\<rparr>"

definition SetConnector :: "'p ConnectorSocket \<Rightarrow> 'p netClient \<Rightarrow> 'p netClient" where
  "SetConnector connector c = c\<lparr>nc_connector := Some connector\<rparr>"

definition Client_SetOnConnect :: "('p node \<Rightarrow> 'p node option) \<Rightarrow> 'p netClient \<Rightarrow> 'p netClient" where
  "Client_SetOnConnect f c = c\<lparr>nc_onConnect := Some f\<rparr>"

definition Client_SetOnDisconnect :: "('p node \<Rightarrow> 'p node option) \<Rightarrow> 'p netClient \<Rightarrow> 'p netClient" where
  "Client_SetOnDisconnect f c = c\<lparr>nc_onDisconnect := Some f\<rparr>"

definition Client_SetOnMessage ::
  "(u32 \<Rightarrow> bytes \<Rightarrow> 'p node \<Rightarrow> (go_error \<times> 'p node) option) \<Rightarrow> 'p netClient \<Rightarrow> 'p netClient" where
  "Client_SetOnMessage f c = c\<lparr>nc_onMessage := Some f\<rparr>"

text \<open>The closures of \<open>netClient.Connect\<close> check \<open>onConnect\<close> and \<open>onDisconnect\<close> for \<open>nil\<close>, but not \<open>onMessage\<close>.\<close>

definition call_unless_nil :: "('p node \<Rightarrow> 'p node option) option \<Rightarrow> 'p node \<Rightarrow> 'p node option" where
  "call_unless_nil g nd = (case g of None \<Rightarrow> Some nd | Some f \<Rightarrow> f nd)"

definition client_onMessage :: "'p netClient \<Rightarrow> u32 \<Rightarrow> bytes \<Rightarrow> 'p node \<Rightarrow> (go_error \<times> 'p node) option" where
  "client_onMessage c msgId payload nd = do { f \<leftarrow> nc_onMessage c; f msgId payload nd }"

definition Client_Connect ::
  "(string \<Rightarrow> string \<Rightarrow> go_error) \<Rightarrow> 'p netClient \<Rightarrow> 'p node \<Rightarrow> (go_error \<times> 'p netClient \<times> 'p node) option" where
  "Client_Connect dial c nd = do {
     connector \<leftarrow> nc_connector c;
     let connector = Connector_SetOnConnect (call_unless_nil (nc_onConnect c)) connector;
     let funcs = Conn_SetOnDisconnect (call_unless_nil (nc_onDisconnect c)) (co_funcs connector);
     let funcs = Conn_SetOnData (on_data (co_conn connector) (client_onMessage c)) funcs;
     let connector = connector\<lparr>co_funcs := funcs\<rparr>;
     (err, nd) \<leftarrow> Connector_Connect dial connector nd;
     Some (err, c\<lparr>nc_connector := Some connector\<rparr>, nd) }"

definition Client_Disconnect :: "'p netClient \<Rightarrow> net \<Rightarrow> (go_error \<times> net) option" where
  "Client_Disconnect c n = do { connector \<leftarrow> nc_connector c; net_Disconnect (co_conn connector) n }"

section \<open>The cluster server and client\<close>

definition svr_OnConnect :: "nat \<Rightarrow> 'p node \<Rightarrow> 'p node option" where
  "svr_OnConnect s nd = Some nd"

definition NewServer :: "'p system \<Rightarrow> 'p clusterNet \<Rightarrow> 'p netServer option" where
  "NewServer S cn = do {
     port \<leftarrow> NewServer_port S cn;
     let svr = NewNetServer;
     let acceptor = Acceptor_SetAddress '''' port NewAcceptor;
     let svr = SetAcceptor acceptor svr;
     let svr = Server_SetOnConnect svr_OnConnect svr;
     let svr = Server_SetOnDisconnect (\<lambda>s nd. do {
           cn \<leftarrow> svr_OnDisconnect s (nd_cn nd); Some (nd\<lparr>nd_cn := cn\<rparr>) }) svr;
     let svr = Server_SetOnMessage (\<lambda>s msgId data nd. do {
           (err, cn) \<leftarrow> svr_handle S s msgId data (nd_cn nd); Some (err, nd\<lparr>nd_cn := cn\<rparr>) }) svr;
     Some svr }"

text \<open>\<open>clusterServer.Start\<close> runs the network server in a goroutine and returns \<open>nil\<close>; an error is logged.\<close>

definition svr_Start ::
  "(string \<Rightarrow> string \<Rightarrow> go_error) \<Rightarrow> accepted list \<Rightarrow> 'p netServer \<Rightarrow> 'p node \<Rightarrow> (go_error \<times> (nat \<rightharpoonup> 'p conn_funcs) \<times> 'p node) option" where
  "svr_Start listen rs svr nd = do {
     ((res, fs), svr, nd) \<leftarrow> Server_Start listen rs svr nd;
     Some (None, fs, nd) }"

definition cli_OnConnect :: "'p node \<Rightarrow> 'p node option" where
  "cli_OnConnect nd = Some nd"

text \<open>
  Writing to the channel blocks while it is full: then there is no next state yet. The error of
  \<open>cn.OnMessage\<close>, which the receive loop ignores, is dropped.
\<close>

definition cli_OnDisconnect :: "int \<Rightarrow> 'p node \<Rightarrow> 'p node option" where
  "cli_OnDisconnect sid nd = do {
     cl \<leftarrow> nd_clients nd sid;
     if cl_disconnectChan cl = None then Some (set_client sid (cl\<lparr>cl_disconnectChan := Some True\<rparr>) nd) else None }"

definition cli_OnMessage :: "'p system \<Rightarrow> int \<Rightarrow> u32 \<Rightarrow> bytes \<Rightarrow> 'p node \<Rightarrow> (go_error \<times> 'p node) option" where
  "cli_OnMessage S sid msgId data nd = map_option (Pair None) (cli_handle S sid msgId data nd)"

text \<open>
  One attempt of the client's goroutine to connect to system \<open>sid\<close>, up to the result of \<open>Connect\<close>: the
  disconnect channel is drained, a new connector and client are made and wired. Whose events the
  connection's are, \<open>nt_clients\<close>, and the splitter of the new client are noted for the address \<open>a\<close>.
\<close>

definition client_attempt ::
  "'p system \<Rightarrow> int \<Rightarrow> nat \<Rightarrow> (string \<Rightarrow> string \<Rightarrow> go_error) \<Rightarrow> 'p node \<Rightarrow> (go_error \<times> 'p netClient \<times> 'p node) option" where
  "client_attempt S sid a dial nd = do {
     info \<leftarrow> cn_systemInfos (nd_cn nd) sid;
     cl \<leftarrow> nd_clients nd sid;
     conn \<leftarrow> NewConnector a;
     let conn = Connector_SetAddress (sc_Host (si_config info)) (sc_Port (si_config info)) conn;
     let cli = SetConnector conn NewNetClient;
     let cli = Client_SetOnConnect cli_OnConnect cli;
     let cli = Client_SetOnDisconnect (cli_OnDisconnect sid) cli;
     let cli = Client_SetOnMessage (cli_OnMessage S sid) cli;
     let nd = set_client sid (cl\<lparr>cl_disconnectChan := None, cl_cli := Some a\<rparr>) nd;
     (err, cli, nd) \<leftarrow> Client_Connect dial cli nd;
     if err \<noteq> None then Some (err, cli, nd)
     else do {
       let n = cn_net (nd_cn nd);
       Some (None, cli, set_net (n\<lparr>nt_clients := (nt_clients n)(a \<mapsto> sid), nt_splitters := (nt_splitters n)(a := ps_empty)\<rparr>) nd) } }"

end
