(* ===== verification/Link_Roles.thy ===== *)
theory Link_Roles
  imports Cluster_Start
begin

text \<open>
  Which side dials a link and which connections carry it. An invariant of every reachable node says
  what the pointers stored in the system infos refer to: the client of a passive system to a
  connection that was dialled for it, the session of another system to an accepted one.
\<close>

section \<open>Whose the connections are\<close>

text \<open>The dialled connections with their systems, the accepted ones, and all connections.\<close>

definition owners :: "net \<Rightarrow> (nat \<rightharpoonup> int) \<times> nat set \<times> nat set" where
  "owners n = (nt_clients n, dom (nt_sessions n), dom (nt_conns n))"

lemma net_SendMessage_owners: "net_SendMessage a msgId data n = Some (err, n') \<Longrightarrow> owners n' = owners n"
  by (auto simp: owners_def net_SendMessage_def net_SendData_def bind_eq_Some_conv split: sum.splits if_splits)

lemma net_Disconnect_owners: "net_Disconnect a n = Some (err, n') \<Longrightarrow> owners n' = owners n"
  by (auto simp: owners_def net_Disconnect_def bind_eq_Some_conv split: if_splits)

lemma Session_Close_owners:
  assumes "Session_Close a n = Some (err, n')"
  shows "owners n' = owners n"
proof -
  from assms obtain s where s: "nt_sessions n a = Some s" by (auto simp: Session_Close_def bind_eq_Some_conv)
  show ?thesis
  proof (cases "ns_conn s")
    case None
    with assms s show ?thesis by (simp add: Session_Close_def)
  next
    case (Some b)
    with assms s obtain m where "net_Disconnect b n = Some (err, m)" "n' = m\<lparr>nt_sessions := (nt_sessions m)(a \<mapsto> s\<lparr>ns_conn := None\<rparr>)\<rparr>"
      by (auto simp: Session_Close_def bind_eq_Some_conv)
    with net_Disconnect_owners [of b n err m] s show ?thesis by (auto simp: owners_def split: if_splits)
  qed
qed

lemma SetBindObject_owners: "SetBindObject a b n = Some n' \<Longrightarrow> owners n' = owners n \<and> a \<in> dom (nt_sessions n)"
  by (auto simp: owners_def SetBindObject_def bind_eq_Some_conv split: if_splits)

section \<open>What the infos and the clients refer to\<close>

definition infos_refer :: "(int \<rightharpoonup> systemInfo) \<Rightarrow> net \<Rightarrow> bool" where
  "infos_refer infos n \<longleftrightarrow> (\<forall>sid info. infos sid = Some info \<longrightarrow>
     (\<forall>a. si_session info = Some a \<longrightarrow> a \<in> dom (nt_sessions n)) \<and> (\<forall>b. si_cli info = Some b \<longrightarrow> nt_clients n b = Some sid))"

definition clients_refer :: "(int \<rightharpoonup> clusterClient) \<Rightarrow> net \<Rightarrow> bool" where
  "clients_refer clients n \<longleftrightarrow>
     (\<forall>sid cl b. clients sid = Some cl \<longrightarrow> cl_cli cl = Some b \<longrightarrow> nt_clients n b = Some sid)"

text \<open>A connection is dialled or accepted, not both.\<close>

definition apart :: "net \<Rightarrow> bool" where
  "apart n \<longleftrightarrow> dom (nt_clients n) \<inter> dom (nt_sessions n) = {} \<and> dom (nt_clients n) \<union> dom (nt_sessions n) \<subseteq> dom (nt_conns n)"

definition roles_inv :: "'p node \<Rightarrow> bool" where
  "roles_inv nd \<longleftrightarrow> infos_refer (cn_systemInfos (nd_cn nd)) (cn_net (nd_cn nd)) \<and>
     clients_refer (nd_clients nd) (cn_net (nd_cn nd)) \<and> apart (cn_net (nd_cn nd))"

lemma same_owners:
  assumes "owners n' = owners n"
  shows "infos_refer infos n' = infos_refer infos n" "clients_refer clients n' = clients_refer clients n" "apart n' = apart n"
  using assms by (simp_all add: owners_def infos_refer_def clients_refer_def apart_def)

text \<open>The connections that are there stay whose they are, new ones are added.\<close>

definition more_owners :: "net \<Rightarrow> net \<Rightarrow> bool" where
  "more_owners n n' \<longleftrightarrow> nt_clients n \<subseteq>\<^sub>m nt_clients n' \<and> dom (nt_sessions n) \<subseteq> dom (nt_sessions n')"

lemma infos_refer_more: "more_owners n n' \<Longrightarrow> infos_refer infos n \<Longrightarrow> infos_refer infos n'"
  unfolding more_owners_def infos_refer_def map_le_def by (metis domI subsetD)

lemma clients_refer_more: "more_owners n n' \<Longrightarrow> clients_refer clients n \<Longrightarrow> clients_refer clients n'"
  unfolding more_owners_def clients_refer_def map_le_def by (metis domI)

lemma infos_refer_upd:
  assumes "infos_refer infos n" and "infos sid = Some info"
    and "\<And>a. si_session info' = Some a \<Longrightarrow> a \<in> dom (nt_sessions n)" and "\<And>b. si_cli info' = Some b \<Longrightarrow> nt_clients n b = Some sid"
  shows "infos_refer (infos(sid \<mapsto> info')) n"
  using assms by (auto simp: infos_refer_def)

lemma infos_referD:
  assumes "infos_refer infos n" and "infos sid = Some info"
  shows "si_session info = Some a \<Longrightarrow> a \<in> dom (nt_sessions n)" and "si_cli info = Some b \<Longrightarrow> nt_clients n b = Some sid"
  using assms by (auto simp: infos_refer_def)

lemma clients_refer_upd:
  "clients_refer clients n \<Longrightarrow> (\<And>b. cl_cli cl = Some b \<Longrightarrow> nt_clients n b = Some sid) \<Longrightarrow> clients_refer (clients(sid \<mapsto> cl)) n"
  by (auto simp: clients_refer_def)

section \<open>Every step keeps it\<close>

text \<open>The operations of the cluster net add no connection.\<close>

definition cn_refers :: "'p clusterNet \<Rightarrow> 'p clusterNet \<Rightarrow> bool" where
  "cn_refers cn cn' \<longleftrightarrow> owners (cn_net cn') = owners (cn_net cn) \<and>
     (infos_refer (cn_systemInfos cn) (cn_net cn) \<longrightarrow> infos_refer (cn_systemInfos cn') (cn_net cn'))"

lemma cn_refers_trans: "cn_refers cn cn' \<Longrightarrow> cn_refers cn' cn'' \<Longrightarrow> cn_refers cn cn''"
  by (simp add: cn_refers_def)

lemma cn_refers_net: "owners n = owners (cn_net cn) \<Longrightarrow> cn_refers cn (cn\<lparr>cn_net := n\<rparr>)"
  using same_owners(1) [of n "cn_net cn"] by (simp add: cn_refers_def)

lemma cn_refers_upd:
  assumes "owners n = owners (cn_net cn)" and "cn_systemInfos cn sid = Some info"
    and "\<And>a. si_session (f info) = Some a \<Longrightarrow> a \<in> dom (nt_sessions (cn_net cn))" and "si_cli (f info) = si_cli info"
  shows "cn_refers cn (add_connected k (upd_info sid f (cn\<lparr>cn_net := n\<rparr>)))"
proof -
  have "infos_refer ((cn_systemInfos cn)(sid \<mapsto> f info)) (cn_net cn)" if "infos_refer (cn_systemInfos cn) (cn_net cn)"
    by (rule infos_refer_upd [OF that assms(2)]) (use assms(3,4) infos_referD(2) [OF that assms(2)] in simp_all)
  with assms(1,2) same_owners(1) [OF assms(1)] show ?thesis by (simp add: cn_refers_def)
qed

lemma cn_refers_routed [simp]: "cn_refers cn cn" "cn_refers cn (cn\<lparr>cn_routed := es\<rparr>)"
  by (simp_all add: cn_refers_def)

lemma Send_refers:
  assumes "Send S sid e cn = Some (err, cn')"
  shows "cn_refers cn cn'"
  using Send_sends [OF assms]
  by (auto simp: doSend_def bind_eq_Some_conv Let_def intro!: cn_refers_net dest: net_SendMessage_owners split: if_splits option.splits)

lemma svr_OnDisconnect_refers:
  assumes "svr_OnDisconnect a cn = Some cn'"
  shows "cn_refers cn cn'"
proof -
  from assms consider "cn' = cn" | n sid info where "cn_systemInfos cn sid = Some info" "SetBindObject a None (cn_net cn) = Some n"
      "cn' = add_connected (-1) (upd_info sid (\<lambda>info. info\<lparr>si_session := None\<rparr>) (cn\<lparr>cn_net := n\<rparr>))"
    by (auto simp: svr_OnDisconnect_def bind_eq_Some_conv Let_def split: option.splits if_splits)
  then show ?thesis
  proof cases
    case (2 n sid info)
    with SetBindObject_owners [OF 2(2)] show ?thesis by (auto intro: cn_refers_upd)
  qed simp
qed

lemma svr_disconnected_refers:
  assumes "svr_disconnected a cn = Some cn'"
  shows "cn_refers cn cn'"
proof -
  from assms obtain cn1 m where "svr_OnDisconnect a cn = Some cn1" "cn' = cn1\<lparr>cn_net := (cn_net cn1)\<lparr>nt_mgr := m\<rparr>\<rparr>"
    by (auto simp: svr_disconnected_def bind_eq_Some_conv)
  then show ?thesis using cn_refers_trans [OF svr_OnDisconnect_refers cn_refers_net, of a cn cn1 "(cn_net cn1)\<lparr>nt_mgr := m\<rparr>"]
    by (simp add: owners_def)
qed

lemma svr_register_refers:
  assumes "svr_register S a sid cn = Some (err, cn')"
  shows "cn_refers cn cn'"
proof (cases "\<exists>info. cn_systemInfos cn sid = Some info \<and> \<not> si_passive info \<and> si_session info = None")
  case True
  then obtain info where i: "cn_systemInfos cn sid = Some info" "\<not> si_passive info" "si_session info = None" by blast
  with assms obtain n where n: "SetBindObject a (Some sid) (cn_net cn) = Some n"
    by (auto simp: svr_register_def bind_eq_Some_conv)
  let ?cn = "add_connected 1 (upd_info sid (\<lambda>info. info\<lparr>si_session := Some a\<rparr>) (cn\<lparr>cn_net := n\<rparr>))"
  have "cn_refers cn ?cn"
    using SetBindObject_owners [OF n] by (intro cn_refers_upd [OF _ i(1)]) auto
  moreover have "cn_refers ?cn cn'"
    using assms i n
    by (auto simp: svr_register_def bind_eq_Some_conv Let_def split: option.splits intro!: cn_refers_net dest: net_SendMessage_owners)
  ultimately show ?thesis by (rule cn_refers_trans)
next
  case False
  with assms show ?thesis by (auto simp: svr_register_def split: option.splits if_splits)
qed

lemma svr_handle_refers:
  assumes "svr_handle S a msgId data cn = Some (err, cn')"
  shows "cn_refers cn cn'"
proof -
  from assms obtain err1 cn1 where m: "svr_OnMessage S a msgId data cn = Some (err1, cn1)"
    by (auto simp: svr_handle_def bind_eq_Some_conv)
  then have "cn_refers cn cn1"
    using svr_register_refers [of S a _ cn err1 cn1] cn_OnMessage_keeps [of S msgId data cn err1 cn1]
    by (auto simp: svr_OnMessage_def split: if_splits option.splits pkg.splits)
  moreover have "cn_refers cn1 cn'"
    using assms m by (auto simp: svr_handle_def bind_eq_Some_conv split: if_splits intro!: cn_refers_net dest: Session_Close_owners)
  ultimately show ?thesis by (rule cn_refers_trans)
qed

lemma roles_inv_cn:
  "roles_inv nd \<Longrightarrow> cn_refers (nd_cn nd) (nd_cn nd') \<Longrightarrow> nd_clients nd' = nd_clients nd \<Longrightarrow> roles_inv nd'"
  using same_owners [of "cn_net (nd_cn nd')" "cn_net (nd_cn nd)"] by (simp add: roles_inv_def cn_refers_def)

lemma client_step_roles:
  assumes "client_step S sid cl nd nd'" and "nd_clients nd sid = Some cl" and inv: "roles_inv nd"
  shows "roles_inv nd'"
proof -
  have own: "nt_clients (cn_net (nd_cn nd)) b = Some sid" if "cl_cli cl = Some b" for b
    using that inv assms(2) by (auto simp: roles_inv_def clients_refer_def)
  have net: "roles_inv (set_client sid cl' (set_net n nd))"
    if "owners n = owners (cn_net (nd_cn nd))" "cl_cli cl' = cl_cli cl" for cl' n
    using that inv own same_owners [OF that(1)] by (auto simp: roles_inv_def intro!: clients_refer_upd)
  have client: "roles_inv (set_client sid cl' nd)" if "cl_cli cl' = cl_cli cl \<or> cl_cli cl' = None" for cl'
    using that inv own by (auto simp: roles_inv_def intro!: clients_refer_upd)
  show ?thesis
    using assms(1)
  proof cases
    case (dialled a n)
    from inv dialled(3) have fresh: "nt_clients (cn_net (nd_cn nd)) a = None" by (auto simp: roles_inv_def apart_def)
    obtain c where c: "newConn = Some c" using newConn_returns by blast
    with dialled(4) have n: "nt_clients n = (nt_clients (cn_net (nd_cn nd)))(a \<mapsto> sid)"
        "nt_sessions n = nt_sessions (cn_net (nd_cn nd))" "nt_conns n = (nd_conns nd)(a \<mapsto> c)"
      by (auto simp: dial_conn_def)
    with fresh have "more_owners (cn_net (nd_cn nd)) n" by (auto simp: more_owners_def map_le_def)
    moreover have "apart n" using inv dialled(3) n by (auto simp: roles_inv_def apart_def)
    ultimately show ?thesis using inv dialled(1) n(1)
      by (auto simp: roles_inv_def intro!: clients_refer_upd intro: infos_refer_more clients_refer_more)
  next
    case (request_failed a err n derr n')
    with net_SendMessage_owners [OF request_failed(4)] net_Disconnect_owners [OF request_failed(5)] show ?thesis by (auto intro!: net)
  next
    case set_cli
    with inv own show ?thesis
      by (cases "cn_systemInfos (nd_cn nd) sid")
        (auto simp: roles_inv_def upd_info_def intro!: clients_refer_upd infos_refer_upd dest: infos_referD)
  next
    case clear_cli
    with inv own show ?thesis
      by (cases "cn_systemInfos (nd_cn nd) sid")
        (auto simp: roles_inv_def upd_info_def intro!: clients_refer_upd infos_refer_upd dest: infos_referD)
  next
    case count
    with inv own show ?thesis by (auto simp: roles_inv_def intro!: clients_refer_upd)
  next
    case uncount
    with inv own show ?thesis by (auto simp: roles_inv_def intro!: clients_refer_upd)
  qed (auto intro!: net client dest: net_SendMessage_owners net_Disconnect_owners)
qed

lemma node_step_roles:
  assumes "node_step S nd nd'" and inv: "roles_inv nd"
  shows "roles_inv nd'"
proof -
  have splitter: "owners (cn_net (nd_cn (set_splitter a p x))) = owners (cn_net (nd_cn x))" for a p and x :: "'a node"
    by (simp add: owners_def set_splitter_def set_net_def)
  have conn: "owners (cn_net (nd_cn (set_conn a c' nd))) = owners (cn_net (nd_cn nd))" if "nd_conns nd a = Some c" for a c c'
    using that by (auto simp: owners_def set_conn_def set_net_def)
  have infos: "cn_refers (nd_cn nd) (nd_cn x)"
    if "owners (cn_net (nd_cn x)) = owners (cn_net (nd_cn nd))" "cn_systemInfos (nd_cn x) = cn_systemInfos (nd_cn nd)" for x
    using that same_owners(1) [OF that(1)] by (simp add: cn_refers_def)
  show ?thesis
    using assms(1)
  proof cases
    case (accept a n)
    obtain c where c: "newConn = Some c" using newConn_returns by blast
    with accept(4) obtain s where n: "nt_clients n = nt_clients (cn_net (nd_cn nd))"
        "nt_sessions n = (nt_sessions (cn_net (nd_cn nd)))(a \<mapsto> s)" "nt_conns n = (nd_conns nd)(a \<mapsto> c)"
      by (auto simp: accept_conn_def NewSession_def Let_def)
    then have "more_owners (cn_net (nd_cn nd)) n" by (auto simp: more_owners_def)
    moreover have "apart n" using inv accept(3) n by (auto simp: roles_inv_def apart_def)
    ultimately show ?thesis using inv accept(1)
      by (auto simp: roles_inv_def intro: infos_refer_more clients_refer_more)
  next
    case (sender a c c')
    then show ?thesis by (intro roles_inv_cn [OF inv infos]) (auto simp: conn)
  next
    case (chunk a c ch)
    then show ?thesis by (intro roles_inv_cn [OF inv infos]) (auto simp: conn splitter)
  next
    case (frame_session a s msgId payload p err cn)
    have "cn_refers (nd_cn nd) (nd_cn (set_splitter a p nd))" by (rule infos) (simp_all add: splitter)
    from cn_refers_trans [OF this svr_handle_refers [OF frame_session(5)]] frame_session(1) show ?thesis
      by (intro roles_inv_cn [OF inv]) simp_all
  next
    case (frame_client a sid msgId payload p)
    have p: "roles_inv (set_splitter a p nd)" by (rule roles_inv_cn [OF inv infos]) (simp_all add: splitter)
    from frame_client(4) consider cl cl' where "nd' = set_client sid cl' (set_splitter a p nd)" "nd_clients nd sid = Some cl" "cl_cli cl' = cl_cli cl"
      | err cn where "cn_OnMessage S msgId payload (nd_cn (set_splitter a p nd)) = Some (err, cn)" "nd' = (set_splitter a p nd)\<lparr>nd_cn := cn\<rparr>"
      by (auto simp: cli_handle_def bind_eq_Some_conv Let_def split: if_splits)
    then show ?thesis
    proof cases
      case (1 cl cl')
      with p show ?thesis by (auto simp: roles_inv_def clients_refer_def)
    next
      case (2 err cn)
      with cn_OnMessage_keeps [OF 2(1)] show ?thesis by (intro roles_inv_cn [OF p]) auto
    qed
  next
    case (frames_done a msgId payload p)
    then show ?thesis by (intro roles_inv_cn [OF inv infos]) (auto simp: splitter)
  next
    case (receiver a c c')
    then show ?thesis by (intro roles_inv_cn [OF inv infos]) (auto simp: conn)
  next
    case (lost_session a c s cn)
    let ?x = "set_conn a (c\<lparr>cs_callbacks := cs_callbacks c + 1, cs_receiver := RReturned\<rparr>) nd"
    have "cn_refers (nd_cn nd) (nd_cn ?x)" by (rule infos) (simp_all add: conn [OF lost_session(2)])
    from cn_refers_trans [OF this svr_disconnected_refers [OF lost_session(5)]] lost_session(1) show ?thesis
      by (intro roles_inv_cn [OF inv]) simp_all
  next
    case (lost_client a c sid cl)
    let ?x = "set_conn a (c\<lparr>cs_callbacks := cs_callbacks c + 1, cs_receiver := RReturned\<rparr>) nd"
    have "roles_inv ?x" by (rule roles_inv_cn [OF inv infos]) (simp_all add: conn [OF lost_client(2)])
    with lost_client(1,5) show ?thesis by (auto simp: roles_inv_def clients_refer_def)
  next
    case (client sid cl)
    with client_step_roles inv show ?thesis by blast
  next
    case (send sid e err cn)
    with Send_refers [OF send(2)] show ?thesis by (intro roles_inv_cn [OF inv]) simp_all
  qed
qed

lemma node_reachable_roles:
  assumes "node_reachable S nd" and "node_of (sy_config S) k"
  shows "roles_inv nd"
  using assms(1)
proof (induction rule: node_reachable.induct)
  case (started nd)
  have "si_session i = None \<and> si_cli i = None" if "cn_systemInfos (nd_cn nd) s = Some i" for s i
    using that by (auto simp: started_node_fields [OF started] intro: NewClusterNet_infoE [OF assms(2), of s i])
  moreover have "cn_net (nd_cn nd) = new_net"
    by (simp add: started_node_fields [OF started]) (simp add: NewClusterNet_def case_prod_beta)
  moreover have "cl_cli cl = None" if "nd_clients nd s = Some cl" for s cl
    using that by (auto simp: started_node_fields [OF started] NewClusterClient_def split: if_splits)
  ultimately show ?case by (auto simp: roles_inv_def infos_refer_def clients_refer_def apart_def new_net_def)
qed (rule node_step_roles)

section \<open>Sending\<close>

text \<open>The connection \<open>a\<close>, and no other, has accepted the frame of the message \<open>m\<close>.\<close>

definition sent_over :: "nat \<Rightarrow> u32 \<times> bytes \<Rightarrow> 'p clusterNet \<Rightarrow> 'p clusterNet \<Rightarrow> bool" where
  "sent_over a m cn cn' \<longleftrightarrow> (\<exists>c c'. nt_conns (cn_net cn) a = Some c \<and>
     nt_conns (cn_net cn') = (nt_conns (cn_net cn))(a \<mapsto> c') \<and> cs_accepted c' = cs_accepted c @ [frame m])"

lemma net_SendMessage_over:
  assumes "net_SendMessage a msgId data n = Some (None, n')"
  shows "\<exists>c c'. nt_conns n a = Some c \<and> nt_conns n' = (nt_conns n)(a \<mapsto> c') \<and> cs_accepted c' = cs_accepted c @ [frame (msgId, data)]"
proof (cases "msgId \<le> MaxMsgId")
  case True
  with assms obtain c c' where "nt_conns n a = Some c" "SendData (frame (msgId, data)) c = Some (None, c')"
      "n' = n\<lparr>nt_conns := (nt_conns n)(a \<mapsto> c')\<rparr>"
    unfolding net_SendMessage_def PackMessage_frame [OF True] by (auto simp: net_SendData_def bind_eq_Some_conv)
  then show ?thesis by (auto simp: SendData_def bind_eq_Some_conv)
next
  case False
  then obtain e where "PackMessage msgId data = Inl e" using PackMessage_too_large [of msgId data] by (auto simp: not_le)
  with assms show ?thesis by (simp add: net_SendMessage_def)
qed

lemma doSend_over:
  assumes "doSend S sid msgId data cn = Some (None, cn')"
  shows "\<exists>a. link cn sid = Some a \<and> sent_over a (msgId, data) cn cn'"
proof -
  from assms obtain info where i: "cn_systemInfos cn sid = Some info" by (auto simp: doSend_def bind_eq_Some_conv)
  obtain a where l: "link cn sid = Some a" using assms i by (cases "link cn sid") (auto simp: doSend_unlinked)
  then have "doSend S sid msgId data cn = do {
      (err, n) \<leftarrow> net_SendMessage a msgId data (cn_net cn);
      if err \<noteq> None then Some (Some (ErrorCodeMessageSendFail (sy_api S)), cn\<lparr>cn_net := n\<rparr>)
      else Some (None, cn\<lparr>cn_net := n\<rparr>) }"
    using i by (cases "si_passive info") (auto simp: doSend_def link_def Let_def split: bind_split)
  with assms l obtain n where a: "link cn sid = Some a" "net_SendMessage a msgId data (cn_net cn) = Some (None, n)"
      "cn' = cn\<lparr>cn_net := n\<rparr>"
    by (auto simp: bind_eq_Some_conv split: if_splits)
  from net_SendMessage_over [OF a(2)] a(3) have "sent_over a (msgId, data) cn cn'" by (simp add: sent_over_def)
  with a(1) show ?thesis by blast
qed

lemma link_passive:
  assumes "node_reachable S nd" and "node_of (sy_config S) k" and "j < length (cc_SystemConfigs (sy_config S))"
    and "link (nd_cn nd) (sc_SystemId (cc_SystemConfigs (sy_config S) ! j)) = Some a"
  shows "if j < k then nt_clients (cn_net (nd_cn nd)) a = Some (sc_SystemId (cc_SystemConfigs (sy_config S) ! j))
    else a \<in> dom (nt_sessions (cn_net (nd_cn nd)))"
proof -
  let ?id = "sc_SystemId (cc_SystemConfigs (sy_config S) ! j)"
  have "table (nd_cn nd) = table (NewClusterNet (sy_config S) :: 'a clusterNet)"
    using node_reachable_inv [OF assms(1,2)] by simp
  from table_info [OF this NewClusterNet_info [OF assms(2,3)]] obtain info where
      info: "cn_systemInfos (nd_cn nd) ?id = Some info" "si_passive info = (j < k)" by auto
  have "infos_refer (cn_systemInfos (nd_cn nd)) (cn_net (nd_cn nd))"
    using node_reachable_roles [OF assms(1,2)] by (simp add: roles_inv_def)
  from infos_referD [OF this info(1)] info assms(4) show ?thesis by (auto simp: link_def)
qed

section \<open>Main theorem\<close>

text \<open>
  C20. The two nodes of a link agree on who dials. Of two systems in the list of configurations, the
  later one starts a client to the earlier one, and the earlier one starts its server and no client
  to the later one. In every reachable state of either, a message the later one sends to the earlier
  one successfully goes out on a connection that its client has dialled to it, and one the earlier
  one sends to the later one on a session it has accepted, never on a connection it dialled.
\<close>

theorem link_roles_agree:
  assumes "node_of (sy_config S) i" and "node_of (sy_config S') j" and "i < j"
    and "cc_SystemConfigs (sy_config S) = cc_SystemConfigs (sy_config S')"
    and "node_reachable S nd" and "node_reachable S' nd'"
  shows "cc_LocalSystemId (sy_config S) \<in> set (started_clients S' (NewClusterNet (sy_config S'))) \<and>
    cc_LocalSystemId (sy_config S') \<notin> set (started_clients S (NewClusterNet (sy_config S))) \<and>
    (\<exists>port clis cn. start_net S (NewClusterNet (sy_config S)) = Some ((Some port, clis), cn)) \<and>
    (\<forall>msgId data cn'. doSend S' (cc_LocalSystemId (sy_config S)) msgId data (nd_cn nd') = Some (None, cn') \<longrightarrow>
       (\<exists>b. nt_clients (cn_net (nd_cn nd')) b = Some (cc_LocalSystemId (sy_config S)) \<and> sent_over b (msgId, data) (nd_cn nd') cn')) \<and>
    (\<forall>msgId data cn'. doSend S (cc_LocalSystemId (sy_config S')) msgId data (nd_cn nd) = Some (None, cn') \<longrightarrow>
       (\<exists>a. a \<in> dom (nt_sessions (cn_net (nd_cn nd))) \<and> nt_clients (cn_net (nd_cn nd)) a = None \<and> sent_over a (msgId, data) (nd_cn nd) cn'))"
proof -
  let ?cs = "cc_SystemConfigs (sy_config S')"
  have l: "sc_SystemId (?cs ! i) = cc_LocalSystemId (sy_config S)" "sc_SystemId (?cs ! j) = cc_LocalSystemId (sy_config S')"
      "i < length ?cs" "j < length ?cs"
    using assms(1,2,4) by (auto simp: node_of_def)
  have outbound: "\<exists>b. nt_clients (cn_net (nd_cn nd')) b = Some (cc_LocalSystemId (sy_config S)) \<and> sent_over b (msgId, data) (nd_cn nd') cn'"
    if "doSend S' (cc_LocalSystemId (sy_config S)) msgId data (nd_cn nd') = Some (None, cn')" for msgId data cn'
  proof -
    from doSend_over [OF that] obtain b where b: "link (nd_cn nd') (cc_LocalSystemId (sy_config S)) = Some b"
        "sent_over b (msgId, data) (nd_cn nd') cn'" by blast
    with link_passive [OF assms(6,2) l(3), of b] assms(3) show ?thesis by (auto simp: l)
  qed
  have inbound: "\<exists>a. a \<in> dom (nt_sessions (cn_net (nd_cn nd))) \<and> nt_clients (cn_net (nd_cn nd)) a = None \<and> sent_over a (msgId, data) (nd_cn nd) cn'"
    if "doSend S (cc_LocalSystemId (sy_config S')) msgId data (nd_cn nd) = Some (None, cn')" for msgId data cn'
  proof -
    from doSend_over [OF that] obtain a where a: "link (nd_cn nd) (cc_LocalSystemId (sy_config S')) = Some a"
        "sent_over a (msgId, data) (nd_cn nd) cn'" by blast
    have "a \<in> dom (nt_sessions (cn_net (nd_cn nd)))"
      using link_passive [OF assms(5,1), of j a] a(1) assms(3,4) l by simp
    moreover have "apart (cn_net (nd_cn nd))" using node_reachable_roles [OF assms(5,1)] by (simp add: roles_inv_def)
    ultimately show ?thesis using a(2) by (auto simp: apart_def)
  qed
  from configured_roles [OF assms(1-4)] outbound inbound show ?thesis by blast
qed

text \<open>Node 1 has registered node 2 and sends to it; node 2 waits for its response.\<close>

theorem link_roles_agree_witness:
  "\<exists>(nd :: bytes node) (nd' :: bytes node) cn' a. node_reachable (reg_system 1 2) nd \<and> node_reachable (reg_system 2 2) nd' \<and>
     doSend (reg_system 1 2) 2 7 [1] (nd_cn nd) = Some (None, cn') \<and>
     a \<in> dom (nt_sessions (cn_net (nd_cn nd))) \<and> sent_over a (7, [1]) (nd_cn nd) cn'"
proof -
  let ?S = "reg_system 1 2" and ?S' = "reg_system 2 2"
  have other: "(1 :: int) \<in> {1, 2} - {2}" by simp
  obtain nd :: "bytes node" and c where nd: "node_reachable ?S nd"
      "\<exists>info. cn_systemInfos (nd_cn nd) 2 = Some info \<and> si_session info = Some 0" "can_register 0 1 c (nd_cn nd)"
    using demo_registered [OF demo_ids(3,4) Next_requests(1) [of 9 9]] other by blast
  then obtain info where info: "cn_systemInfos (nd_cn nd) 2 = Some info" "si_session info = Some 0" by blast
  obtain nd' :: "bytes node" where nd': "node_reachable ?S' nd'" using demo_waiting by blast
  have n: "node_of (sy_config ?S) 0" "node_of (sy_config ?S') 1" using demo_node_of by simp_all
  have "\<not> si_passive info"
    using node_reachable_inv [OF nd(1) n(1)] info reg_invD(2) [of _ _ _ 2 info] by (auto simp: node_inv_def node_reg_def)
  with nd(3) info have "linked (nd_cn nd) 2 0 c" "\<not> QQueue_IsClose (cs_q c)" by (auto simp: linked_def link_def can_register_def)
  from doSend_open [OF this, of 7 ?S "[1]"] obtain cn' where sent: "doSend ?S 2 7 [1] (nd_cn nd) = Some (None, cn')"
    by (auto simp: MaxMsgId_def)
  have eqs: "cc_LocalSystemId (sy_config ?S') = 2" "cc_SystemConfigs (sy_config ?S) = cc_SystemConfigs (sy_config ?S')"
    by (simp_all add: demo_cluster_def)
  from link_roles_agree [OF n zero_less_one eqs(2) nd(1) nd'] sent obtain a where
      "a \<in> dom (nt_sessions (cn_net (nd_cn nd)))" "sent_over a (7, [1]) (nd_cn nd) cn'"
    unfolding eqs(1) by blast
  with nd(1) nd' sent show ?thesis by blast
qed

end
