(* ===== verification/Framing_Total.thy ===== *)
theory Framing_Total
  imports Packet
begin

text \<open>
  What the receive loop does with arbitrary bytes. \<open>Packet\<close> is about streams of well-formed frames;
  here any buffer is cut into the frames it begins with and a rest at which the loop stops or panics.
\<close>

section \<open>Reading a frame backwards\<close>

lemma PutUint32_Uint32:
  assumes "length b = 4" and "Uint32 b = Some v"
  shows "PutUint32 v = b"
proof -
  obtain b0 b1 b2 b3 :: u8 where b: "b = [b0, b1, b2, b3]"
    using assms(1) by (auto simp: numeral_eq_Suc length_Suc_conv)
  with assms(2) have v: "v = ucast b3 OR push_bit 8 (ucast b2) OR push_bit 16 (ucast b1) OR push_bit 24 (ucast b0)"
    by (simp add: Uint32_def numeral_2_eq_2 numeral_3_eq_3)
  have "ucast (drop_bit 24 v) = b0" "ucast (drop_bit 16 v) = b1" "ucast (drop_bit 8 v) = b2" "ucast v = b3"
    unfolding v by (rule bit_word_eqI, auto simp: bit_simps dest: bit_imp_le_length)+
  with b show ?thesis by (simp add: PutUint32_def)
qed

lemma Next_frame_inverse:
  assumes "Next p = Some ((i, d, True), p')" and "length (ps_buf p) < 2 ^ 32"
  shows "ps_buf p = frame (i, d) @ ps_buf p' \<and> i \<le> MaxMsgId"
proof -
  let ?l = "of_nat (length (ps_buf p)) :: u32"
  have l: "unat ?l = length (ps_buf p)" by (rule unat_len [OF assms(2)])
  have len: "5 \<le> length (ps_buf p)"
    using assms(1) l by (auto simp: Next_def Let_def PacketHeaderSize_def word_less_nat_alt split: if_splits)
  obtain v where v: "Uint32 (take 4 (ps_buf p)) = Some v"
    using Uint32_None_iff [of "take 4 (ps_buf p)"] len by (cases "Uint32 (take 4 (ps_buf p))") auto
  from assms(1) l len v have n: "unat (v + 5) \<le> length (ps_buf p)" "5 \<le> unat (v + 5)"
      "i = ucast (ps_buf p ! 4)" "d = take (unat (v + 5) - 5) (drop 5 (ps_buf p))" "ps_buf p' = drop (unat (v + 5)) (ps_buf p)"
    by (auto simp: Next_def Let_def PacketHeaderSize_def word_less_nat_alt go_defs take_drop split: if_splits)
  have "\<not> 0xFFFFFFFB \<le> v" using n(2) msgLen_wraps_iff [of v] by simp
  then have "unat (v + 5) = unat v + 5"
    by (simp add: unat_add_wrap word_le_nat_alt)
  with n have d: "length d = unat v" "d = take (unat v) (drop 5 (ps_buf p))" "ps_buf p' = drop (unat v) (drop 5 (ps_buf p))"
    by (simp_all add: add.commute)
  have "PutUint32 (of_nat (length d)) = take 4 (ps_buf p)"
    using PutUint32_Uint32 [OF _ v] len d(1) by simp
  moreover have "ucast i = ps_buf p ! 4"
    unfolding n(3) by (rule bit_word_eqI) (auto simp: bit_simps dest: bit_imp_le_length)
  moreover have "ps_buf p = take 4 (ps_buf p) @ ps_buf p ! 4 # drop 5 (ps_buf p)"
    using len id_take_nth_drop [of 4 "ps_buf p"] by simp
  moreover have "d @ ps_buf p' = drop 5 (ps_buf p)" using d(2,3) by (metis append_take_drop_id)
  ultimately have "ps_buf p = frame (i, d) @ ps_buf p'" by (simp add: frame_def)
  moreover have "i \<le> MaxMsgId"
  proof -
    have "unat (ps_buf p ! 4) < 2 ^ 8" using unsigned_less [of "ps_buf p ! 4"] by simp
    then have "unat i < 256" unfolding n(3) by (simp add: unsigned_ucast_eq take_bit_eq_mod)
    then show ?thesis by (simp add: MaxMsgId_def word_le_nat_alt)
  qed
  ultimately show ?thesis by simp
qed

lemma Next_stops: "Next p = Some ((i, d, False), p') \<Longrightarrow> p' = p"
  by (auto simp: Next_def Let_def split: if_splits)
section \<open>Main theorem\<close>

lemma OnData_loop_unfold:
  "OnData_loop h p s = Option.bind (Next p) (\<lambda>((i, d, ok), p).
     if \<not> ok then Some (p, s) else Option.bind (h (i, d) s) (OnData_loop h p))"
  by (subst OnData_loop.simps) simp

text \<open>
  C36. The receive loop ends on every buffer. Any buffer below $2^{32}$ bytes splits into frames of
  at least five bytes each, with ids of one byte, and a rest at which \<open>Next\<close> stops or panics; the
  loop runs the handler on these frames in order, then leaves the rest in the splitter, or panics
  if the rest's header does. The result is \<open>None\<close> only for a panic, the handler's or the header's:
  the loop cannot run for ever.
\<close>

theorem OnData_loop_on_any_bytes:
  assumes "length (ps_buf p) < 2 ^ 32"
  shows "\<exists>ms rest. ps_buf p = concat (map frame ms) @ rest \<and> PacketHeaderSize * length ms \<le> length (ps_buf p) \<and>
    (\<forall>m \<in> set ms. fst m \<le> MaxMsgId) \<and>
    (Next \<lparr>ps_buf = rest\<rparr> = None \<or> (\<exists>i d. Next \<lparr>ps_buf = rest\<rparr> = Some ((i, d, False), \<lparr>ps_buf = rest\<rparr>))) \<and>
    (\<forall>(h :: u32 \<times> bytes \<Rightarrow> 's \<Rightarrow> 's option) s. OnData_loop h p s =
       Option.bind (handle_all h ms s)
         (\<lambda>s. if Next \<lparr>ps_buf = rest\<rparr> = None then None else Some (\<lparr>ps_buf = rest\<rparr>, s)))"
  using assms
proof (induction "length (ps_buf p)" arbitrary: p rule: less_induct)
  case less
  have p: "\<lparr>ps_buf = ps_buf p\<rparr> = p" by simp
  consider "Next p = None" | i d p' where "Next p = Some ((i, d, False), p')" | i d p' where "Next p = Some ((i, d, True), p')"
    by (cases "Next p") (auto, metis)
  then show ?case
  proof cases
    case 1
    then show ?thesis
      by (intro exI [of _ "[] :: (u32 \<times> bytes) list"] exI [of _ "ps_buf p"]) (simp add: OnData_loop_unfold [of _ p] p)
  next
    case (2 i d p')
    with Next_stops [OF 2] show ?thesis
      by (intro exI [of _ "[] :: (u32 \<times> bytes) list"] exI [of _ "ps_buf p"]) (simp add: OnData_loop_unfold [of _ p] p)
  next
    case (3 i d p')
    from Next_frame_inverse [OF 3 less.prems] have f: "ps_buf p = frame (i, d) @ ps_buf p'" "i \<le> MaxMsgId" by auto
    then have shorter: "length (ps_buf p') + PacketHeaderSize \<le> length (ps_buf p)" by (simp add: length_frame)
    then have "length (ps_buf p') < length (ps_buf p)" by (simp add: PacketHeaderSize_def)
    moreover from this less.prems have "length (ps_buf p') < 2 ^ 32" by linarith
    ultimately obtain ms rest where ms: "ps_buf p' = concat (map frame ms) @ rest"
        "PacketHeaderSize * length ms \<le> length (ps_buf p')" "\<forall>m \<in> set ms. fst m \<le> MaxMsgId"
        "Next \<lparr>ps_buf = rest\<rparr> = None \<or> (\<exists>i d. Next \<lparr>ps_buf = rest\<rparr> = Some ((i, d, False), \<lparr>ps_buf = rest\<rparr>))"
        "\<forall>(h :: u32 \<times> bytes \<Rightarrow> 's \<Rightarrow> 's option) s. OnData_loop h p' s = Option.bind (handle_all h ms s)
           (\<lambda>s. if Next \<lparr>ps_buf = rest\<rparr> = None then None else Some (\<lparr>ps_buf = rest\<rparr>, s))"
      using less.hyps [of p'] by blast
    from ms(5) have loop: "OnData_loop h p' = (\<lambda>s. Option.bind (handle_all h ms s)
        (\<lambda>s. if Next \<lparr>ps_buf = rest\<rparr> = None then None else Some (\<lparr>ps_buf = rest\<rparr>, s)))"
      for h :: "u32 \<times> bytes \<Rightarrow> 's \<Rightarrow> 's option" by blast
    have "OnData_loop h p s = Option.bind (handle_all h ((i, d) # ms) s)
        (\<lambda>s. if Next \<lparr>ps_buf = rest\<rparr> = None then None else Some (\<lparr>ps_buf = rest\<rparr>, s))"
      for h :: "u32 \<times> bytes \<Rightarrow> 's \<Rightarrow> 's option" and s
      by (cases "h (i, d) s") (simp_all add: OnData_loop_unfold [of h p] 3 loop)
    with ms f shorter show ?thesis by (intro exI [of _ "(i, d) # ms"] exI [of _ rest]) auto
  qed
qed

theorem OnData_loop_on_any_bytes_witness:
  "\<exists>ms rest. [0, 0, 0, 1, 7, 65, 255, 255, 255, 255, 1] = concat (map frame ms) @ rest \<and> length ms \<le> 2 \<and>
     OnData_loop (\<lambda>m log. Some (log @ [m])) \<lparr>ps_buf = [0, 0, 0, 1, 7, 65, 255, 255, 255, 255, 1]\<rparr> [] =
       Option.bind (handle_all (\<lambda>m log. Some (log @ [m])) ms [])
         (\<lambda>s. if Next \<lparr>ps_buf = rest\<rparr> = None then None else Some (\<lparr>ps_buf = rest\<rparr>, s))"
proof -
  let ?b = "[0, 0, 0, 1, 7, 65, 255, 255, 255, 255, 1 :: u8]" and ?h = "\<lambda>m (log :: (u32 \<times> bytes) list). Some (log @ [m])"
  have "length (ps_buf \<lparr>ps_buf = ?b\<rparr>) < 2 ^ 32" by simp
  from OnData_loop_on_any_bytes [OF this] obtain ms rest where b1: "ps_buf \<lparr>ps_buf = ?b\<rparr> = concat (map frame ms) @ rest"
      and b2: "PacketHeaderSize * length ms \<le> length (ps_buf \<lparr>ps_buf = ?b\<rparr>)" and loop: "\<forall>(h :: u32 \<times> bytes \<Rightarrow> (u32 \<times> bytes) list \<Rightarrow> (u32 \<times> bytes) list option) s.
        OnData_loop h \<lparr>ps_buf = ?b\<rparr> s = Option.bind (handle_all h ms s)
          (\<lambda>s. if Next \<lparr>ps_buf = rest\<rparr> = None then None else Some (\<lparr>ps_buf = rest\<rparr>, s))"
    by blast
  from b1 b2 have ms: "?b = concat (map frame ms) @ rest" "PacketHeaderSize * length ms \<le> 11"
    by simp (use b2 in simp)
  moreover from loop have "OnData_loop ?h \<lparr>ps_buf = ?b\<rparr> [] = Option.bind (handle_all ?h ms [])
      (\<lambda>s. if Next \<lparr>ps_buf = rest\<rparr> = None then None else Some (\<lparr>ps_buf = rest\<rparr>, s))" by blast
  moreover from ms(2) have "length ms \<le> 2" by (simp add: PacketHeaderSize_def)
  ultimately show ?thesis by blast
qed

end
