(* ===== verification/Wiring_Steps.thy ===== *)
theory Wiring_Steps
  imports Wiring Link_Roles Framing_Total
begin

text \<open>
  The callbacks that \<open>Wiring\<close> installs do what \<open>node_step\<close> says: a run of the receive loop of a connection
  is a run of the node, and it is the loop of \<open>Packet\<close>.
\<close>

section \<open>A run of the loop is a run of the node\<close>

text \<open>The receiver is inside \<open>onDataFunc\<close>.\<close>

definition enter :: "nat \<Rightarrow> 'p node \<Rightarrow> 'p node" where
  "enter a nd = nd\<lparr>nd_handling := insert a (nd_handling nd)\<rparr>"

lemma enter_simps [simp]:
  "nd_cn (enter a nd) = nd_cn nd" "nd_clients (enter a nd) = nd_clients nd" "nd_handling (enter a nd) = insert a (nd_handling nd)"
  "nd_handling (set_splitter a p nd) = nd_handling nd" "set_splitter a p (enter b nd) = enter b (set_splitter a p nd)"
  by (simp_all add: enter_def set_splitter_def set_net_def)

lemma loop_finishes:
  assumes "Next (nd_splitter nd a) = Some ((i, d, False), p)" and "a \<notin> nd_handling nd"
  shows "node_step S (enter a nd) (set_splitter a p nd)"
proof -
  have "node_step S (enter a nd) ((set_splitter a p (enter a nd))\<lparr>nd_handling := nd_handling (enter a nd) - {a}\<rparr>)"
    by (rule node_step.frames_done) (use assms in simp_all)
  moreover have "(set_splitter a p (enter a nd))\<lparr>nd_handling := nd_handling (enter a nd) - {a}\<rparr> = set_splitter a p nd"
    using assms(2) by (simp add: enter_def set_splitter_def set_net_def)
  ultimately show ?thesis by simp
qed

text \<open>
  A message handler that does what the node does with a frame, on a connection it owns; \<open>refuses\<close> says
  when the node's own handler has no result (a panic, or a full channel).
\<close>

definition handles ::
  "'p system \<Rightarrow> nat \<Rightarrow> ('p node \<Rightarrow> bool) \<Rightarrow> (u32 \<Rightarrow> bytes \<Rightarrow> 'p node \<Rightarrow> bool) \<Rightarrow>
     (u32 \<Rightarrow> bytes \<Rightarrow> 'p node \<Rightarrow> (go_error \<times> 'p node) option) \<Rightarrow> bool" where
  "handles S a owned refuses h \<longleftrightarrow>
     (\<forall>nd i d p. owned nd \<longrightarrow> Next (nd_splitter nd a) = Some ((i, d, True), p) \<longrightarrow>
        (case h i d (set_splitter a p nd) of
           None \<Rightarrow> refuses i d (set_splitter a p nd)
         | Some (err, nd') \<Rightarrow> node_step S (enter a nd) (enter a nd') \<and> owned nd' \<and> nd_handling nd' = nd_handling nd \<and>
             nd_splitter nd' a = p))"

text \<open>The node is at a frame it cannot handle: \<open>Next\<close> panics, or the handler has no result.\<close>

definition stuck_at :: "nat \<Rightarrow> (u32 \<Rightarrow> bytes \<Rightarrow> 'p node \<Rightarrow> bool) \<Rightarrow> 'p node \<Rightarrow> bool" where
  "stuck_at a refuses nd \<longleftrightarrow>
     (case Next (nd_splitter nd a) of None \<Rightarrow> True | Some ((i, d, ok), p) \<Rightarrow> ok \<and> refuses i d (set_splitter a p nd))"

lemma frames_loop_unfold:
  "frames_loop a h nd = Option.bind (Next (nd_splitter nd a)) (\<lambda>((i, d, ok), p).
     if \<not> ok then Some (set_splitter a p nd)
     else Option.bind (h i d (set_splitter a p nd)) (\<lambda>(err, nd). frames_loop a h nd))"
  by (subst frames_loop.simps) simp

lemma frames_loop_steps:
  assumes "handles S a owned refuses h" and "owned nd" and "a \<notin> nd_handling nd" and "length (ps_buf (nd_splitter nd a)) < 2 ^ 32"
  shows "case frames_loop a h nd of
      None \<Rightarrow> \<exists>nd1. (node_step S)\<^sup>*\<^sup>* (enter a nd) (enter a nd1) \<and> stuck_at a refuses nd1
    | Some nd' \<Rightarrow> (node_step S)\<^sup>*\<^sup>* (enter a nd) nd'"
  using assms(2-4)
proof (induction "length (ps_buf (nd_splitter nd a))" arbitrary: nd rule: less_induct)
  case less
  consider "Next (nd_splitter nd a) = None" | i d p where "Next (nd_splitter nd a) = Some ((i, d, False), p)"
    | i d p where "Next (nd_splitter nd a) = Some ((i, d, True), p)"
    by (cases "Next (nd_splitter nd a)") (auto, metis)
  then show ?case
  proof cases
    case 1
    then show ?thesis by (auto simp: frames_loop_unfold [of a h nd] stuck_at_def intro!: exI [of _ nd])
  next
    case (2 i d p)
    with loop_finishes [OF 2 less.prems(2), of S] show ?thesis by (auto simp: frames_loop_unfold [of a h nd])
  next
    case (3 i d p)
    from assms(1) less.prems(1) 3 have h: "case h i d (set_splitter a p nd) of None \<Rightarrow> refuses i d (set_splitter a p nd)
        | Some (err, nd') \<Rightarrow> node_step S (enter a nd) (enter a nd') \<and> owned nd' \<and> nd_handling nd' = nd_handling nd \<and> nd_splitter nd' a = p"
      unfolding handles_def by blast
    show ?thesis
    proof (cases "h i d (set_splitter a p nd)")
      case None
      with h 3 show ?thesis by (auto simp: frames_loop_unfold [of a h nd] stuck_at_def intro!: exI [of _ nd])
    next
      case (Some r)
      then obtain err nd1 where r: "h i d (set_splitter a p nd) = Some (err, nd1)" by (cases r) auto
      with h have s: "node_step S (enter a nd) (enter a nd1)" "owned nd1" "nd_handling nd1 = nd_handling nd" "nd_splitter nd1 a = p"
        by auto
      from Next_frame_inverse [OF 3 less.prems(3)] have "length (ps_buf p) < length (ps_buf (nd_splitter nd a))"
        by (simp add: length_frame PacketHeaderSize_def)
      with less s have "case frames_loop a h nd1 of
          None \<Rightarrow> \<exists>nd2. (node_step S)\<^sup>*\<^sup>* (enter a nd1) (enter a nd2) \<and> stuck_at a refuses nd2
        | Some nd' \<Rightarrow> (node_step S)\<^sup>*\<^sup>* (enter a nd1) nd'" by simp
      then show ?thesis
        using s(1) by (auto simp: frames_loop_unfold [of a h nd] 3 r split: option.splits intro: converse_rtranclp_into_rtranclp)
    qed
  qed
qed

text \<open>
  \<open>Read\<close> returns a chunk and the on-data callback runs on it: that is a chunk step and then what the
  loop does.
\<close>

definition read_chunk :: "nat \<Rightarrow> ConnSocket \<Rightarrow> bytes \<Rightarrow> 'p node \<Rightarrow> 'p node" where
  "read_chunk a c ch nd = set_conn a (c\<lparr>cs_read := cs_read c @ [ch]\<rparr>) nd"

text \<open>What an on-data callback \<open>f\<close> may do: steps of the node, to the end or to where the node is stuck.\<close>

definition data_steps ::
  "'p system \<Rightarrow> nat \<Rightarrow> (u32 \<Rightarrow> bytes \<Rightarrow> 'p node \<Rightarrow> bool) \<Rightarrow> (bytes \<Rightarrow> 'p node \<Rightarrow> (go_error \<times> 'p node) option) \<Rightarrow>
     'p node \<Rightarrow> bool" where
  "data_steps S a refuses f nd \<longleftrightarrow>
     (\<forall>c ch. nd_conns nd a = Some c \<longrightarrow> cs_receiver c = RRead \<longrightarrow> a \<notin> nd_handling nd \<longrightarrow>
        length (ps_buf (nd_splitter nd a)) + length ch < 2 ^ 32 \<longrightarrow>
        (case f ch (read_chunk a c ch nd) of
           None \<Rightarrow> \<exists>nd1. (node_step S)\<^sup>*\<^sup>* nd (enter a nd1) \<and> stuck_at a refuses nd1
         | Some (err, nd') \<Rightarrow> err = None \<and> (node_step S)\<^sup>*\<^sup>* nd nd'))"

lemma on_data_steps:
  assumes "handles S a owned refuses h"
    and owned: "\<And>nd1. nt_sessions (cn_net (nd_cn nd1)) = nt_sessions (cn_net (nd_cn nd)) \<Longrightarrow>
      nt_clients (cn_net (nd_cn nd1)) = nt_clients (cn_net (nd_cn nd)) \<Longrightarrow> owned nd1"
  shows "data_steps S a refuses (on_data a h) nd"
  unfolding data_steps_def
proof (intro allI impI)
  fix c and ch :: bytes assume c: "nd_conns nd a = Some c" "cs_receiver c = RRead" "a \<notin> nd_handling nd"
    and len: "length (ps_buf (nd_splitter nd a)) + length ch < 2 ^ 32"
  let ?nd = "set_splitter a (Append ch (nd_splitter nd a)) (read_chunk a c ch nd)"
  have "node_step S nd (enter a ?nd)"
    using node_step.chunk [OF c, of S ch] by (simp add: enter_def read_chunk_def set_splitter_def set_conn_def set_net_def)
  moreover have "case frames_loop a h ?nd of
      None \<Rightarrow> \<exists>nd1. (node_step S)\<^sup>*\<^sup>* (enter a ?nd) (enter a nd1) \<and> stuck_at a refuses nd1
    | Some nd' \<Rightarrow> (node_step S)\<^sup>*\<^sup>* (enter a ?nd) nd'"
    by (rule frames_loop_steps [OF assms(1)], rule owned)
      (use c(3) len in \<open>simp_all add: read_chunk_def set_splitter_def set_conn_def set_net_def Append_def\<close>)
  moreover have "on_data a h ch (read_chunk a c ch nd) = map_option (Pair None) (frames_loop a h ?nd)"
    by (simp add: on_data_def read_chunk_def set_conn_def set_net_def)
  ultimately show "case on_data a h ch (read_chunk a c ch nd) of
      None \<Rightarrow> \<exists>nd1. (node_step S)\<^sup>*\<^sup>* nd (enter a nd1) \<and> stuck_at a refuses nd1
    | Some (err, nd') \<Rightarrow> err = None \<and> (node_step S)\<^sup>*\<^sup>* nd nd'"
    by (auto split: option.splits intro: converse_rtranclp_into_rtranclp)
qed

section \<open>Handling a message does not look at splitters\<close>

lemma set_splitter_simps [simp]:
  "nd_splitter (set_splitter a p nd) a = p" "set_splitter a q (set_splitter a p nd) = set_splitter a q nd"
  by (simp_all add: set_splitter_def set_net_def)

definition with_splitters :: "(nat \<Rightarrow> PacketSplitter) \<Rightarrow> net \<Rightarrow> net" where
  "with_splitters f n = n\<lparr>nt_splitters := f\<rparr>"

definition cn_with_splitters :: "(nat \<Rightarrow> PacketSplitter) \<Rightarrow> 'p clusterNet \<Rightarrow> 'p clusterNet" where
  "cn_with_splitters f cn = cn\<lparr>cn_net := with_splitters f (cn_net cn)\<rparr>"

lemma net_splitters_commute:
  "net_SendMessage b i d (with_splitters f n) = map_option (apsnd (with_splitters f)) (net_SendMessage b i d n)"
  "net_Disconnect b (with_splitters f n) = map_option (apsnd (with_splitters f)) (net_Disconnect b n)"
  "SetBindObject b x (with_splitters f n) = map_option (with_splitters f) (SetBindObject b x n)"
  by (auto simp: net_SendMessage_def net_SendData_def net_Disconnect_def SetBindObject_def with_splitters_def
      split: sum.split bind_split option.split)

lemma Session_Close_splitters:
  "Session_Close b (with_splitters f n) = map_option (apsnd (with_splitters f)) (Session_Close b n)"
  by (auto simp: Session_Close_def net_splitters_commute split: option.split bind_split) (simp_all add: with_splitters_def)

lemma cn_splitters_commute:
  "cn_net (cn_with_splitters f cn) = with_splitters f (cn_net cn)" "cn_systemInfos (cn_with_splitters f cn) = cn_systemInfos cn"
  "upd_info sid g (cn_with_splitters f cn) = cn_with_splitters f (upd_info sid g cn)"
  "add_connected k (cn_with_splitters f cn) = cn_with_splitters f (add_connected k cn)"
  "(cn_with_splitters f cn)\<lparr>cn_net := with_splitters f n\<rparr> = cn_with_splitters f (cn\<lparr>cn_net := n\<rparr>)"
  "(cn_with_splitters f cn)\<lparr>cn_routed := es\<rparr> = cn_with_splitters f (cn\<lparr>cn_routed := es\<rparr>)"
  "cn_routed (cn_with_splitters f cn) = cn_routed cn"
  by (simp_all add: cn_with_splitters_def upd_info_def add_connected_def split: option.split)

lemma svr_register_splitters:
  "svr_register S b sid (cn_with_splitters f cn) = map_option (apsnd (cn_with_splitters f)) (svr_register S b sid cn)"
  by (auto simp: svr_register_def Let_def net_splitters_commute cn_splitters_commute split: option.split bind_split)

lemma cn_OnMessage_splitters:
  "cn_OnMessage S i d (cn_with_splitters f cn) = map_option (apsnd (cn_with_splitters f)) (cn_OnMessage S i d cn)"
  by (auto simp: cn_OnMessage_def cn_splitters_commute split: option.split bind_split)

lemma svr_handle_splitters:
  "svr_handle S b i d (cn_with_splitters f cn) = map_option (apsnd (cn_with_splitters f)) (svr_handle S b i d cn)"
proof -
  have "svr_OnMessage S b i d (cn_with_splitters f cn) = map_option (apsnd (cn_with_splitters f)) (svr_OnMessage S b i d cn)"
    by (auto simp: svr_OnMessage_def svr_register_splitters cn_OnMessage_splitters split: option.split pkg.split)
  then show ?thesis
    by (auto simp: svr_handle_def Session_Close_splitters cn_splitters_commute split: option.split bind_split)
qed

lemma set_splitter_cn:
  "set_splitter a p nd = nd\<lparr>nd_cn := cn_with_splitters ((nd_splitter nd)(a := p)) (nd_cn nd)\<rparr>"
  by (simp add: set_splitter_def set_net_def cn_with_splitters_def with_splitters_def)

lemma svr_handle_keeps_splitters:
  assumes "svr_handle S b i d cn = Some (err, cn')"
  shows "nt_splitters (cn_net cn') = nt_splitters (cn_net cn)"
proof -
  have "cn_with_splitters (nt_splitters (cn_net cn)) cn = cn" by (simp add: cn_with_splitters_def with_splitters_def)
  with svr_handle_splitters [of S b i d "nt_splitters (cn_net cn)" cn] assms
  have "cn' = cn_with_splitters (nt_splitters (cn_net cn)) cn'" by simp
  then show ?thesis by (metis cn_splitters_commute(1) with_splitters_def net.simps(4) net.select_convs(4) net.surjective net.update_convs(4))
qed

section \<open>The callbacks of a server's connection\<close>

definition callback_ran :: "nat \<Rightarrow> ConnSocket \<Rightarrow> 'p node \<Rightarrow> 'p node" where
  "callback_ran a c nd = set_conn a (c\<lparr>cs_callbacks := cs_callbacks c + 1, cs_receiver := RReturned\<rparr>) nd"

text \<open>
  Neither callback is \<open>nil\<close>, and what they do on a connection of this owner are steps of the node. The
  on-data callback has no result only where the node is stuck itself, and the on-disconnect callback
  only where the handler of the node has none: \<open>refuses\<close> and \<open>blocks\<close> say when.
\<close>

definition runs_as_steps ::
  "'p system \<Rightarrow> nat \<Rightarrow> ('p node \<Rightarrow> bool) \<Rightarrow> (u32 \<Rightarrow> bytes \<Rightarrow> 'p node \<Rightarrow> bool) \<Rightarrow> ('p node \<Rightarrow> bool) \<Rightarrow> 'p conn_funcs \<Rightarrow> bool" where
  "runs_as_steps S a owned refuses blocks cf \<longleftrightarrow> (\<exists>f g. onDataFunc cf = Some f \<and> onDisconnectFunc cf = Some g \<and>
     (\<forall>nd. owned nd \<longrightarrow> data_steps S a refuses f nd) \<and>
     (\<forall>nd c. owned nd \<longrightarrow> nd_conns nd a = Some c \<longrightarrow> cs_receiver c = RCallback \<longrightarrow>
        (case g (callback_ran a c nd) of None \<Rightarrow> blocks (callback_ran a c nd) | Some nd' \<Rightarrow> node_step S nd nd')))"

definition session_blocks :: "nat \<Rightarrow> 'p node \<Rightarrow> bool" where
  "session_blocks a nd \<longleftrightarrow> svr_disconnected a (nd_cn nd) = None"

definition client_blocks :: "int \<Rightarrow> 'p node \<Rightarrow> bool" where
  "client_blocks sid nd \<longleftrightarrow> (\<forall>cl. nd_clients nd sid = Some cl \<longrightarrow> cl_disconnectChan cl \<noteq> None)"

definition session_refuses :: "'p system \<Rightarrow> nat \<Rightarrow> u32 \<Rightarrow> bytes \<Rightarrow> 'p node \<Rightarrow> bool" where
  "session_refuses S a i d nd \<longleftrightarrow> svr_handle S a i d (nd_cn nd) = None"

definition client_refuses :: "'p system \<Rightarrow> int \<Rightarrow> u32 \<Rightarrow> bytes \<Rightarrow> 'p node \<Rightarrow> bool" where
  "client_refuses S sid i d nd \<longleftrightarrow> cli_handle S sid i d nd = None"

definition has_session :: "nat \<Rightarrow> 'p node \<Rightarrow> bool" where
  "has_session a nd \<longleftrightarrow> nt_sessions (cn_net (nd_cn nd)) a \<noteq> None"

definition has_client :: "nat \<Rightarrow> int \<Rightarrow> 'p node \<Rightarrow> bool" where
  "has_client a sid nd \<longleftrightarrow> nt_clients (cn_net (nd_cn nd)) a = Some sid"

text \<open>Handling a message keeps the sessions.\<close>

lemma svr_handle_sessions:
  "svr_handle S a i d cn = Some (err, cn') \<Longrightarrow> dom (nt_sessions (cn_net cn')) = dom (nt_sessions (cn_net cn))"
  using svr_handle_refers [of S a i d cn err cn'] by (simp add: cn_refers_def owners_def)

lemma NewServer_fields:
  assumes "NewServer S cn = Some ns"
  shows "\<exists>port. NewServer_port S cn = Some port \<and> sv_acceptor ns = Some (Acceptor_SetAddress '''' port NewAcceptor)"
    and "sv_onConnect ns = Some svr_OnConnect"
    and "sv_onDisconnect ns = Some (\<lambda>s nd. do { cn \<leftarrow> svr_OnDisconnect s (nd_cn nd); Some (nd\<lparr>nd_cn := cn\<rparr>) })"
    and "sv_onMessage ns = Some (\<lambda>s msgId data nd. do { (err, cn) \<leftarrow> svr_handle S s msgId data (nd_cn nd); Some (err, nd\<lparr>nd_cn := cn\<rparr>) })"
  using assms by (auto simp: NewServer_def bind_eq_Some_conv Let_def SetAcceptor_def Server_SetOnConnect_def
      Server_SetOnDisconnect_def Server_SetOnMessage_def)

lemma server_handles:
  assumes "NewServer S cn0 = Some ns"
  shows "handles S a (has_session a) (session_refuses S a) (run_onMessage ns a)"
  unfolding handles_def
proof (intro allI impI)
  fix nd :: "'a node" and i d p
  assume own: "has_session a nd" and nx: "Next (nd_splitter nd a) = Some ((i, d, True), p)"
  let ?p = "set_splitter a p nd"
  have run: "run_onMessage ns a i d ?p = map_option (\<lambda>(err, cn). (err, ?p\<lparr>nd_cn := cn\<rparr>)) (svr_handle S a i d (nd_cn ?p))"
    using NewServer_fields(4) [OF assms] by (auto simp: run_onMessage_def split: bind_split)
  show "case run_onMessage ns a i d ?p of None \<Rightarrow> session_refuses S a i d ?p
      | Some (err, nd') \<Rightarrow> node_step S (enter a nd) (enter a nd') \<and> has_session a nd' \<and> nd_handling nd' = nd_handling nd \<and>
          nd_splitter nd' a = p"
  proof (cases "svr_handle S a i d (nd_cn ?p)")
    case None
    then show ?thesis unfolding run by (simp add: session_refuses_def)
  next
    case (Some r)
    then obtain err cn where cn: "svr_handle S a i d (nd_cn ?p) = Some (err, cn)" by (cases r) auto
    from own obtain s where "nt_sessions (cn_net (nd_cn (enter a nd))) a = Some s" by (auto simp: has_session_def)
    moreover have "svr_handle S a i d (nd_cn (set_splitter a p (enter a nd))) = Some (err, cn)" using cn by simp
    ultimately have "node_step S (enter a nd) ((enter a nd)\<lparr>nd_cn := cn\<rparr>)"
      using nx by (intro node_step.frame_session) simp_all
    moreover have "(enter a nd)\<lparr>nd_cn := cn\<rparr> = enter a (?p\<lparr>nd_cn := cn\<rparr>)" "nd_handling (?p\<lparr>nd_cn := cn\<rparr>) = nd_handling nd"
      by (simp_all add: enter_def set_splitter_def set_net_def)
    moreover have "has_session a (?p\<lparr>nd_cn := cn\<rparr>)"
      using svr_handle_sessions [OF cn] own by (auto simp: has_session_def set_splitter_def set_net_def)
    moreover have "nd_splitter (?p\<lparr>nd_cn := cn\<rparr>) a = p"
      using svr_handle_keeps_splitters [OF cn] by (simp add: set_splitter_def set_net_def)
    ultimately show ?thesis unfolding run cn by simp
  qed
qed

lemma server_funcs_run:
  assumes "NewServer S cn0 = Some ns"
  shows "runs_as_steps S a (has_session a) (session_refuses S a) (session_blocks a)
    \<lparr>onDisconnectFunc = Some (run_onDisconnect ns a), onDataFunc = Some (on_data a (run_onMessage ns a))\<rparr>"
  unfolding runs_as_steps_def
proof (intro exI conjI allI impI)
  show "data_steps S a (session_refuses S a) (on_data a (run_onMessage ns a)) nd" if "has_session a nd" for nd
    using that by (intro on_data_steps [OF server_handles [OF assms]]) (simp add: has_session_def)
  show "case run_onDisconnect ns a (callback_ran a c nd) of None \<Rightarrow> session_blocks a (callback_ran a c nd) | Some nd' \<Rightarrow> node_step S nd nd'"
    if own: "has_session a nd" and c: "nd_conns nd a = Some c" "cs_receiver c = RCallback" for nd c
  proof -
    from own obtain s where s: "nt_sessions (cn_net (nd_cn nd)) a = Some s" by (auto simp: has_session_def)
    have "run_onDisconnect ns a nd1 = map_option (\<lambda>cn. nd1\<lparr>nd_cn := cn\<rparr>) (svr_disconnected a (nd_cn nd1))" for nd1 :: "'a node"
      using NewServer_fields(3) [OF assms]
      by (auto simp: run_onDisconnect_def svr_disconnected_def GetID_def set_net_def Let_def split: bind_split option.split)
    with node_step.lost_session [OF c s] show ?thesis
      by (auto simp: session_blocks_def callback_ran_def set_conn_def set_net_def split: option.split)
  qed
qed simp_all

text \<open>A round of the accept loop.\<close>

declare on_accept_def [simp del]

definition server_funcs :: "'p netServer \<Rightarrow> nat \<Rightarrow> 'p conn_funcs" where
  "server_funcs ns a = \<lparr>onDisconnectFunc = Some (run_onDisconnect ns a), onDataFunc = Some (on_data a (run_onMessage ns a))\<rparr>"

lemma accept_round:
  assumes "NewServer S cn0 = Some ns" and "newConn = Some c"
  shows "accept_handler ns a no_funcs (set_conn a c nd) =
    Some (server_funcs ns a, set_net (on_accept a c (cn_net (nd_cn nd))) nd)"
proof -
  obtain i m where im: "NewSession a (nt_mgr (cn_net (nd_cn nd))) = (i, m)" by fastforce
  then have "NewSession a (nt_mgr (cn_net (nd_cn (set_conn a c nd)))) = (i, m)" by (simp add: set_conn_def)
  with im NewServer_fields(2) [OF assms(1)] show ?thesis
    by (simp add: accept_handler_def SetConn_def svr_OnConnect_def server_funcs_def Conn_SetOnDisconnect_def Conn_SetOnData_def no_funcs_def
        set_conn_def set_net_def Let_def on_accept_def)
qed

lemma accept_loop_steps:
  assumes "NewServer S cn0 = Some ns" and "as_onAcceptFunc this = Some (accept_handler ns)"
    and "starts_server (nd_cn nd)" and "distinct as" and "\<forall>a \<in> set as. nd_conns nd a = None"
  shows "\<exists>fs' nd'. accept_loop this (map Accepted as @ [AcceptError e]) fs nd = Some ((Some (Some e), fs'), nd') \<and>
    (node_step S)\<^sup>*\<^sup>* nd nd' \<and> (\<forall>a. fs' a = (if a \<in> set as then Some (server_funcs ns a) else fs a)) \<and>
    (\<forall>a. has_session a nd' \<longleftrightarrow> a \<in> set as \<or> has_session a nd)"
  using assms(3-5)
proof (induction as arbitrary: nd fs)
  case (Cons a as)
  obtain c where c: "newConn = Some c" using newConn_returns by blast
  let ?nd = "set_net (on_accept a c (cn_net (nd_cn nd))) nd"
  have net: "cn_net (nd_cn ?nd) = on_accept a c (cn_net (nd_cn nd))" by simp
  have "starts_server (nd_cn ?nd)" using Cons.prems(1) by (simp add: set_net_def starts_server_def)
  moreover have "\<forall>b \<in> set as. nd_conns ?nd b = None"
    using Cons.prems(2,3) unfolding net by (auto simp: on_accept_def NewSession_def Let_def)
  ultimately obtain fs' nd' where IH: "accept_loop this (map Accepted as @ [AcceptError e]) (fs(a \<mapsto> server_funcs ns a)) ?nd =
        Some ((Some (Some e), fs'), nd')" "(node_step S)\<^sup>*\<^sup>* ?nd nd'"
      "\<forall>b. fs' b = (if b \<in> set as then Some (server_funcs ns b) else (fs(a \<mapsto> server_funcs ns a)) b)"
      "\<forall>b. has_session b nd' \<longleftrightarrow> b \<in> set as \<or> has_session b ?nd"
    using Cons.IH [of ?nd "fs(a \<mapsto> server_funcs ns a)"] Cons.prems(2) by (metis distinct.simps(2))
  have "node_step S nd ?nd"
    by (rule node_step.accept [of _ a]) (use Cons.prems in \<open>simp_all add: accept_conn_def c\<close>)
  with IH(2) have "(node_step S)\<^sup>*\<^sup>* nd nd'" by (rule converse_rtranclp_into_rtranclp [rotated])
  moreover have "has_session b ?nd \<longleftrightarrow> b = a \<or> has_session b nd" for b
    unfolding has_session_def net by (simp add: on_accept_def NewSession_def Let_def)
  moreover have "accept_loop this (map Accepted (a # as) @ [AcceptError e]) fs nd = Some ((Some (Some e), fs'), nd')"
    using IH(1) by (simp add: c assms(2) accept_round [OF assms(1) c])
  ultimately show ?case
    by (intro exI [of _ fs'] exI [of _ nd'] conjI) (assumption, assumption, use IH(3,4) in auto)
qed simp

section \<open>Main theorem: the server\<close>

text \<open>
  C10. The wiring of the server. From \<open>NewServer\<close> on no callback that is called is \<open>nil\<close>. \<open>Start\<close>
  listens on the configured port of the local system, on all interfaces; if it can, it accepts the
  connections in order until \<open>Accept\<close> fails, then returns that error. Each connection gets a session and both callbacks. All this, and whatever the callbacks
  do when the connection reads a chunk or is lost, are steps of the node: \<open>node_step\<close> leaves nothing out.
  A callback has no result only where the node's own handler has none, for buffers below
  2^32 bytes.
\<close>

theorem server_callbacks_are_steps:
  assumes "NewServer S (nd_cn nd) = Some ns" and "starts_server (nd_cn nd)"
    and "distinct as" and "\<forall>a \<in> set as. nd_conns nd a = None"
    and "cn_systemInfos (nd_cn nd) (cc_LocalSystemId (sy_config S)) = Some info"
    and "listen ''tcp'' ('':'' @ show_int (uint (sc_Port (si_config info)))) = None"
  shows "\<exists>fs ns' nd'. Server_Start listen (map Accepted as @ [AcceptError e]) ns nd = Some ((Some (Some e), fs), ns', nd') \<and>
    (node_step S)\<^sup>*\<^sup>* nd nd' \<and> dom fs = set as \<and> (\<forall>a. has_session a nd' \<longleftrightarrow> a \<in> set as \<or> has_session a nd) \<and>
    (\<forall>a \<in> set as. \<exists>cf. fs a = Some cf \<and> runs_as_steps S a (has_session a) (session_refuses S a) (session_blocks a) cf)"
proof -
  obtain acc where acc: "sv_acceptor ns = Some acc" "as_host acc = ''''"
      "as_port acc = sc_Port (si_config info)"
    using NewServer_fields(1) [OF assms(1)] assms(5) by (auto simp: NewServer_port_def Acceptor_SetAddress_def)
  let ?acc = "(SetOnAccept (accept_handler ns) acc)\<lparr>as_listener := Some True\<rparr>"
  have "as_onAcceptFunc ?acc = Some (accept_handler ns)" by (simp add: SetOnAccept_def)
  from accept_loop_steps [OF assms(1) this assms(2-4)] obtain fs nd' where
      "accept_loop ?acc (map Accepted as @ [AcceptError e]) Map.empty nd = Some ((Some (Some e), fs), nd')"
      "(node_step S)\<^sup>*\<^sup>* nd nd'" "\<forall>a. fs a = (if a \<in> set as then Some (server_funcs ns a) else None)"
      "\<forall>a. has_session a nd' \<longleftrightarrow> a \<in> set as \<or> has_session a nd" by metis
  moreover have "runs_as_steps S a (has_session a) (session_refuses S a) (session_blocks a) (server_funcs ns a)" for a
    unfolding server_funcs_def by (rule server_funcs_run [OF assms(1)])
  ultimately show ?thesis by (auto simp: Server_Start_def Acceptor_Start_def acc dom_def SetOnAccept_def assms(6) [simplified])
qed

section \<open>The callbacks of a client's connection\<close>

lemma cli_handle_enter: "cli_handle S sid i d (enter a nd) = map_option (enter a) (cli_handle S sid i d nd)"
  by (auto simp: cli_handle_def enter_def set_client_def Let_def split: option.splits bind_splits)

lemma cli_handle_keeps_net:
  assumes "cli_handle S sid i d nd = Some nd'"
  shows "cn_net (nd_cn nd') = cn_net (nd_cn nd) \<and> nd_handling nd' = nd_handling nd"
  using assms by (auto simp: cli_handle_def bind_eq_Some_conv Let_def dest: cn_OnMessage_keeps split: if_splits)

lemma client_handles:
  assumes "nc_onMessage cli = Some (cli_OnMessage S sid)"
  shows "handles S a (has_client a sid) (client_refuses S sid) (client_onMessage cli)"
  unfolding handles_def
proof (intro allI impI)
  fix nd :: "'a node" and i d p
  assume own: "has_client a sid nd" and nx: "Next (nd_splitter nd a) = Some ((i, d, True), p)"
  let ?p = "set_splitter a p nd"
  have run: "client_onMessage cli i d ?p = map_option (Pair None) (cli_handle S sid i d ?p)"
    by (simp add: client_onMessage_def assms cli_OnMessage_def)
  show "case client_onMessage cli i d ?p of None \<Rightarrow> client_refuses S sid i d ?p
      | Some (err, nd') \<Rightarrow> node_step S (enter a nd) (enter a nd') \<and> has_client a sid nd' \<and> nd_handling nd' = nd_handling nd \<and>
          nd_splitter nd' a = p"
  proof (cases "cli_handle S sid i d ?p")
    case None
    then show ?thesis unfolding run by (simp add: client_refuses_def)
  next
    case (Some nd')
    then have "cli_handle S sid i d (set_splitter a p (enter a nd)) = Some (enter a nd')" by (simp add: cli_handle_enter)
    with own nx have "node_step S (enter a nd) (enter a nd')"
      by (intro node_step.frame_client [of a _ sid]) (simp_all add: has_client_def)
    with cli_handle_keeps_net [OF Some] own show ?thesis
      unfolding run Some by (simp add: has_client_def set_splitter_def set_net_def)
  qed
qed

definition client_funcs :: "'p netClient \<Rightarrow> nat \<Rightarrow> 'p conn_funcs" where
  "client_funcs cli a = \<lparr>onDisconnectFunc = Some (call_unless_nil (nc_onDisconnect cli)),
     onDataFunc = Some (on_data a (client_onMessage cli))\<rparr>"

lemma client_funcs_run:
  assumes "nc_onMessage cli = Some (cli_OnMessage S sid)" and "nc_onDisconnect cli = Some (cli_OnDisconnect sid)"
  shows "runs_as_steps S a (has_client a sid) (client_refuses S sid) (client_blocks sid) (client_funcs cli a)"
  unfolding runs_as_steps_def client_funcs_def
proof (intro exI conjI allI impI)
  show "data_steps S a (client_refuses S sid) (on_data a (client_onMessage cli)) nd" if "has_client a sid nd" for nd
    using that by (intro on_data_steps [OF client_handles [OF assms(1)]]) (simp add: has_client_def)
  show "case call_unless_nil (nc_onDisconnect cli) (callback_ran a c nd) of None \<Rightarrow> client_blocks sid (callback_ran a c nd)
      | Some nd' \<Rightarrow> node_step S nd nd'"
    if own: "has_client a sid nd" and c: "nd_conns nd a = Some c" "cs_receiver c = RCallback" for nd c
    using node_step.lost_client [OF c] own
    by (auto simp: call_unless_nil_def assms(2) cli_OnDisconnect_def callback_ran_def has_client_def client_blocks_def
        split: option.split bind_split)
qed simp_all

section \<open>Main theorem: the client\<close>

text \<open>
  C31. The wiring of a client. An attempt to connect dials the address configured for the system, its
  host and port. If that succeeds the new connection is the client's, both its callbacks are set, and
  the attempt and whatever the callbacks do later are steps of the node; a callback has no result
  only where the node's own handler has none (a panic or a full channel), for buffers below 2^32
  bytes. If it fails the error is returned, no connection exists, and but for the pointer to the
  unconnected client, which the next attempt replaces before anything reads it, the node is where a
  failed dial leaves it.
\<close>

theorem client_callbacks_are_steps:
  assumes "cn_systemInfos (nd_cn nd) sid = Some info" and "nd_clients nd sid = Some cl" and "cl_pc cl = CDial"
    and "nd_conns nd a = None"
  shows "case dial ''tcp'' (sc_Host (si_config info) @ '':'' @ show_int (uint (sc_Port (si_config info)))) of
      None \<Rightarrow> \<exists>cli co nd'. client_attempt S sid a dial nd = Some (None, cli, nd') \<and> nc_connector cli = Some co \<and>
        has_client a sid nd' \<and>
        node_step S nd (set_client sid (cl\<lparr>cl_disconnectChan := None, cl_cli := Some a, cl_pc := CRegister\<rparr>) nd') \<and>
        runs_as_steps S a (has_client a sid) (client_refuses S sid) (client_blocks sid) (co_funcs co)
    | Some e \<Rightarrow> \<exists>cli nd'. client_attempt S sid a dial nd = Some (Some e, cli, nd') \<and> nd_conns nd' a = None \<and>
        node_step S nd (set_client sid (cl\<lparr>cl_disconnectChan := None, cl_cli := None\<rparr>) nd')"
proof -
  obtain c where c: "newConn = Some c" using newConn_returns by blast
  let ?addr = "sc_Host (si_config info) @ '':'' @ show_int (uint (sc_Port (si_config info)))"
  let ?cl = "cl\<lparr>cl_disconnectChan := None, cl_cli := Some a\<rparr>"
  let ?co0 = "\<lparr>co_onConnectFunc = None, co_conn = a, co_socket = c, co_funcs = no_funcs,
    co_host = sc_Host (si_config info), co_port = sc_Port (si_config info)\<rparr>"
  let ?cli = "\<lparr>nc_connector = Some ?co0, nc_onConnect = Some cli_OnConnect, nc_onDisconnect = Some (cli_OnDisconnect sid),
    nc_onMessage = Some (cli_OnMessage S sid)\<rparr>"
  let ?co = "?co0\<lparr>co_onConnectFunc := Some (call_unless_nil (Some cli_OnConnect)), co_funcs := client_funcs ?cli a\<rparr>"
  obtain n where n: "dial_conn a sid (cn_net (nd_cn nd)) = Some n" by (auto simp: dial_conn_def c)
  note wiring = client_attempt_def assms(1,2) NewConnector_def c Connector_SetAddress_def SetConnector_def NewNetClient_def
    Client_SetOnConnect_def Client_SetOnDisconnect_def Client_SetOnMessage_def Client_Connect_def Connector_SetOnConnect_def
    Conn_SetOnDisconnect_def Conn_SetOnData_def Connector_Connect_def no_funcs_def
  have twice: "set_client sid x (set_client sid y z) = set_client sid x z" for x y and z :: "'a node" by (simp add: set_client_def)
  show ?thesis
  proof (cases "dial ''tcp'' ?addr")
    case None
    have 1: "client_attempt S sid a dial nd = Some (None, ?cli\<lparr>nc_connector := Some ?co\<rparr>, set_client sid ?cl (set_net n nd))"
      using n None by (auto simp: wiring call_unless_nil_def cli_OnConnect_def client_funcs_def dial_conn_def
          set_client_def set_net_def set_conn_def)
    have 2: "node_step S nd (set_client sid (cl\<lparr>cl_disconnectChan := None, cl_cli := Some a, cl_pc := CRegister\<rparr>) (set_net n nd))"
      by (rule node_step.client [OF assms(2)], rule client_step.dialled [OF assms(3,4) n])
    have 3: "has_client a sid (set_client sid ?cl (set_net n nd))" using n by (auto simp: has_client_def dial_conn_def c)
    have 4: "runs_as_steps S a (has_client a sid) (client_refuses S sid) (client_blocks sid) (client_funcs ?cli a)"
      by (rule client_funcs_run) simp_all
    show ?thesis
      unfolding None option.case by (intro exI conjI, rule 1, simp, rule 3, unfold twice, rule 2, use 4 in simp)
  next
    case (Some e)
    then have 5: "\<exists>cli. client_attempt S sid a dial nd = Some (Some e, cli, set_client sid ?cl nd)" by (simp add: wiring)
    have 6: "node_step S nd (set_client sid (cl\<lparr>cl_disconnectChan := None, cl_cli := None\<rparr>) nd)"
      by (rule node_step.client [OF assms(2)], rule client_step.dial_failed [OF assms(3)])
    from 5 6 assms(4) show ?thesis unfolding Some option.case by (metis twice view_simps(12))
  qed
qed

section \<open>Witnesses\<close>

lemma show_port: "show_int 8001 = ''8001''"
  by (simp add: show_int_def show_nat.simps digit_def char_of_def bit_0)

theorem server_callbacks_are_steps_witness:
  "\<exists>(nd :: bytes node) ns fs ns' nd'. node_reachable (reg_system 1 2) nd \<and> NewServer (reg_system 1 2) (nd_cn nd) = Some ns \<and>
     Server_Start (\<lambda>(net :: string) addr. if addr = '':8001'' then None else Some ''in use'') [Accepted 4, Accepted 7, AcceptError ''closed''] ns nd = Some ((Some (Some ''closed''), fs), ns', nd') \<and>
     (node_step (reg_system 1 2))\<^sup>*\<^sup>* nd nd' \<and> dom fs = {4, 7} \<and> (\<exists>cf. fs 7 = Some cf \<and> runs_as_steps (reg_system 1 2) 7 (has_session 7) (session_refuses (reg_system 1 2) 7) (session_blocks 7) cf)"
proof -
  let ?S = "reg_system 1 2" and ?cn = "(NewClusterNet (demo_cluster 1) :: bytes clusterNet)\<lparr>cn_connectedSystemCount := 1\<rparr>"
  let ?nd = "\<lparr>nd_cn = ?cn, nd_clients = Map.empty, nd_handling = {}\<rparr>"
  have r: "node_reachable ?S ?nd" by (rule node_reachable.started [OF demo_server_start])
  have starts: "starts_server (nd_cn ?nd)"
    using NewClusterNet_index [OF demo_node_of(1), where 'a = bytes] demo_count [of 1, where 'a = bytes]
    by (simp add: starts_server_def)
  have "\<exists>info. cn_systemInfos ?cn 1 = Some info"
    using NewClusterNet_info [OF demo_node_of(1), of 0, where 'a = bytes] by (simp add: demo_cluster_def)
  then obtain ns where ns: "NewServer ?S (nd_cn ?nd) = Some ns"
    by (auto simp: NewServer_def NewServer_port_def Let_def) (simp add: demo_cluster_def)
  let ?listen = "\<lambda>(net :: string) addr. if addr = '':8001'' then None else Some ''in use''"
  obtain info where info: "cn_systemInfos (nd_cn ?nd) (cc_LocalSystemId (sy_config ?S)) = Some info"
      "si_config info = cc_SystemConfigs (demo_cluster 1) ! 0"
    using NewClusterNet_info [OF demo_node_of(1), of 0, where 'a = bytes] by (simp add: demo_cluster_def)
  then have listen: "?listen ''tcp'' ('':'' @ show_int (uint (sc_Port (si_config info)))) = None"
    by (simp add: demo_cluster_def show_port)
  have free: "\<forall>a \<in> set [4, 7]. nd_conns ?nd a = None" by (simp add: NewClusterNet_def case_prod_beta new_net_def)
  have distinct: "distinct [4, 7 :: nat]" by simp
  from server_callbacks_are_steps [OF ns starts distinct free info(1), where listen = ?listen, OF listen, of "''closed''"] obtain fs ns' nd' where
      "Server_Start ?listen (map Accepted [4, 7] @ [AcceptError ''closed'']) ns ?nd = Some ((Some (Some ''closed''), fs), ns', nd')"
      "(node_step ?S)\<^sup>*\<^sup>* ?nd nd'" "dom fs = set [4, 7]" "\<forall>a \<in> set [4, 7]. \<exists>cf. fs a = Some cf \<and> runs_as_steps ?S a (has_session a) (session_refuses ?S a) (session_blocks a) cf"
    by blast
  with r ns show ?thesis by (intro exI [of _ ?nd] exI [of _ ns] exI [of _ fs] exI [of _ ns'] exI [of _ nd']) simp
qed

theorem client_callbacks_are_steps_witness:
  "\<exists>(nd :: bytes node) cli co nd'. node_reachable (reg_system 2 2) nd \<and>
     client_attempt (reg_system 2 2) 1 0 (\<lambda>(net :: string) addr. if addr = ''localhost:8001'' then None else Some ''refused'') nd =
       Some (None, cli, nd') \<and> nc_connector cli = Some co \<and> has_client 0 1 nd' \<and>
     runs_as_steps (reg_system 2 2) 0 (has_client 0 1) (client_refuses (reg_system 2 2) 1) (client_blocks 1) (co_funcs co)"
proof -
  let ?S = "reg_system 2 2" and ?cn = "(NewClusterNet (demo_cluster 2) :: bytes clusterNet)\<lparr>cn_connectedSystemCount := 1\<rparr>"
    and ?dial = "\<lambda>(net :: string) addr. if addr = ''localhost:8001'' then None else Some ''refused''"
  let ?nd = "\<lparr>nd_cn = ?cn, nd_clients = [1 \<mapsto> NewClusterClient], nd_handling = {}\<rparr>"
  have r: "node_reachable ?S ?nd" by (rule node_reachable.started [OF demo_client_start])
  obtain info where info: "cn_systemInfos (nd_cn ?nd) 1 = Some info" "si_config info = cc_SystemConfigs (demo_cluster 2) ! 0"
    using NewClusterNet_info [OF demo_node_of(2), of 0, where 'a = bytes] by (simp add: demo_cluster_def)
  have cl: "nd_clients ?nd 1 = Some NewClusterClient" "cl_pc NewClusterClient = CDial" by (simp_all add: NewClusterClient_def)
  have free: "nd_conns ?nd 0 = None" by (simp add: NewClusterNet_def case_prod_beta new_net_def)
  have "?dial ''tcp'' (sc_Host (si_config info) @ '':'' @ show_int (uint (sc_Port (si_config info)))) = None"
    using info(2) by (simp add: demo_cluster_def show_port)
  with client_callbacks_are_steps [OF info(1) cl free, where dial = ?dial and S = ?S] obtain cli co nd' where
      "client_attempt ?S 1 0 ?dial ?nd = Some (None, cli, nd')" "nc_connector cli = Some co" "has_client 0 1 nd'"
      "runs_as_steps ?S 0 (has_client 0 1) (client_refuses ?S 1) (client_blocks 1) (co_funcs co)"
    by auto
  with r show ?thesis by blast
qed

section \<open>The same loop as in \<open>Packet\<close>\<close>

text \<open>
  A handler that does not look at splitters: then \<open>frames_loop\<close> is \<open>OnData_loop\<close>, whose results hold for it.
\<close>

lemma frames_loop_OnData_loop:
  assumes "\<And>i d nd q. h i d (set_splitter a q nd) = map_option (apsnd (set_splitter a q)) (h i d nd)"
    and "length (ps_buf p) < 2 ^ 32"
  shows "frames_loop a h (set_splitter a p nd) =
    map_option (\<lambda>(q, nd'). set_splitter a q nd') (OnData_loop (\<lambda>(i, d) nd. map_option snd (h i d nd)) p nd)"
  using assms(2)
proof (induction "length (ps_buf p)" arbitrary: p nd rule: less_induct)
  case less
  let ?g = "\<lambda>(i, d) nd. map_option snd (h i d nd)"
  consider "Next p = None" | i d p' where "Next p = Some ((i, d, False), p')" | i d p' where "Next p = Some ((i, d, True), p')"
    by (cases "Next p") (auto, metis)
  then show ?case
  proof cases
    case (3 i d p')
    from Next_frame_inverse [OF 3 less.prems] have "length (ps_buf p') < length (ps_buf p)"
      by (simp add: length_frame PacketHeaderSize_def)
    with less have IH: "frames_loop a h (set_splitter a p' nd) =
        map_option (\<lambda>(q, nd'). set_splitter a q nd') (OnData_loop ?g p' nd)" for nd by simp
    show ?thesis
      by (cases "h i d nd") (auto simp: frames_loop_unfold [of a h "set_splitter a p nd"] OnData_loop_unfold [of ?g p nd] 3 assms(1) IH)
  qed (simp_all add: frames_loop_unfold [of a h "set_splitter a p nd"] OnData_loop_unfold [of ?g p nd])
qed

text \<open>The server's and the client's handlers are such.\<close>

lemma server_loop_is_OnData_loop:
  assumes "NewServer S cn0 = Some ns" and "length (ps_buf p) < 2 ^ 32"
  shows "frames_loop a (run_onMessage ns a) (set_splitter a p nd) =
    map_option (\<lambda>(q, nd'). set_splitter a q nd') (OnData_loop (\<lambda>(i, d) nd. map_option snd (run_onMessage ns a i d nd)) p nd)"
proof (rule frames_loop_OnData_loop [OF _ assms(2)])
  fix i d q and nd :: "'a node"
  have run: "run_onMessage ns a i d nd = map_option (\<lambda>(err, cn). (err, nd\<lparr>nd_cn := cn\<rparr>)) (svr_handle S a i d (nd_cn nd))" for nd
    using NewServer_fields(4) [OF assms(1)] by (auto simp: run_onMessage_def split: bind_split)
  show "run_onMessage ns a i d (set_splitter a q nd) = map_option (apsnd (set_splitter a q)) (run_onMessage ns a i d nd)"
    using svr_handle_keeps_splitters [of S a i d "nd_cn nd"]
    by (cases "svr_handle S a i d (nd_cn nd)") (auto simp: run set_splitter_cn svr_handle_splitters)
qed

lemma client_loop_is_OnData_loop:
  assumes "nc_onMessage cli = Some (cli_OnMessage S sid)" and "length (ps_buf p) < 2 ^ 32"
  shows "frames_loop a (client_onMessage cli) (set_splitter a p nd) =
    map_option (\<lambda>(q, nd'). set_splitter a q nd') (OnData_loop (\<lambda>(i, d) nd. map_option snd (client_onMessage cli i d nd)) p nd)"
proof (rule frames_loop_OnData_loop [OF _ assms(2)])
  fix i d q and nd :: "'a node"
  show "client_onMessage cli i d (set_splitter a q nd) = map_option (apsnd (set_splitter a q)) (client_onMessage cli i d nd)"
    by (auto simp: client_onMessage_def assms(1) cli_OnMessage_def cli_handle_def set_splitter_cn cn_OnMessage_splitters set_client_def
        Let_def cn_splitters_commute with_splitters_def cn_OnMessage_def split: option.split bind_split)
qed

end
