(* ===== verification/Link_Delivery.thy ===== *)
theory Link_Delivery
  imports Registration_Demo Framing_Total "HOL-Library.Sublist"
begin

text \<open>
  Two nodes and the TCP connection between them. The sending node, the receiving node and the network
  move independently; each node is the whole node of \<open>Registration\<close>, with all its goroutines. What
  one connection contributes to a node is extracted from the node's steps first: the packets it
  accepts, and the reception of a stream as a state machine of its own (\<open>rx_step\<close>).
\<close>

section \<open>Packets accepted\<close>

text \<open>
  Between \<open>n\<close> and \<open>n'\<close> the connections have accepted frames of messages only; nothing was received.
\<close>

definition net_out :: "net \<Rightarrow> net \<Rightarrow> bool" where
  "net_out n n' \<longleftrightarrow>
     (\<forall>a c. nt_conns n a = Some c \<longrightarrow> nt_splitters n' a = nt_splitters n a \<and>
        (\<exists>c' ms. nt_conns n' a = Some c' \<and> cs_read c' = cs_read c \<and>
           cs_accepted c' = cs_accepted c @ map frame ms \<and> (\<forall>m \<in> set ms. fst m \<le> MaxMsgId)))"

lemma net_outD:
  assumes "net_out n n'" and "nt_conns n a = Some c"
  obtains c' ms where "nt_splitters n' a = nt_splitters n a" and "nt_conns n' a = Some c'" and "cs_read c' = cs_read c"
    and "cs_accepted c' = cs_accepted c @ map frame ms" and "\<forall>m \<in> set ms. fst m \<le> MaxMsgId"
  using assms unfolding net_out_def by blast

lemma net_out_same:
  assumes "\<And>a c. nt_conns n a = Some c \<Longrightarrow> nt_conns n' a = Some c \<and> nt_splitters n' a = nt_splitters n a"
  shows "net_out n n'"
  using assms by (auto simp: net_out_def intro!: exI [of _ "[]"])

lemma net_out_refl: "nt_splitters n' = nt_splitters n \<Longrightarrow> nt_conns n' = nt_conns n \<Longrightarrow> net_out n n'"
  by (rule net_out_same) simp

lemma net_out_trans:
  assumes "net_out n n'" and "net_out n' n''"
  shows "net_out n n''"
  unfolding net_out_def
proof (intro allI impI)
  fix a c assume "nt_conns n a = Some c"
  then obtain c' ms where 1: "nt_splitters n' a = nt_splitters n a" "nt_conns n' a = Some c'" "cs_read c' = cs_read c"
      "cs_accepted c' = cs_accepted c @ map frame ms" "\<forall>m \<in> set ms. fst m \<le> MaxMsgId"
    using net_outD [OF assms(1)] by metis
  obtain c'' ms' where 2: "nt_splitters n'' a = nt_splitters n' a" "nt_conns n'' a = Some c''" "cs_read c'' = cs_read c'"
      "cs_accepted c'' = cs_accepted c' @ map frame ms'" "\<forall>m \<in> set ms'. fst m \<le> MaxMsgId"
    using net_outD [OF assms(2) 1(2)] by metis
  with 1 show "nt_splitters n'' a = nt_splitters n a \<and> (\<exists>d ns. nt_conns n'' a = Some d \<and> cs_read d = cs_read c \<and>
      cs_accepted d = cs_accepted c @ map frame ns \<and> (\<forall>m \<in> set ns. fst m \<le> MaxMsgId))"
    by (intro conjI exI [of _ c''] exI [of _ "ms @ ms'"]) auto
qed

lemma net_out_upd:
  assumes "nt_conns n a = Some c" and "cs_read c' = cs_read c" and "cs_accepted c' = cs_accepted c @ map frame ms"
    and "\<forall>m \<in> set ms. fst m \<le> MaxMsgId" and "nt_conns n' = (nt_conns n)(a \<mapsto> c')" and "nt_splitters n' = nt_splitters n"
  shows "net_out n n'"
  unfolding net_out_def
proof (intro allI impI conjI)
  fix b d assume "nt_conns n b = Some d"
  show "nt_splitters n' b = nt_splitters n b" using assms(6) by simp
  show "\<exists>d' ns. nt_conns n' b = Some d' \<and> cs_read d' = cs_read d \<and> cs_accepted d' = cs_accepted d @ map frame ns \<and>
      (\<forall>m \<in> set ns. fst m \<le> MaxMsgId)"
  proof (cases "b = a")
    case True
    with assms \<open>nt_conns n b = Some d\<close> show ?thesis by auto
  next
    case False
    with assms(5) \<open>nt_conns n b = Some d\<close> show ?thesis by (intro exI [of _ d] exI [of _ "[]"]) simp
  qed
qed

lemma net_SendMessage_out:
  assumes "net_SendMessage a msgId data n = Some (err, n')"
  shows "net_out n n'"
proof (cases "msgId \<le> MaxMsgId")
  case True
  with assms obtain c q where c: "nt_conns n a = Some c"
      "n' = n\<lparr>nt_conns := (nt_conns n)(a \<mapsto> c\<lparr>cs_q := q, cs_accepted := cs_accepted c @ (if err = None then [frame (msgId, data)] else [])\<rparr>)\<rparr>"
    unfolding net_SendMessage_def PackMessage_frame [OF True] net_SendData_def SendData_def by (fastforce simp: bind_eq_Some_conv)
  show ?thesis
    by (rule net_out_upd [OF c(1), where ms = "if err = None then [(msgId, data)] else []"]) (use True c(2) in auto)
next
  case False
  then obtain e where "PackMessage msgId data = Inl e" using PackMessage_too_large [of msgId data] by (auto simp: not_le)
  with assms show ?thesis by (auto simp: net_SendMessage_def intro: net_out_refl)
qed

lemma net_Disconnect_out:
  assumes "net_Disconnect a n = Some (err, n')"
  shows "net_out n n'"
proof -
  from assms obtain c q where c: "nt_conns n a = Some c" "n' = n\<lparr>nt_conns := (nt_conns n)(a \<mapsto> c\<lparr>cs_q := q\<rparr>)\<rparr>"
    by (auto simp: net_Disconnect_def Conn_Disconnect_def bind_eq_Some_conv)
  show ?thesis by (rule net_out_upd [OF c(1), where ms = "[]"]) (use c(2) in auto)
qed

lemma Session_Close_out:
  assumes "Session_Close a n = Some (err, n')"
  shows "net_out n n'"
proof -
  from assms consider "n' = n" | b m s where "net_Disconnect b n = Some (err, m)" "n' = m\<lparr>nt_sessions := s\<rparr>"
    by (auto simp: Session_Close_def bind_eq_Some_conv split: option.splits)
  then show ?thesis
  proof cases
    case (2 b m s)
    then show ?thesis using net_out_trans [OF net_Disconnect_out [OF 2(1)] net_out_refl [of n' m]] by simp
  qed (simp add: net_out_refl)
qed

lemma SetBindObject_out: "SetBindObject a b n = Some n' \<Longrightarrow> net_out n n'"
  by (auto simp: SetBindObject_def bind_eq_Some_conv intro!: net_out_refl)

text \<open>The same for the operations of the cluster net, with the envelopes they route.\<close>

definition cn_out :: "'p clusterNet \<Rightarrow> 'p envelope list \<Rightarrow> 'p clusterNet \<Rightarrow> bool" where
  "cn_out cn es cn' \<longleftrightarrow> net_out (cn_net cn) (cn_net cn') \<and> cn_routed cn' = cn_routed cn @ es"

lemma cn_out_same: "net_out (cn_net cn) (cn_net cn') \<Longrightarrow> cn_routed cn' = cn_routed cn \<Longrightarrow> cn_out cn [] cn'"
  by (simp add: cn_out_def)

lemma cn_out_then:
  "cn_out cn es cn' \<Longrightarrow> net_out (cn_net cn') n \<Longrightarrow> cn_out cn es (cn'\<lparr>cn_net := n\<rparr>)"
  by (auto simp: cn_out_def intro: net_out_trans)

lemma Send_out:
  assumes "Send S sid e cn = Some (err, cn')"
  shows "cn_out cn [] cn'"
  using Send_sends [OF assms] net_SendMessage_out
  by (auto simp: doSend_def bind_eq_Some_conv Let_def net_out_refl intro!: cn_out_same split: if_splits option.splits)

lemma svr_OnDisconnect_out:
  assumes "svr_OnDisconnect a cn = Some cn'"
  shows "cn_out cn [] cn'"
proof -
  from assms consider "cn' = cn" | n sid f where "SetBindObject a None (cn_net cn) = Some n"
      "cn' = add_connected (-1) (upd_info sid f (cn\<lparr>cn_net := n\<rparr>))"
    by (auto simp: svr_OnDisconnect_def bind_eq_Some_conv Let_def split: option.splits if_splits)
  then show ?thesis by cases (auto intro!: cn_out_same intro: net_out_refl SetBindObject_out)
qed

lemma svr_disconnected_out:
  assumes "svr_disconnected a cn = Some cn'"
  shows "cn_out cn [] cn'"
proof -
  from assms obtain cn1 m where "svr_OnDisconnect a cn = Some cn1" "cn' = cn1\<lparr>cn_net := (cn_net cn1)\<lparr>nt_mgr := m\<rparr>\<rparr>"
    by (auto simp: svr_disconnected_def bind_eq_Some_conv)
  then show ?thesis using cn_out_then [OF svr_OnDisconnect_out, of a cn cn1 "(cn_net cn1)\<lparr>nt_mgr := m\<rparr>"]
    by (simp add: net_out_refl)
qed

lemma svr_register_out:
  assumes "svr_register S a sid cn = Some (err, cn')"
  shows "cn_out cn [] cn'"
proof (cases "\<exists>info. cn_systemInfos cn sid = Some info \<and> \<not> si_passive info \<and> si_session info = None")
  case True
  then obtain info where i: "cn_systemInfos cn sid = Some info" "\<not> si_passive info" "si_session info = None" by blast
  with assms obtain n where n: "SetBindObject a (Some sid) (cn_net cn) = Some n"
    by (auto simp: svr_register_def bind_eq_Some_conv)
  let ?cn = "add_connected 1 (upd_info sid (\<lambda>info. info\<lparr>si_session := Some a\<rparr>) (cn\<lparr>cn_net := n\<rparr>))"
  have "cn_out cn [] ?cn" using SetBindObject_out [OF n] by (intro cn_out_same) simp_all
  with assms i n net_SendMessage_out [of a _ _ n] show ?thesis
    by (auto simp: svr_register_def bind_eq_Some_conv Let_def split: option.splits intro!: cn_out_then)
next
  case False
  with assms show ?thesis by (auto simp: svr_register_def net_out_refl split: option.splits if_splits intro!: cn_out_same)
qed


text \<open>The envelopes that the message \<open>m\<close> makes the cluster net route.\<close>

definition routed_of :: "'p system \<Rightarrow> u32 \<times> bytes \<Rightarrow> 'p envelope list" where
  "routed_of S m =
     (case OnMessage (sy_api S) (sy_proto S) (sy_registry S) (fst m) (snd m) of Some (err, es) \<Rightarrow> es | None \<Rightarrow> [])"

lemma routed_of_registration [simp]:
  "routed_of S (PkgTypeRegisterSystemReq, d) = []" "routed_of S (PkgTypeRegisterSystemRsp, d) = []"
  by (simp_all add: routed_of_def OnMessage_def pkg_types)

lemma cn_OnMessage_out:
  "cn_OnMessage S msgId data cn = Some (err, cn') \<Longrightarrow> cn_out cn (routed_of S (msgId, data)) cn'"
  by (auto simp: cn_OnMessage_def bind_eq_Some_conv cn_out_def routed_of_def net_out_refl)

lemma svr_handle_out:
  assumes "svr_handle S a msgId data cn = Some (err, cn')"
  shows "cn_out cn (routed_of S (msgId, data)) cn'"
proof -
  from assms obtain err1 cn1 where m: "svr_OnMessage S a msgId data cn = Some (err1, cn1)"
    by (auto simp: svr_handle_def bind_eq_Some_conv)
  have "cn_out cn (routed_of S (msgId, data)) cn1"
    using m svr_register_out [of S a _ cn err1 cn1] cn_OnMessage_out [of S msgId data cn err1 cn1]
    by (auto simp: svr_OnMessage_def cn_out_same net_out_refl split: if_splits option.splits pkg.splits)
  then show ?thesis
    using assms m Session_Close_out [of a "cn_net cn1"]
    by (auto simp: svr_handle_def bind_eq_Some_conv split: if_splits intro: cn_out_then)
qed

lemma cli_handle_out:
  assumes "cli_handle S sid msgId data nd = Some nd'"
  shows "cn_out (nd_cn nd) (routed_of S (msgId, data)) (nd_cn nd') \<and> nd_handling nd' = nd_handling nd"
  using assms cn_OnMessage_out [of S msgId data "nd_cn nd"]
  by (auto simp: cli_handle_def bind_eq_Some_conv Let_def cn_out_same net_out_refl split: if_splits)

lemma client_step_out:
  assumes "client_step S sid cl nd nd'"
  shows "cn_out (nd_cn nd) [] (nd_cn nd') \<and> nd_handling nd' = nd_handling nd"
  using assms
proof cases
  case (dialled a n)
  from dialled(3,4) have "net_out (cn_net (nd_cn nd)) n"
    by (auto simp: dial_conn_def bind_eq_Some_conv intro!: net_out_same)
  with dialled(1) show ?thesis by (auto simp: set_net_def intro!: cn_out_same)
next
  case (request_sent a n)
  with net_SendMessage_out [OF request_sent(4)] show ?thesis by (auto simp: set_net_def intro!: cn_out_same)
next
  case (request_failed a err n derr n')
  from net_out_trans [OF net_SendMessage_out [OF request_failed(4)] net_Disconnect_out [OF request_failed(5)]] request_failed(1)
  show ?thesis by (auto simp: set_net_def intro!: cn_out_same)
next
  case (select_refused a derr n)
  with net_Disconnect_out [OF select_refused(5)] show ?thesis by (auto simp: set_net_def intro!: cn_out_same)
qed (auto simp: net_out_refl intro!: cn_out_same)

section \<open>Reception of a stream\<close>

text \<open>
  What a node's step does to the reception of one connection: a chunk is read, a frame is handled, the
  loop over the frames ends, or other goroutines of the node route something.
\<close>

record 'p reception =
  rx_read :: "bytes list"
  rx_splitter :: PacketSplitter
  rx_handling :: bool
  rx_routed :: "'p envelope list"

inductive rx_step :: "'p system \<Rightarrow> 'p reception \<Rightarrow> 'p reception \<Rightarrow> bool" for S v where
  chunk: "\<not> rx_handling v \<Longrightarrow>
    rx_step S v (v\<lparr>rx_read := rx_read v @ [ch], rx_splitter := Append ch (rx_splitter v), rx_handling := True\<rparr>)"
| frame: "rx_handling v \<Longrightarrow> Next (rx_splitter v) = Some ((i, d, True), p) \<Longrightarrow>
    rx_step S v (v\<lparr>rx_splitter := p, rx_routed := rx_routed v @ routed_of S (i, d)\<rparr>)"
| finish: "rx_handling v \<Longrightarrow> Next (rx_splitter v) = Some ((i, d, False), p) \<Longrightarrow>
    rx_step S v (v\<lparr>rx_splitter := p, rx_handling := False\<rparr>)"
| other: "rx_step S v (v\<lparr>rx_routed := rx_routed v @ es\<rparr>)"

definition reception :: "nat \<Rightarrow> ConnSocket \<Rightarrow> 'p node \<Rightarrow> 'p reception" where
  "reception b c nd = \<lparr>rx_read = cs_read c, rx_splitter = nt_splitters (cn_net (nd_cn nd)) b,
     rx_handling = (b \<in> nd_handling nd), rx_routed = cn_routed (nd_cn nd)\<rparr>"

text \<open>
  What a step routes for the connection: whatever is added to the history of the node by a step that
  takes a frame out of the connection's splitter.
\<close>

definition rx_new :: "'p reception \<Rightarrow> 'p reception \<Rightarrow> 'p envelope list" where
  "rx_new v v' =
     (if length (ps_buf (rx_splitter v')) < length (ps_buf (rx_splitter v)) then drop (length (rx_routed v)) (rx_routed v') else [])"

definition routed_by :: "nat \<Rightarrow> 'p node \<Rightarrow> 'p node \<Rightarrow> 'p envelope list" where
  "routed_by b nd nd' =
     (if length (ps_buf (nt_splitters (cn_net (nd_cn nd')) b)) < length (ps_buf (nt_splitters (cn_net (nd_cn nd)) b))
      then drop (length (cn_routed (nd_cn nd))) (cn_routed (nd_cn nd')) else [])"

lemma routed_by_rx: "routed_by b nd nd' = rx_new (reception b c nd) (reception b c' nd')"
  by (simp add: routed_by_def rx_new_def reception_def)

text \<open>A step of the node as the connection \<open>b\<close> sees it, sending and receiving.\<close>

definition seen_by :: "'p system \<Rightarrow> nat \<Rightarrow> ConnSocket \<Rightarrow> 'p node \<Rightarrow> 'p node \<Rightarrow> bool" where
  "seen_by S b c nd nd' \<longleftrightarrow> (\<exists>c' ms. nd_conns nd' b = Some c' \<and> cs_accepted c' = cs_accepted c @ map frame ms \<and>
     (\<forall>m \<in> set ms. fst m \<le> MaxMsgId) \<and> rx_step S (reception b c nd) (reception b c' nd'))"

lemma cn_out_seen:
  assumes "cn_out (nd_cn nd) es (nd_cn nd')" and "nd_handling nd' = nd_handling nd" and "nd_conns nd b = Some c"
  shows "seen_by S b c nd nd'"
proof -
  from assms(1) have out: "net_out (cn_net (nd_cn nd)) (cn_net (nd_cn nd'))" and "cn_routed (nd_cn nd') = cn_routed (nd_cn nd) @ es"
    by (simp_all add: cn_out_def)
  moreover obtain c' ms where "nt_splitters (cn_net (nd_cn nd')) b = nt_splitters (cn_net (nd_cn nd)) b" "nd_conns nd' b = Some c'"
      "cs_read c' = cs_read c" "cs_accepted c' = cs_accepted c @ map frame ms" "\<forall>m \<in> set ms. fst m \<le> MaxMsgId"
    using net_outD [OF out assms(3)] by metis
  moreover from this have "reception b c' nd' = (reception b c nd)\<lparr>rx_routed := rx_routed (reception b c nd) @ es\<rparr>"
    using calculation(2) assms(2) by (simp add: reception_def)
  ultimately show ?thesis unfolding seen_by_def by (metis rx_step.other)
qed

lemma frame_seen:
  assumes "a \<in> nd_handling nd" and "Next (nt_splitters (cn_net (nd_cn nd)) a) = Some ((i, d, True), p)"
    and "cn_out (nd_cn (set_splitter a p nd)) (routed_of S (i, d)) (nd_cn nd')" and "nd_handling nd' = nd_handling nd"
    and "nd_conns nd b = Some c"
  shows "seen_by S b c nd nd'"
proof -
  let ?nd = "set_splitter a p nd"
  have c: "nd_conns ?nd b = Some c" using assms(5) by (simp add: set_splitter_def)
  from assms(3) have out: "net_out (cn_net (nd_cn ?nd)) (cn_net (nd_cn nd'))"
      and routed: "cn_routed (nd_cn nd') = cn_routed (nd_cn nd) @ routed_of S (i, d)"
    by (simp_all add: cn_out_def set_splitter_def set_net_def)
  obtain c' ms where c': "nt_splitters (cn_net (nd_cn nd')) b = nt_splitters (cn_net (nd_cn ?nd)) b" "nd_conns nd' b = Some c'"
      "cs_read c' = cs_read c" "cs_accepted c' = cs_accepted c @ map frame ms" "\<forall>m \<in> set ms. fst m \<le> MaxMsgId"
    using net_outD [OF out c] by metis
  have "rx_step S (reception b c nd) (reception b c' nd')"
  proof (cases "b = a")
    case True
    with c' routed assms(1,4) have "reception b c' nd' =
        (reception b c nd)\<lparr>rx_splitter := p, rx_routed := rx_routed (reception b c nd) @ routed_of S (i, d)\<rparr>"
      by (simp add: reception_def set_splitter_def)
    with rx_step.frame [of "reception b c nd" i d p S] True assms(1,2) show ?thesis by (simp add: reception_def)
  next
    case False
    with c' routed assms(4) have "reception b c' nd' =
        (reception b c nd)\<lparr>rx_routed := rx_routed (reception b c nd) @ routed_of S (i, d)\<rparr>"
      by (simp add: reception_def set_splitter_def)
    then show ?thesis using rx_step.other by metis
  qed
  with c' show ?thesis unfolding seen_by_def by blast
qed

lemma set_conn_out:
  assumes "nd_conns nd a = Some c" and "cs_read c' = cs_read c" and "cs_accepted c' = cs_accepted c"
  shows "cn_out (nd_cn nd) [] (nd_cn (set_conn a c' nd))"
  by (rule cn_out_same, rule net_out_upd [OF assms(1,2), where ms = "[]"]) (simp_all add: assms set_conn_def set_net_def)

lemma sender_step_same: "sender_step c c' \<Longrightarrow> cs_read c' = cs_read c \<and> cs_accepted c' = cs_accepted c"
  by (auto elim: sender_stepE)

lemma receiver_step_accepted: "receiver_step c c' \<Longrightarrow> cs_accepted c' = cs_accepted c"
  by (auto elim!: receiver_stepE simp: Conn_Disconnect_def bind_eq_Some_conv)

lemma node_step_seen:
  assumes "node_step S nd nd'" and b: "nd_conns nd b = Some c"
  shows "seen_by S b c nd nd'"
  using assms(1)
proof cases
  case (accept a n)
  then have "net_out (cn_net (nd_cn nd)) n"
    by (auto simp: accept_conn_def bind_eq_Some_conv NewSession_def Let_def intro!: net_out_same)
  with accept(1) have "cn_out (nd_cn nd) [] (nd_cn nd')" by (auto simp: set_net_def intro: cn_out_same)
  then show ?thesis using b accept(1) by (intro cn_out_seen [of _ "[]"]) (simp_all add: set_net_def)
next
  case (sender a d d')
  with sender_step_same [OF sender(3)] set_conn_out [OF sender(2), of d'] show ?thesis
    using b by (auto simp: set_conn_def set_net_def intro: cn_out_seen)
next
  case (chunk a d ch)
  show ?thesis
  proof (cases "b = a")
    case True
    with chunk b have "reception b (c\<lparr>cs_read := cs_read c @ [ch]\<rparr>) nd' = (reception b c nd)\<lparr>rx_read := rx_read (reception b c nd) @ [ch],
        rx_splitter := Append ch (rx_splitter (reception b c nd)), rx_handling := True\<rparr>"
      by (simp add: reception_def set_splitter_def set_conn_def set_net_def)
    moreover have "\<not> rx_handling (reception b c nd)" using True chunk(4) by (simp add: reception_def)
    moreover have "nd_conns nd' b = Some (c\<lparr>cs_read := cs_read c @ [ch]\<rparr>)"
      using True chunk b by (simp add: set_splitter_def set_conn_def)
    ultimately show ?thesis
      unfolding seen_by_def by (intro exI [of _ "c\<lparr>cs_read := cs_read c @ [ch]\<rparr>"] exI [of _ "[]"]) (simp add: rx_step.chunk)
  next
    case False
    with chunk b have "reception b c nd' = (reception b c nd)\<lparr>rx_routed := rx_routed (reception b c nd) @ []\<rparr>" "nd_conns nd' b = Some c"
      by (simp_all add: reception_def set_splitter_def set_conn_def set_net_def)
    then show ?thesis
      unfolding seen_by_def using rx_step.other [of S "reception b c nd" "[]"]
      by (intro exI [of _ c] exI [of _ "[]"]) (simp del: append_Nil2)
  qed
next
  case (frame_session a s msgId payload p err cn)
  then show ?thesis
    using svr_handle_out [OF frame_session(5)] b by (intro frame_seen [OF frame_session(2,4)]) simp_all
next
  case (frame_client a sid msgId payload p)
  then show ?thesis
    using cli_handle_out [OF frame_client(4)] b
    by (intro frame_seen [OF frame_client(1,3)]) (simp_all add: set_splitter_def set_net_def)
next
  case (frames_done a msgId payload p)
  have same: "nd_conns nd' b = Some c" using frames_done(1) b by (simp add: set_splitter_def)
  have "rx_step S (reception b c nd) (reception b c nd')"
  proof (cases "b = a")
    case True
    with frames_done have "reception b c nd' = (reception b c nd)\<lparr>rx_splitter := p, rx_handling := False\<rparr>"
      by (simp add: reception_def set_splitter_def set_net_def)
    with rx_step.finish [of "reception b c nd" msgId payload p S] True frames_done(2,3) show ?thesis by (simp add: reception_def)
  next
    case False
    with frames_done have "reception b c nd' = (reception b c nd)\<lparr>rx_routed := rx_routed (reception b c nd) @ []\<rparr>"
      by (simp add: reception_def set_splitter_def set_net_def)
    then show ?thesis using rx_step.other by metis
  qed
  with same show ?thesis unfolding seen_by_def by (intro exI [of _ c] exI [of _ "[]"]) simp
next
  case (receiver a d d')
  with receiver_step_accepted [OF receiver(5)] set_conn_out [OF receiver(2), of d'] show ?thesis
    using b by (auto simp: set_conn_def set_net_def intro: cn_out_seen)
next
  case (lost_session a d s cn)
  let ?nd = "set_conn a (d\<lparr>cs_callbacks := cs_callbacks d + 1, cs_receiver := RReturned\<rparr>) nd"
  have "cn_out (nd_cn nd) [] (nd_cn ?nd)" by (rule set_conn_out [OF lost_session(2)]) simp_all
  with svr_disconnected_out [OF lost_session(5)] have "cn_out (nd_cn nd) [] cn"
    by (auto simp: cn_out_def intro: net_out_trans)
  with lost_session(1) b show ?thesis by (intro cn_out_seen [of _ "[]"]) simp_all
next
  case (lost_client a d sid cl)
  let ?nd = "set_conn a (d\<lparr>cs_callbacks := cs_callbacks d + 1, cs_receiver := RReturned\<rparr>) nd"
  have "cn_out (nd_cn nd) [] (nd_cn ?nd)" by (rule set_conn_out [OF lost_client(2)]) simp_all
  with lost_client(1) b show ?thesis by (intro cn_out_seen [of _ "[]"]) (simp_all add: set_conn_def set_net_def)
next
  case (client sid cl)
  then show ?thesis using client_step_out b by (blast intro: cn_out_seen)
next
  case (send sid e err cn)
  with Send_out [OF send(2)] b show ?thesis by (intro cn_out_seen [of _ "[]"]) simp_all
qed

section \<open>Receiving what a peer sends\<close>

text \<open>
  \<open>ms\<close> are the messages the peer has accepted for sending: \<open>done\<close> have been handled, the splitter
  holds the beginning of the frames of \<open>left\<close>, and a proper part of a frame while the receiver is
  in \<open>Read\<close>.
\<close>

definition received :: "'p system \<Rightarrow> (u32 \<times> bytes) list \<Rightarrow> 'p reception \<Rightarrow> (u32 \<times> bytes) list \<Rightarrow> (u32 \<times> bytes) list \<Rightarrow> bool" where
  "received S ms v done left \<longleftrightarrow> ms = done @ left \<and>
     concat (rx_read v) = concat (map frame done) @ ps_buf (rx_splitter v) \<and>
     prefix (ps_buf (rx_splitter v)) (concat (map frame left)) \<and>
     (\<not> rx_handling v \<longrightarrow> pk.short left (rx_splitter v)) \<and>
     subseq (concat (map (routed_of S) done)) (rx_routed v)"

lemma frame_nonempty: "0 < length (frame m)"
  by (simp add: length_frame PacketHeaderSize_def)

lemma received_more:
  assumes "received S ms v done left"
  shows "received S (ms @ ns) v done (left @ ns)"
proof -
  have "pk.short (left @ ns) (rx_splitter v)" if "pk.short left (rx_splitter v)"
    using that frame_nonempty by (cases left; cases ns) (auto simp: pk.short_def)
  with assms show ?thesis by (auto simp: received_def intro: prefix_prefix)
qed

text \<open>The buffer never holds more than a frame and a chunk.\<close>

definition bounded :: "nat \<Rightarrow> (u32 \<times> bytes) list \<Rightarrow> bool" where
  "bounded bound ms \<longleftrightarrow> (\<forall>m \<in> set ms. fst m \<le> MaxMsgId \<and> length (frame m) \<le> bound)"

lemma bounded_fits: "bounded bound ms \<Longrightarrow> bound < 2 ^ 32 \<Longrightarrow> m \<in> set ms \<Longrightarrow> msg_fits m"
  by (fastforce simp: bounded_def msg_fits_def length_frame)

lemma short_bound:
  assumes "pk.short left p" and "bounded bound left"
  shows "length (ps_buf p) \<le> bound"
  using assms by (cases left) (auto simp: pk.short_def bounded_def)

text \<open>The buffer holds the next frame completely, or a proper part of it.\<close>

lemma next_frame_cases:
  assumes "prefix b (frame m @ rest)"
  obtains (full) r where "b = frame m @ r" | (part) r where "frame m = b @ r" and "r \<noteq> []"
  using assms unfolding prefix_append by (metis append_Nil2 prefixE)

lemma received_next:
  assumes rx: "received S ms v done (m # left)" and fits: "bounded bound ms" "bound < 2 ^ 32"
    and len: "length (ps_buf (rx_splitter v)) < 2 ^ 32"
  obtains (full) p where "Next (rx_splitter v) = Some ((fst m, snd m, True), p)" and "ps_buf (rx_splitter v) = frame m @ ps_buf p"
  | (part) "Next (rx_splitter v) = Some ((0, [], False), rx_splitter v)" and "pk.short (m # left) (rx_splitter v)"
proof -
  from rx fits have m: "msg_fits m" by (auto simp: received_def intro: bounded_fits)
  from rx have "prefix (ps_buf (rx_splitter v)) (frame m @ concat (map frame left))" by (simp add: received_def)
  then show ?thesis
  proof (cases rule: next_frame_cases)
    case (full r)
    from Next_frame [OF m full len] full show ?thesis by (intro that(1)) auto
  next
    case (part r)
    from Next_partial [OF m part] show ?thesis by (rule that(2)) (use part in \<open>simp add: pk.short_def\<close>)
  qed
qed

lemma received_nothing:
  assumes "received S ms v done []"
  shows "Next (rx_splitter v) = Some ((0, [], False), rx_splitter v)" and "pk.short [] (rx_splitter v)"
  using assms Next_empty by (auto simp: received_def pk.short_def)

section \<open>One step of the reception\<close>

lemma received_chunk:
  assumes rx: "received S ms v done left" and "\<not> rx_handling v"
    and "prefix (concat (rx_read v @ [ch])) (concat (map frame ms))"
  shows "received S ms (v\<lparr>rx_read := rx_read v @ [ch], rx_splitter := Append ch (rx_splitter v), rx_handling := True\<rparr>) done left"
  using assms by (auto simp: received_def Append_def)

lemma received_frame:
  assumes rx: "received S ms v done (m # left)" and "ps_buf (rx_splitter v) = frame m @ ps_buf p" and "rx_handling v"
  shows "received S ms (v\<lparr>rx_splitter := p, rx_routed := rx_routed v @ routed_of S m\<rparr>) (done @ [m]) left"
  using assms by (auto simp: received_def intro: list_emb_append_mono)

lemma received_other:
  "received S ms v done left \<Longrightarrow> received S ms (v\<lparr>rx_routed := rx_routed v @ es\<rparr>) done left"
  by (auto simp: received_def intro: subseq_rev_drop_many)

lemma received_step:
  assumes "rx_step S v v'" and rx: "received S ms v done left" and fits: "bounded bound ms"
    and small: "length (ps_buf (rx_splitter v)) \<le> bound + chunk" "bound + chunk < 2 ^ 32"
    and tcp: "prefix (concat (rx_read v')) (concat (map frame ms))" "\<forall>ch \<in> set (rx_read v'). length ch \<le> chunk"
  shows "\<exists>new left'. received S ms v' (done @ new) left' \<and> length (ps_buf (rx_splitter v')) \<le> bound + chunk \<and>
    rx_new v v' = concat (map (routed_of S) new)"
  using assms(1)
proof cases
  case (chunk ch)
  have "bounded bound left" using rx fits by (auto simp: received_def bounded_def)
  with rx chunk(2) have "length (ps_buf (rx_splitter v)) \<le> bound" by (auto simp: received_def intro: short_bound)
  with chunk tcp received_chunk [OF rx chunk(2), of ch] show ?thesis
    by (intro exI [of _ "[]"] exI [of _ left]) (auto simp: Append_def rx_new_def)
next
  case (frame i d p)
  have len: "length (ps_buf (rx_splitter v)) < 2 ^ 32" "bound < 2 ^ 32" using small by simp_all
  show ?thesis
  proof (cases left)
    case Nil
    with received_nothing [of S ms v "done"] rx frame(3) show ?thesis by simp
  next
    case (Cons m left')
    from rx [unfolded Cons] fits len(2,1) show ?thesis
    proof (cases rule: received_next)
      case (full p')
      with frame(3) have p: "p' = p" "m = (i, d)" by (auto simp: prod_eq_iff)
      with full(2) frame_nonempty [of m] have "rx_new v v' = routed_of S m"
        by (simp add: rx_new_def frame(1))
      with received_frame [OF rx [unfolded Cons] full(2) frame(2)] full(2) small(1) frame(1) p show ?thesis
        by (intro exI [of _ "[m]"] exI [of _ left']) auto
    next
      case part
      with frame(3) show ?thesis by simp
    qed
  qed
next
  case (finish i d p)
  have len: "length (ps_buf (rx_splitter v)) < 2 ^ 32" "bound < 2 ^ 32" using small by simp_all
  have short: "pk.short left (rx_splitter v)"
  proof (cases left)
    case Nil
    with rx received_nothing [of S ms v "done"] show ?thesis by simp
  next
    case (Cons m left')
    from rx [unfolded Cons] fits len(2,1) show ?thesis
      by (cases rule: received_next) (use finish(3) Cons in auto)
  qed
  moreover have "p = rx_splitter v" by (rule Next_stops [OF finish(3)])
  ultimately show ?thesis
    using rx finish(1) small(1) by (intro exI [of _ "[]"] exI [of _ left]) (auto simp: received_def rx_new_def)
next
  case (other es)
  with received_other [OF rx] small(1) show ?thesis
    by (intro exI [of _ "[]"] exI [of _ left]) (auto simp: rx_new_def)
qed

lemma rx_step_reads: "rx_step S v v' \<Longrightarrow> set (rx_read v) \<subseteq> set (rx_read v')"
  by (auto elim: rx_step.cases)

section \<open>Two nodes\<close>

text \<open>
  TCP from the connection at \<open>a\<close> of node \<open>A\<close> to the one at \<open>b\<close> of node \<open>B\<close>: what was read is a
  beginning of what was written. A pair of nodes starts when the connection between them is opened; then
  either takes a step of its own, of any of its goroutines, and TCP holds in the direction it reads.
  The list is a history: what \<open>B\<close> has routed while it handled frames of this connection.
\<close>

definition tcp :: "nat \<Rightarrow> nat \<Rightarrow> 'p node \<Rightarrow> 'p node \<Rightarrow> bool" where
  "tcp a b A B \<longleftrightarrow> (\<exists>c d. nd_conns A a = Some c \<and> nd_conns B b = Some d \<and> prefix (concat (cs_read d)) (cs_written c))"

definition opened :: "nat \<Rightarrow> 'p node \<Rightarrow> bool" where
  "opened a A \<longleftrightarrow> nd_conns A a = newConn \<and> nt_splitters (cn_net (nd_cn A)) a = ps_empty \<and> a \<notin> nd_handling A"

inductive link_reachable :: "'p system \<Rightarrow> 'p system \<Rightarrow> nat \<Rightarrow> nat \<Rightarrow> 'p node \<Rightarrow> 'p node \<Rightarrow> 'p envelope list \<Rightarrow> bool" for SA SB a b where
  open_link: "node_reachable SA A \<Longrightarrow> node_reachable SB B \<Longrightarrow> opened a A \<Longrightarrow> opened b B \<Longrightarrow> link_reachable SA SB a b A B []"
| step_left: "link_reachable SA SB a b A B rs \<Longrightarrow> node_step SA A A' \<Longrightarrow> tcp b a B A' \<Longrightarrow> link_reachable SA SB a b A' B rs"
| step_right: "link_reachable SA SB a b A B rs \<Longrightarrow> node_step SB B B' \<Longrightarrow> tcp a b A B' \<Longrightarrow>
    link_reachable SA SB a b A B' (rs @ routed_by b B B')"

lemma link_nodes: "link_reachable SA SB a b A B rs \<Longrightarrow> node_reachable SA A \<and> node_reachable SB B"
  by (induction rule: link_reachable.induct) (auto intro: node_reachable.step)

lemma link_conns:
  "link_reachable SA SB a b A B rs \<Longrightarrow> (\<exists>c. nd_conns A a = Some c) \<and> (\<exists>d. nd_conns B b = Some d)"
proof (induction rule: link_reachable.induct)
  case (open_link A B)
  then show ?case using newConn_returns by (simp add: opened_def)
qed (auto simp: seen_by_def dest!: node_step_seen)

lemma link_prefix:
  assumes "link_reachable SA SB a b A B rs" and "tcp a b A B'" and "nd_conns A a = Some c" and "nd_conns B' b = Some d"
    and "node_of (sy_config SA) k"
  shows "prefix (concat (cs_read d)) (concat (cs_accepted c))"
proof -
  from link_nodes [OF assms(1)] node_reachable_inv assms(5) have "node_inv A" by blast
  with assms(3) have "conn_inv c" by (auto simp: node_inv_def net_safe_def intro: conn_reachable_inv)
  then have "prefix (cs_written c) (concat (cs_accepted c))" by (auto simp: conn_inv_def prefix_def)
  with assms(2-4) show ?thesis by (auto simp: tcp_def intro: prefix_order.trans)
qed

lemma opened_received:
  assumes "opened b B" and "nd_conns B b = Some d"
  shows "received S [] (reception b d B) [] []" and "ps_buf (rx_splitter (reception b d B)) = []"
proof -
  have "newConn = Some d" using assms by (simp add: opened_def)
  from newConn_fresh(5) [OF this] assms(1) show "received S [] (reception b d B) [] []"
      and "ps_buf (rx_splitter (reception b d B)) = []"
    by (simp_all add: received_def reception_def opened_def ps_empty_def pk.short_def)
qed

lemma link_received:
  assumes "link_reachable SA SB a b A B rs" and "nd_conns A a = Some c" and "nd_conns B b = Some d"
    and "\<forall>pkt \<in> set (cs_accepted c). length pkt \<le> bound" and "\<forall>ch \<in> set (cs_read d). length ch \<le> chunk"
    and "bound + chunk < 2 ^ 32" and node: "node_of (sy_config SA) k"
  shows "\<exists>ms done left. cs_accepted c = map frame ms \<and> bounded bound ms \<and> received SB ms (reception b d B) done left \<and>
    length (ps_buf (rx_splitter (reception b d B))) \<le> bound + chunk \<and> rs = concat (map (routed_of SB) done)"
  using assms(1-5)
proof (induction arbitrary: c d rule: link_reachable.induct)
  case (open_link A B)
  have "newConn = Some c" using open_link by (simp add: opened_def)
  with newConn_fresh(4) [OF this] opened_received [OF open_link(4,6)] show ?case
    by (intro exI [of _ "[]"]) (auto simp: bounded_def)
next
  case (step_left A B rs A')
  obtain c0 where c0: "nd_conns A a = Some c0" using link_conns [OF step_left(1)] by blast
  from node_step_seen [OF step_left(2) c0] step_left(5) obtain ns where
      ns: "cs_accepted c = cs_accepted c0 @ map frame ns" "\<forall>m \<in> set ns. fst m \<le> MaxMsgId"
    by (auto simp: seen_by_def)
  with step_left(7) have "\<forall>pkt \<in> set (cs_accepted c0). length pkt \<le> bound" by auto
  from step_left.IH [OF c0 step_left(6) this step_left(8)] obtain ms dn lf where
      ms: "cs_accepted c0 = map frame ms" "bounded bound ms" "received SB ms (reception b d B) dn lf"
        "length (ps_buf (rx_splitter (reception b d B))) \<le> bound + chunk" "rs = concat (map (routed_of SB) dn)" by blast
  have "bounded bound (ms @ ns)" using ms(2) ns step_left(7) by (auto simp: bounded_def)
  with ms ns(1) received_more [OF ms(3), of ns] show ?case
    by (intro exI [of _ "ms @ ns"] exI [of _ dn] exI [of _ "lf @ ns"]) simp
next
  case (step_right A B rs B')
  obtain d0 where d0: "nd_conns B b = Some d0" using link_conns [OF step_right(1)] by blast
  from node_step_seen [OF step_right(2) d0] step_right(6) have rx: "rx_step SB (reception b d0 B) (reception b d B')"
    by (auto simp: seen_by_def)
  with step_right(8) have "\<forall>ch \<in> set (cs_read d0). length ch \<le> chunk"
    using rx_step_reads [OF rx] by (auto simp: reception_def)
  from step_right.IH [OF step_right(5) d0 step_right(7) this] obtain ms dn lf where
      ms: "cs_accepted c = map frame ms" "bounded bound ms" "received SB ms (reception b d0 B) dn lf"
        "length (ps_buf (rx_splitter (reception b d0 B))) \<le> bound + chunk" "rs = concat (map (routed_of SB) dn)" by blast
  have "prefix (concat (rx_read (reception b d B'))) (concat (map frame ms))"
    using link_prefix [OF step_right(1,3,5,6) node] ms(1) by (simp add: reception_def)
  moreover have "\<forall>ch \<in> set (rx_read (reception b d B')). length ch \<le> chunk" using step_right(8) by (simp add: reception_def)
  ultimately obtain new lf' where "received SB ms (reception b d B') (dn @ new) lf'"
      "length (ps_buf (rx_splitter (reception b d B'))) \<le> bound + chunk"
      "routed_by b B B' = concat (map (routed_of SB) new)"
    using received_step [OF rx ms(3,2,4) assms(6)] ms(1) routed_by_rx [of b B B' d0 d] by auto
  with ms(1,2,5) show ?case by (intro exI [of _ ms] exI [of _ "dn @ new"] exI [of _ lf']) simp
qed

section \<open>Main theorem\<close>

lemma routed_of_sent:
  assumes "compatible SA SB" and "envelope_ok (sy_api SA) e" and "message_of SA e m"
  shows "routed_of SB m = [arriving (sy_api SA) (sy_proto SA) (sy_registry SA) e]"
proof -
  from assms(3) obtain pkg where "Send_pkg (sy_api SA) (sy_proto SA) (sy_registry SA) e = Some (Inr (fst m, pkg))"
      "Marshal_pkg (sy_proto SA) pkg = Some (snd m)" by (auto simp: message_of_def)
  moreover from assms(1) have "wire_types_ok (sy_api SA)" "proto_ok (sy_proto SA)" "reg_ok (sy_registry SA) (sy_registry SB)"
    by (simp_all add: compatible_def)
  ultimately have "OnMessage (sy_api SA) (sy_proto SA) (sy_registry SB) (fst m) (snd m) =
      Some (None, [arriving (sy_api SA) (sy_proto SA) (sy_registry SA) e])"
    using assms(2) by (blast intro: OnMessage_Send_pkg)
  with assms(1) show ?thesis by (simp add: compatible_def routed_of_def)
qed

text \<open>
  C6. End to end, in every interleaving of all goroutines of both nodes, for packets and chunks whose
  lengths add up to less than 2^32: the packets a connection has accepted are the frames of messages,
  of which the receiving node has handled a beginning, \<open>done\<close>, in order and each once. The bytes it has
  read beyond that are in its splitter. What it has routed while handling frames of this connection,
  \<open>rs\<close>, is exactly what these messages carry, each once and in that order; the envelopes of other
  connections come in between. A message made from a well-typed envelope carries that envelope
  (\<open>arriving\<close>: but for unserializable messages of a batch). Once everything has been read and the
  receive loop is back in \<open>Read\<close>, everything has been handled.
\<close>

theorem link_delivers_in_order:
  assumes "link_reachable SA SB a b A B rs" and "nd_conns A a = Some c" and "nd_conns B b = Some d"
    and "\<forall>pkt \<in> set (cs_accepted c). length pkt \<le> bound" and "\<forall>ch \<in> set (cs_read d). length ch \<le> chunk"
    and "bound + chunk < 2 ^ 32" and "node_of (sy_config SA) k"
  shows "\<exists>done left. cs_accepted c = map frame (done @ left) \<and>
    concat (cs_read d) = concat (map frame done) @ ps_buf (nt_splitters (cn_net (nd_cn B)) b) \<and>
    rs = concat (map (routed_of SB) done) \<and> subseq rs (cn_routed (nd_cn B)) \<and>
    (compatible SA SB \<longrightarrow> (\<forall>e m. envelope_ok (sy_api SA) e \<longrightarrow> message_of SA e m \<longrightarrow>
       routed_of SB m = [arriving (sy_api SA) (sy_proto SA) (sy_registry SA) e])) \<and>
    (b \<notin> nd_handling B \<longrightarrow> concat (cs_read d) = concat (cs_accepted c) \<longrightarrow> left = [])"
proof -
  from link_received [OF assms] obtain ms dn lf where
      ms: "cs_accepted c = map frame ms" "received SB ms (reception b d B) dn lf" "rs = concat (map (routed_of SB) dn)" by blast
  have "lf = []" if "b \<notin> nd_handling B" "concat (cs_read d) = concat (cs_accepted c)"
  proof -
    from ms that have "pk.short lf (nt_splitters (cn_net (nd_cn B)) b)"
        "ps_buf (nt_splitters (cn_net (nd_cn B)) b) = concat (map frame lf)"
      by (auto simp: received_def reception_def)
    then show ?thesis by (rule pk.short_complete)
  qed
  with ms show ?thesis
    by (intro exI [of _ dn] exI [of _ lf]) (auto simp: received_def reception_def intro: routed_of_sent)
qed

text \<open>Node 2 dials node 1, sends its registration request, and all of it arrives in one chunk.\<close>

lemma demo_written:
  assumes "nd_conns A 0 = Some c" and "q_inv (cs_q c)" and "cs_sender c = SDequeue" and "q_list (cs_q c) = [pkt]"
    and "pkt \<noteq> []" and "cs_written c = []"
  shows "\<exists>A1 A2 c1 c2. node_step S A A1 \<and> node_step S A1 A2 \<and> nd_conns A1 0 = Some c1 \<and> nd_conns A2 0 = Some c2 \<and>
    cs_read c1 = cs_read c \<and> cs_read c2 = cs_read c \<and> cs_accepted c2 = cs_accepted c \<and> cs_written c2 = pkt"
proof -
  obtain q where q: "QQueue_Dequeue (cs_q c) = Some (Done (pkt, True), q)"
    using qq.dequeue_some [of "cs_q c" pkt "[]"] assms by auto
  let ?c1 = "c\<lparr>cs_q := q, cs_sender := sender_writes pkt\<rparr>"
  let ?c2 = "?c1\<lparr>cs_written := cs_written ?c1 @ take (length pkt) pkt, cs_sender := sender_writes (drop (length pkt) pkt)\<rparr>"
  have "sender_step c ?c1" by (rule sender_step.dequeue [OF assms(3) q])
  then have 1: "node_step S A (set_conn 0 ?c1 A)" by (rule node_step.sender [OF assms(1)])
  have "sender_step ?c1 ?c2" by (rule sender_step.write_some) (use assms(5) in \<open>simp_all add: sender_writes_def\<close>)
  then have "node_step S (set_conn 0 ?c1 A) (set_conn 0 ?c2 (set_conn 0 ?c1 A))"
    by (intro node_step.sender) (simp_all add: set_conn_def)
  with 1 assms(6) show ?thesis
    by (intro exI [of _ "set_conn 0 ?c1 A"] exI [of _ "set_conn 0 ?c2 (set_conn 0 ?c1 A)"] exI [of _ ?c1] exI [of _ ?c2])
      (simp add: set_conn_def)
qed

lemma demo_link:
  "\<exists>A B rs c d. link_reachable (reg_system 2 2) (reg_system 1 2) 0 0 A B rs \<and> nd_conns A 0 = Some c \<and> nd_conns B 0 = Some d \<and>
     cs_accepted c = [frame (PkgTypeRegisterSystemReq, [9])] \<and> cs_read d = [frame (PkgTypeRegisterSystemReq, [9])]"
proof -
  let ?SA = "reg_system 2 2" and ?SB = "reg_system 1 2" and ?f = "frame (PkgTypeRegisterSystemReq, [9])"
  obtain A0 A c where A: "node_reachable ?SA A0" "opened 0 A0" "node_step ?SA A0 A" "nd_conns A 0 = Some c" "q_inv (cs_q c)"
      "cs_sender c = SDequeue" "cs_written c = []" "cs_read c = []" "q_list (cs_q c) = [?f]" "cs_accepted c = [?f]"
    using demo_dialled by (auto simp: opened_def)
  have "?f \<noteq> []" using frame_nonempty [of "(PkgTypeRegisterSystemReq, [9])"] by auto
  from demo_written [OF A(4,5,6,9) this A(7), of ?SA] A(8,10) obtain A1 A2 c1 c2 where
      W: "node_step ?SA A A1" "node_step ?SA A1 A2" "nd_conns A1 0 = Some c1" "nd_conns A2 0 = Some c2"
        "cs_read c1 = []" "cs_read c2 = []" "cs_accepted c2 = [?f]" "cs_written c2 = ?f" by auto
  obtain B0 B d where B: "node_reachable ?SB B0" "opened 0 B0" "node_step ?SB B0 B" "cs_read d = [?f]" "nd_conns B 0 = Some d"
    using demo_accepted [of 2 ?f] by (auto simp: opened_def)
  have "nd_conns B0 0 \<noteq> None" using B(2) newConn_returns by (simp add: opened_def)
  then have silent: "tcp 0 0 B0 X" if "nd_conns X 0 = Some e" "cs_read e = []" for X :: "bytes node" and e
    using that by (auto simp: tcp_def)
  have "link_reachable ?SA ?SB 0 0 A0 B0 []" using A(1) B(1) A(2) B(2) by (rule link_reachable.open_link)
  from link_reachable.step_left [OF this A(3) silent [OF A(4,8)]]
  have "link_reachable ?SA ?SB 0 0 A1 B0 []" by (rule link_reachable.step_left [OF _ W(1) silent [OF W(3,5)]])
  then have "link_reachable ?SA ?SB 0 0 A2 B0 []" by (rule link_reachable.step_left [OF _ W(2) silent [OF W(4,6)]])
  then have "link_reachable ?SA ?SB 0 0 A2 B ([] @ routed_by 0 B0 B)"
    by (rule link_reachable.step_right [OF _ B(3)]) (use W B in \<open>simp add: tcp_def\<close>)
  with W B show ?thesis by blast
qed

theorem link_delivers_in_order_witness:
  "\<exists>(A :: bytes node) B rs c d done left. link_reachable (reg_system 2 2) (reg_system 1 2) 0 0 A B rs \<and>
     nd_conns A 0 = Some c \<and> nd_conns B 0 = Some d \<and>
     [frame (PkgTypeRegisterSystemReq, [9])] = map frame (done @ left) \<and>
     frame (PkgTypeRegisterSystemReq, [9]) = concat (map frame done) @ ps_buf (nt_splitters (cn_net (nd_cn B)) 0) \<and>
     rs = concat (map (routed_of (reg_system 1 2)) done)"
proof -
  let ?f = "frame (PkgTypeRegisterSystemReq, [9])"
  obtain A B :: "bytes node" and rs c d where L: "link_reachable (reg_system 2 2) (reg_system 1 2) 0 0 A B rs" "nd_conns A 0 = Some c"
      "nd_conns B 0 = Some d" "cs_accepted c = [?f]" "cs_read d = [?f]"
    using demo_link by blast
  have bounds: "\<forall>pkt \<in> set (cs_accepted c). length pkt \<le> 6" "\<forall>ch \<in> set (cs_read d). length ch \<le> 6" "6 + 6 < (2 ^ 32 :: nat)"
    by (simp_all add: L(4,5) length_frame PacketHeaderSize_def)
  have "node_of (sy_config (reg_system 2 2)) 1" using demo_node_of(2) by simp
  from link_delivers_in_order [OF L(1-3) bounds this] obtain dn lf where "cs_accepted c = map frame (dn @ lf)"
      "concat (cs_read d) = concat (map frame dn) @ ps_buf (nt_splitters (cn_net (nd_cn B)) 0)"
      "rs = concat (map (routed_of (reg_system 1 2)) dn)" by blast
  with L show ?thesis
    by (intro exI [of _ A] exI [of _ B] exI [of _ rs] exI [of _ c] exI [of _ d] exI [of _ dn] exI [of _ lf]) simp
qed

end
