(* ===== verification/Request_Path.thy ===== *)
theory Request_Path
  imports Link_Roles Link_Delivery
begin

text \<open>
  The way of a request from outside the actor world to an actor on another node and of the answer back,
  put together from the router (\<open>router.go\<close>), the request proxy (\<open>request_proxy.go\<close>) and the codec and
  links of both nodes. Between these parts lies vactor: it runs the proxy, gives the router an envelope
  for \<open>RequestAsync\<close> and for the answer, and calls the callback.
\<close>

section \<open>An envelope crosses a link\<close>





section \<open>Main theorem\<close>





end
