(* ===== verification/Node_Panics.thy ===== *)
theory Node_Panics
  imports Link_Roles
begin

text \<open>
  Which calls can panic on a running node. The handlers of \<open>cluster_server.go\<close>, \<open>cluster_client.go\<close> and
  \<open>cluster_net.go\<close> dereference sessions, connections and infos without checking all of them; the
  invariants of a reachable node say that they are there, so that what remains are the packages of a
  peer that lack a part, and sending to a system that is not configured.
\<close>

section \<open>What the handlers look up\<close>

text \<open>The systems sessions are bound to, by session.\<close>

definition binds :: "net \<Rightarrow> nat \<rightharpoonup> int" where
  "binds n = (\<lambda>a. case nt_sessions n a of None \<Rightarrow> None | Some s \<Rightarrow> ns_bindObject s)"

definition binds_known :: "'p clusterNet \<Rightarrow> bool" where
  "binds_known cn \<longleftrightarrow> ran (binds (cn_net cn)) \<subseteq> dom (cn_systemInfos cn)"

definition known_inv :: "'p node \<Rightarrow> bool" where
  "known_inv nd \<longleftrightarrow> binds_known (nd_cn nd) \<and> ran (nt_clients (cn_net (nd_cn nd))) \<subseteq> dom (nd_clients nd)"

lemma net_SendMessage_binds: "net_SendMessage a i d n = Some (err, n') \<Longrightarrow> binds n' = binds n"
  by (auto simp: binds_def net_SendMessage_def net_SendData_def bind_eq_Some_conv split: sum.splits)

lemma net_Disconnect_binds: "net_Disconnect a n = Some (err, n') \<Longrightarrow> binds n' = binds n"
  by (auto simp: binds_def net_Disconnect_def bind_eq_Some_conv)

lemma Session_Close_binds: "Session_Close a n = Some (err, n') \<Longrightarrow> binds n' = binds n"
  by (auto simp: binds_def Session_Close_def net_Disconnect_def bind_eq_Some_conv fun_eq_iff split: option.splits if_splits)

lemma SetBindObject_binds: "SetBindObject a b n = Some n' \<Longrightarrow> binds n' = (binds n)(a := b)"
  by (auto simp: binds_def SetBindObject_def bind_eq_Some_conv fun_eq_iff)

text \<open>The operations of the cluster net.\<close>

lemma binds_known_same:
  "binds (cn_net cn') = binds (cn_net cn) \<Longrightarrow> dom (cn_systemInfos cn') = dom (cn_systemInfos cn) \<Longrightarrow> binds_known cn' = binds_known cn"
  by (simp add: binds_known_def)

lemma Send_known:
  assumes "Send S sid e cn = Some (err, cn')" and "binds_known cn"
  shows "binds_known cn'"
proof -
  have "binds (cn_net cn') = binds (cn_net cn) \<and> cn_systemInfos cn' = cn_systemInfos cn"
    using Send_sends [OF assms(1)]
    by (auto simp: doSend_def bind_eq_Some_conv Let_def dest: net_SendMessage_binds split: if_splits option.splits)
  with assms(2) show ?thesis by (simp add: binds_known_def)
qed

lemma binds_known_upd:
  assumes "binds_known cn" and "SetBindObject a b (cn_net cn) = Some n" and "\<And>sid. b = Some sid \<Longrightarrow> cn_systemInfos cn sid \<noteq> None"
    and "binds (cn_net cn') = binds n" and "dom (cn_systemInfos cn') = dom (cn_systemInfos cn)"
  shows "binds_known cn'"
proof -
  have "ran ((binds (cn_net cn))(a := b)) \<subseteq> ran (binds (cn_net cn)) \<union> set_option b"
    by (auto simp: ran_def split: if_splits)
  with assms(1,3) show ?thesis by (auto simp: binds_known_def assms(4,5) SetBindObject_binds [OF assms(2)])
qed

lemma svr_OnDisconnect_known:
  assumes "svr_OnDisconnect a cn = Some cn'" and "binds_known cn"
  shows "binds_known cn'"
proof -
  from assms(1) consider "cn' = cn" | n sid info where "cn_systemInfos cn sid = Some info" "SetBindObject a None (cn_net cn) = Some n"
      "cn' = add_connected (-1) (upd_info sid (\<lambda>info. info\<lparr>si_session := None\<rparr>) (cn\<lparr>cn_net := n\<rparr>))"
    by (auto simp: svr_OnDisconnect_def bind_eq_Some_conv Let_def split: option.splits if_splits)
  then show ?thesis
  proof cases
    case (2 n sid info)
    then show ?thesis by (intro binds_known_upd [OF assms(2) 2(2)]) auto
  qed (use assms(2) in simp)
qed

lemma svr_disconnected_known:
  assumes "svr_disconnected a cn = Some cn'" and "binds_known cn"
  shows "binds_known cn'"
proof -
  from assms(1) obtain cn1 m where "svr_OnDisconnect a cn = Some cn1" "cn' = cn1\<lparr>cn_net := (cn_net cn1)\<lparr>nt_mgr := m\<rparr>\<rparr>"
    by (auto simp: svr_disconnected_def bind_eq_Some_conv)
  with svr_OnDisconnect_known [OF _ assms(2)] show ?thesis by (simp add: binds_known_def binds_def)
qed

lemma svr_register_known:
  assumes "svr_register S a sid cn = Some (err, cn')" and "binds_known cn"
  shows "binds_known cn'"
proof (cases "\<exists>info. cn_systemInfos cn sid = Some info \<and> \<not> si_passive info \<and> si_session info = None")
  case True
  then obtain info where i: "cn_systemInfos cn sid = Some info" "\<not> si_passive info" "si_session info = None" by blast
  with assms(1) obtain n where n: "SetBindObject a (Some sid) (cn_net cn) = Some n"
    by (auto simp: svr_register_def bind_eq_Some_conv)
  have "binds (cn_net cn') = binds n \<and> dom (cn_systemInfos cn') = dom (cn_systemInfos cn)"
    using assms(1) i n
    by (auto simp: svr_register_def bind_eq_Some_conv Let_def dest: net_SendMessage_binds split: option.splits if_splits)
  with i(1) show ?thesis by (intro binds_known_upd [OF assms(2) n]) auto
next
  case False
  with assms show ?thesis by (auto simp: svr_register_def split: option.splits if_splits)
qed

lemma svr_handle_known:
  assumes "svr_handle S a msgId data cn = Some (err, cn')" and "binds_known cn"
  shows "binds_known cn'"
proof -
  from assms(1) obtain err1 cn1 where m: "svr_OnMessage S a msgId data cn = Some (err1, cn1)"
    by (auto simp: svr_handle_def bind_eq_Some_conv)
  then have "binds_known cn1"
    using assms(2) svr_register_known [of S a _ cn err1 cn1] cn_OnMessage_keeps [of S msgId data cn err1 cn1]
    by (auto simp: svr_OnMessage_def binds_known_def split: if_splits option.splits pkg.splits)
  moreover have "binds (cn_net cn') = binds (cn_net cn1) \<and> cn_systemInfos cn' = cn_systemInfos cn1"
    using assms(1) m by (auto simp: svr_handle_def bind_eq_Some_conv dest: Session_Close_binds split: if_splits)
  ultimately show ?thesis by (simp add: binds_known_def)
qed

section \<open>Every step keeps it\<close>

text \<open>A step that changes no binding, no info's key and no client's connection.\<close>

definition knows :: "'p node \<Rightarrow> (nat \<rightharpoonup> int) \<times> int set \<times> (nat \<rightharpoonup> int)" where
  "knows nd = (binds (cn_net (nd_cn nd)), dom (cn_systemInfos (nd_cn nd)), nt_clients (cn_net (nd_cn nd)))"

lemma known_same: "knows nd' = knows nd \<Longrightarrow> dom (nd_clients nd) \<subseteq> dom (nd_clients nd') \<Longrightarrow> known_inv nd \<Longrightarrow> known_inv nd'"
  unfolding knows_def known_inv_def binds_known_def by (simp, blast)

lemma known_cn:
  assumes "known_inv nd" and "binds_known (nd_cn nd) \<Longrightarrow> binds_known (nd_cn nd')"
    and "nt_clients (cn_net (nd_cn nd')) = nt_clients (cn_net (nd_cn nd))" and "nd_clients nd' = nd_clients nd"
  shows "known_inv nd'"
  using assms by (simp add: known_inv_def)

lemma knows_simps [simp]:
  "knows (set_splitter a p nd) = knows nd" "knows (set_conn a c nd) = knows nd"
  "knows (set_client sid cl nd) = knows nd" "knows (nd\<lparr>nd_handling := h\<rparr>) = knows nd"
  "knows (nd\<lparr>nd_cn := add_connected k (nd_cn nd)\<rparr>) = knows nd" "knows (nd\<lparr>nd_cn := (nd_cn nd)\<lparr>cn_routed := es\<rparr>\<rparr>) = knows nd"
  by (simp_all add: knows_def binds_def set_splitter_def set_conn_def set_client_def)

lemma knows_upd_info [simp]: "knows (nd\<lparr>nd_cn := upd_info sid f (nd_cn nd)\<rparr>) = knows nd"
  by (auto simp: knows_def upd_info_def split: option.splits)

lemma knows_net: "owners n = owners (cn_net (nd_cn nd)) \<Longrightarrow> binds n = binds (cn_net (nd_cn nd)) \<Longrightarrow> knows (set_net n nd) = knows nd"
  by (simp add: knows_def owners_def)

lemma set_simps [simp]:
  "nd_clients (set_splitter a p nd) = nd_clients nd" "nd_clients (set_conn a c nd) = nd_clients nd"
  "nd_clients (set_net n nd) = nd_clients nd" "nd_clients (set_client sid cl nd) = (nd_clients nd)(sid \<mapsto> cl)"
  by (simp_all add: set_splitter_def set_conn_def set_net_def set_client_def)

lemma client_step_known:
  assumes "client_step S sid cl nd nd'" and "nd_clients nd sid = Some cl" and inv: "known_inv nd"
  shows "known_inv nd'"
  using assms(1)
proof cases
  case (dialled a n)
  then have n: "nt_clients n = (nt_clients (cn_net (nd_cn nd)))(a \<mapsto> sid)" "nt_sessions n = nt_sessions (cn_net (nd_cn nd))"
    by (auto simp: dial_conn_def bind_eq_Some_conv)
  then have "ran (nt_clients n) \<subseteq> ran (nt_clients (cn_net (nd_cn nd))) \<union> {sid}" by (auto simp: ran_def split: if_splits)
  with inv n(2) show ?thesis by (auto simp: dialled(1) known_inv_def binds_known_def binds_def)
next
  case (request_failed a err n derr n')
  then have "knows (set_net n' nd) = knows nd"
    by (intro knows_net) (simp_all add: net_SendMessage_owners net_Disconnect_owners net_SendMessage_binds net_Disconnect_binds)
  with request_failed(1) show ?thesis by (intro known_same [OF _ _ inv]) auto
qed (auto intro!: known_same [OF _ _ inv]
    simp: knows_net net_SendMessage_owners net_Disconnect_owners net_SendMessage_binds net_Disconnect_binds)

lemma node_step_known:
  assumes "node_step S nd nd'" and inv: "known_inv nd"
  shows "known_inv nd'"
  using assms(1)
proof cases
  case (accept a n)
  define s where "s = \<lparr>ns_id = fst (NewSession a (nt_mgr (cn_net (nd_cn nd)))), ns_bindObject = None, ns_conn = Some a\<rparr>"
  from accept(4) have n: "nt_clients n = nt_clients (cn_net (nd_cn nd))" "ns_bindObject s = None"
      "nt_sessions n = (nt_sessions (cn_net (nd_cn nd)))(a \<mapsto> s)"
    by (auto simp: accept_conn_def NewSession_def Let_def bind_eq_Some_conv s_def)
  then have "ran (binds n) \<subseteq> ran (binds (cn_net (nd_cn nd)))" by (auto simp: binds_def ran_def split: if_splits)
  with inv n(1) show ?thesis unfolding accept(1) by (auto simp: known_inv_def binds_known_def)
next
  case (frame_session a s msgId payload p err cn)
  have p: "known_inv (set_splitter a p nd)" by (rule known_same [OF _ _ inv]) simp_all
  moreover have "nt_clients (cn_net cn) = nt_clients (cn_net (nd_cn (set_splitter a p nd)))"
    using svr_handle_refers [OF frame_session(5)] by (simp add: cn_refers_def owners_def)
  moreover have "nd' = (set_splitter a p nd)\<lparr>nd_cn := cn\<rparr>" using frame_session(1) by (simp add: set_splitter_def set_net_def)
  ultimately show ?thesis using svr_handle_known [OF frame_session(5)]
    by (intro known_cn [OF p]) simp_all
next
  case (frame_client a sid msgId payload p)
  have p: "known_inv (set_splitter a p nd)" by (rule known_same [OF _ _ inv]) simp_all
  from frame_client(4) consider cl' where "nd' = set_client sid cl' (set_splitter a p nd)"
    | err cn where "cn_OnMessage S msgId payload (nd_cn (set_splitter a p nd)) = Some (err, cn)" "nd' = (set_splitter a p nd)\<lparr>nd_cn := cn\<rparr>"
    by (auto simp: cli_handle_def bind_eq_Some_conv Let_def split: if_splits)
  then show ?thesis
  proof cases
    case (1 cl')
    then show ?thesis by (intro known_same [OF _ _ p]) auto
  next
    case (2 err cn)
    then obtain es where "cn = (nd_cn (set_splitter a p nd))\<lparr>cn_routed := es\<rparr>"
      by (auto simp: cn_OnMessage_def bind_eq_Some_conv)
    with 2(2) show ?thesis by (intro known_same [OF _ _ p]) simp_all
  qed
next
  case (lost_session a c s cn)
  let ?nd = "set_conn a (c\<lparr>cs_callbacks := cs_callbacks c + 1, cs_receiver := RReturned\<rparr>) nd"
  have c: "known_inv ?nd" by (rule known_same [OF _ _ inv]) simp_all
  moreover have "nt_clients (cn_net cn) = nt_clients (cn_net (nd_cn ?nd))"
    using svr_disconnected_refers [OF lost_session(5)] by (simp add: cn_refers_def owners_def)
  moreover have "nd' = ?nd\<lparr>nd_cn := cn\<rparr>" using lost_session(1) by (simp add: set_conn_def set_net_def)
  ultimately show ?thesis using svr_disconnected_known [OF lost_session(5)]
    by (intro known_cn [OF c]) simp_all
next
  case (client sid cl)
  with client_step_known inv show ?thesis by blast
next
  case (send sid e err cn)
  have "nt_clients (cn_net cn) = nt_clients (cn_net (nd_cn nd))"
    using Send_refers [OF send(2)] by (simp add: cn_refers_def owners_def)
  with send(1) show ?thesis using Send_known [OF send(2)] by (intro known_cn [OF inv]) simp_all
qed (auto intro!: known_same [OF _ _ inv])

lemma node_reachable_known:
  assumes "node_reachable S nd"
  shows "known_inv nd"
  using assms
proof (induction rule: node_reachable.induct)
  case (started nd)
  have "cn_net (nd_cn nd) = new_net"
    by (simp add: started_node_fields [OF started]) (simp add: NewClusterNet_def case_prod_beta)
  then show ?case by (simp add: known_inv_def binds_known_def binds_def new_net_def)
qed (rule node_step_known)

section \<open>What can go wrong\<close>

text \<open>Operations on a connection that is there return.\<close>

lemma net_SendMessage_returns:
  assumes "net_safe n" and "a \<in> dom (nt_conns n)"
  shows "net_SendMessage a msgId data n \<noteq> None"
proof -
  obtain c where c: "nt_conns n a = Some c" using assms(2) by blast
  from net_safe_q [OF assms(1) this] have q: "q_inv (cs_q c)" .
  show ?thesis
  proof (cases "PackMessage msgId data")
    case (Inr pkt)
    have "QQueue_Enqueue pkt (cs_q c) \<noteq> None"
      using qq.enqueue_open [OF q, of pkt] qq.enqueue_closed [OF q, of pkt] by (cases "QQueue_IsClose (cs_q c)") auto
    with Inr c show ?thesis by (auto simp: net_SendMessage_def net_SendData_def SendData_def split: bind_split)
  qed (simp add: net_SendMessage_def)
qed

lemma Session_Close_returns:
  assumes "net_safe n" and "a \<in> dom (nt_sessions n)"
  shows "Session_Close a n \<noteq> None"
proof -
  obtain s c where s: "nt_sessions n a = Some s" "nt_conns n a = Some c" "ns_conn s = Some a \<or> ns_conn s = None"
    using assms unfolding net_safe_def by blast
  from qq.close_closes [OF net_safe_q [OF assms(1) s(2)]] s show ?thesis
    by (auto simp: Session_Close_def net_Disconnect_def Conn_Disconnect_def)
qed

text \<open>A package of a peer with which \<open>OnMessage\<close> panics, and an envelope with which \<open>Send\<close> does.\<close>

definition faulty_package :: "'p system \<Rightarrow> u32 \<Rightarrow> bytes \<Rightarrow> bool" where
  "faulty_package S msgId data \<longleftrightarrow> msgId \<in> envelope_kinds \<and>
     (\<exists>pkg. Unmarshal_pkg (sy_proto S) msgId data = Some pkg \<and> lacks_payload pkg)"

fun lacks_content :: "'p envelope \<Rightarrow> bool" where
  "lacks_content (EnvelopeResponseAsync f t r c a) \<longleftrightarrow> r = None"
| "lacks_content (EnvelopeResponse f t r i) \<longleftrightarrow> r = None"
| "lacks_content (EnvelopeNotify f ts n m) \<longleftrightarrow> m = None"
| "lacks_content _ \<longleftrightarrow> False"

lemma Send_pkg_panics: "Send_pkg V P s e = None \<longleftrightarrow> lacks_content e"
  by (cases e) (auto simp: marshalled_def Let_def split: option.splits sum.splits)

lemma cn_OnMessage_panics: "cn_OnMessage S msgId data cn = None \<longleftrightarrow> faulty_package S msgId data"
proof -
  have "cn_OnMessage S msgId data cn = None \<longleftrightarrow> OnMessage (sy_api S) (sy_proto S) (sy_registry S) msgId data = None"
    by (auto simp: cn_OnMessage_def split: bind_split)
  then show ?thesis
    by (cases "msgId \<in> envelope_kinds")
      (auto simp: faulty_package_def OnMessage_dispatch OnMessage_other dispatch_pkg_None split: option.splits)
qed

text \<open>The server's handler: its own lookups never fail.\<close>

lemma svr_OnMessage_panics:
  assumes "net_safe (cn_net cn)" and "a \<in> dom (nt_sessions (cn_net cn))"
  shows "svr_OnMessage S a msgId data cn = None \<longleftrightarrow> msgId \<noteq> PkgTypeRegisterSystemReq \<and> faulty_package S msgId data"
proof -
  have "svr_register S a sid cn \<noteq> None" for sid
  proof -
    obtain n where n: "SetBindObject a (Some sid) (cn_net cn) = Some n" using assms(2) by (auto simp: SetBindObject_def)
    have "a \<in> dom (nt_conns (cn_net cn))" using assms unfolding net_safe_def by blast
    with n have "a \<in> dom (nt_conns n)" by (auto simp: SetBindObject_def bind_eq_Some_conv)
    from net_SendMessage_returns [OF conjunct1 [OF SetBindObject_safe [OF n assms(1)]] this, of PkgTypeRegisterSystemRsp] n
    show ?thesis by (auto simp: svr_register_def Let_def split: option.splits)
  qed
  then show ?thesis by (auto simp: svr_OnMessage_def cn_OnMessage_panics split: option.splits pkg.splits)
qed

lemma svr_handle_panics:
  assumes "net_safe (cn_net cn)" and "a \<in> dom (nt_sessions (cn_net cn))"
  shows "svr_handle S a msgId data cn = None \<longleftrightarrow> msgId \<noteq> PkgTypeRegisterSystemReq \<and> faulty_package S msgId data"
proof (cases "svr_OnMessage S a msgId data cn")
  case (Some r)
  obtain err cn1 where r: "r = (err, cn1)" by (cases r)
  have "net_safe (cn_net cn1)" using svr_OnMessage_keeps [of S a msgId data cn err cn1] Some r assms(1) by (simp add: cn_keeps_def)
  moreover have "a \<in> dom (nt_sessions (cn_net cn1))"
    using Some r assms(2) svr_register_refers [of S a _ cn err cn1] cn_OnMessage_keeps [of S msgId data cn err cn1]
    by (auto simp: svr_OnMessage_def cn_refers_def owners_def split: if_splits option.splits pkg.splits)
  ultimately obtain x where "Session_Close a (cn_net cn1) = Some x" using Session_Close_returns by blast
  with Some r svr_OnMessage_panics [OF assms, of S msgId data] show ?thesis by (auto simp: svr_handle_def split: prod.splits)
qed (use svr_OnMessage_panics [OF assms, of S msgId data] in \<open>simp add: svr_handle_def\<close>)

text \<open>The client's handler. It waits at the full channel, which \<open>None\<close> says too.\<close>

lemma cli_handle_panics:
  "nd_clients nd sid = Some cl \<Longrightarrow> cli_handle S sid msgId data nd = None \<longleftrightarrow>
     (if msgId = PkgTypeRegisterSystemRsp then cl_registerResponseChan cl \<noteq> None else faulty_package S msgId data)"
  by (auto simp: cli_handle_def Let_def cn_OnMessage_panics [of S _ _ "nd_cn nd", symmetric] split: bind_split)

text \<open>The disconnect callback of a session.\<close>

lemma svr_disconnected_returns:
  assumes "binds_known cn" and "a \<in> dom (nt_sessions (cn_net cn))"
  shows "svr_disconnected a cn \<noteq> None"
proof -
  obtain s where s: "nt_sessions (cn_net cn) a = Some s" using assms(2) by blast
  show ?thesis
  proof (cases "ns_bindObject s")
    case None
    with s show ?thesis by (simp add: svr_disconnected_def svr_OnDisconnect_def GetBindObject_def)
  next
    case (Some sid)
    with s have "sid \<in> ran (binds (cn_net cn))" by (auto simp: binds_def intro!: ranI [of _ a])
    with assms(1) obtain info where "cn_systemInfos cn sid = Some info" by (auto simp: binds_known_def)
    with s Some show ?thesis
      by (simp add: svr_disconnected_def svr_OnDisconnect_def GetBindObject_def SetBindObject_def Let_def)
  qed
qed

lemma doSend_panics:
  assumes "net_safe (cn_net cn)" and "infos_refer (cn_systemInfos cn) (cn_net cn)" and "apart (cn_net cn)"
  shows "doSend S sid msgId data cn = None \<longleftrightarrow> sid \<notin> dom (cn_systemInfos cn)"
proof (cases "cn_systemInfos cn sid")
  case (Some info)
  have "net_SendMessage a msgId data (cn_net cn) \<noteq> None" if "si_cli info = Some a \<or> si_session info = Some a" for a
  proof -
    have "a \<in> dom (nt_clients (cn_net cn)) \<union> dom (nt_sessions (cn_net cn))" using that infos_referD [OF assms(2) Some] by auto
    with assms(3) have "a \<in> dom (nt_conns (cn_net cn))" unfolding apart_def by blast
    then show ?thesis by (rule net_SendMessage_returns [OF assms(1)])
  qed
  with Some show ?thesis by (auto simp: doSend_def Let_def split: option.splits bind_split; metis option.distinct(1))
qed (simp add: doSend_def domIff)

section \<open>Main theorem\<close>

text \<open>
  C29. What can make a running node panic, what the local router does apart. In every reachable state
  the server's handler panics exactly on an envelope package that lacks the message or response it should
  carry, and the disconnect callback of a session never does. The client's handler panics exactly on
  such a package too; for a registration response, whatever its bytes, it only waits while the response
  channel is full. \<open>Send\<close> panics exactly for a response or notification that is \<open>nil\<close> and, once the
  envelope is marshalled, for a system id that is in no configuration. All other lookups, of the
  connection, the session, the info a session is bound to, the client, find what they look for.
\<close>

theorem node_panics_iff:
  assumes "node_of (sy_config S) k" and "node_reachable S nd"
  shows "(\<forall>a \<in> dom (nt_sessions (cn_net (nd_cn nd))).
      (\<forall>p msgId data. svr_handle S a msgId data (nd_cn (set_splitter a p nd)) = None \<longleftrightarrow> faulty_package S msgId data) \<and>
      (\<forall>c. svr_disconnected a (nd_cn (set_conn a c nd)) \<noteq> None)) \<and>
    (\<forall>a sid. nt_clients (cn_net (nd_cn nd)) a = Some sid \<longrightarrow>
      (\<exists>cl. nd_clients nd sid = Some cl \<and> (\<forall>p msgId data. cli_handle S sid msgId data (set_splitter a p nd) = None \<longleftrightarrow>
         (if msgId = PkgTypeRegisterSystemRsp then cl_registerResponseChan cl \<noteq> None else faulty_package S msgId data)))) \<and>
    (\<forall>sid e. Send S sid e (nd_cn nd) = None \<longleftrightarrow> lacks_content e \<or>
      (\<exists>msgId pkg data. Send_pkg (sy_api S) (sy_proto S) (sy_registry S) e = Some (Inr (msgId, pkg)) \<and>
         Marshal_pkg (sy_proto S) pkg = Some data \<and> sid \<notin> set (map sc_SystemId (cc_SystemConfigs (sy_config S)))))"
proof (intro conjI allI ballI impI)
  have safe: "net_safe (cn_net (nd_cn nd))" using node_reachable_inv [OF assms(2,1)] by (simp add: node_inv_def)
  have roles: "infos_refer (cn_systemInfos (nd_cn nd)) (cn_net (nd_cn nd))" "apart (cn_net (nd_cn nd))"
    using node_reachable_roles [OF assms(2,1)] by (simp_all add: roles_inv_def)
  have known: "binds_known (nd_cn nd)" "ran (nt_clients (cn_net (nd_cn nd))) \<subseteq> dom (nd_clients nd)"
    using node_reachable_known [OF assms(2)] by (simp_all add: known_inv_def)
  show "svr_handle S a msgId data (nd_cn (set_splitter a p nd)) = None \<longleftrightarrow> faulty_package S msgId data"
    if "a \<in> dom (nt_sessions (cn_net (nd_cn nd)))" for a p msgId data
    by (subst svr_handle_panics) (use safe that in \<open>auto simp: set_splitter_def set_net_def net_safe_def faulty_package_def envelope_kinds_def pkg_types\<close>)
  show "svr_disconnected a (nd_cn (set_conn a c nd)) \<noteq> None" if "a \<in> dom (nt_sessions (cn_net (nd_cn nd)))" for a c
    by (rule svr_disconnected_returns)
      (use known(1) that in \<open>simp_all add: set_conn_def set_net_def binds_known_def binds_def\<close>)
  show "\<exists>cl. nd_clients nd sid = Some cl \<and> (\<forall>p msgId data. cli_handle S sid msgId data (set_splitter a p nd) = None \<longleftrightarrow>
      (if msgId = PkgTypeRegisterSystemRsp then cl_registerResponseChan cl \<noteq> None else faulty_package S msgId data))"
    if client: "nt_clients (cn_net (nd_cn nd)) a = Some sid" for a sid
  proof -
    have "sid \<in> dom (nd_clients nd)" using known(2) client by (auto intro: ranI)
    then obtain cl where "nd_clients nd sid = Some cl" by blast
    then show ?thesis by (simp add: cli_handle_panics)
  qed
  show "Send S sid e (nd_cn nd) = None \<longleftrightarrow> lacks_content e \<or>
      (\<exists>msgId pkg data. Send_pkg (sy_api S) (sy_proto S) (sy_registry S) e = Some (Inr (msgId, pkg)) \<and>
         Marshal_pkg (sy_proto S) pkg = Some data \<and> sid \<notin> set (map sc_SystemId (cc_SystemConfigs (sy_config S))))" for sid e
    using doSend_panics [OF safe roles, of S sid] Send_pkg_panics [of "sy_api S" "sy_proto S" "sy_registry S" e]
    by (auto simp: Send_def config_dom(1) [OF assms(2,1)] split: bind_split sum.splits option.splits)
qed

text \<open>
  Node 1 has registered node 2: a registration request that does not parse does not end it, sending a
  response that is \<open>nil\<close> does.
\<close>

theorem node_panics_iff_witness:
  "\<exists>nd :: bytes node. node_reachable (reg_system 1 2) nd \<and> 0 \<in> dom (nt_sessions (cn_net (nd_cn nd))) \<and>
     svr_handle (reg_system 1 2) 0 PkgTypeRegisterSystemReq [0] (nd_cn (set_splitter 0 ps_empty nd)) \<noteq> None \<and>
     Send (reg_system 1 2) 2 (EnvelopeResponse None None None 1) (nd_cn nd) = None"
proof -
  let ?S = "reg_system 1 2"
  obtain nd :: "bytes node" where nd: "node_reachable ?S nd"
      "nt_sessions (cn_net (nd_cn nd)) 0 = Some \<lparr>ns_id = 1, ns_bindObject = Some 2, ns_conn = Some 0\<rparr>"
    using demo_registered [OF demo_ids(3,4) Next_requests(1)] by blast
  have "node_of (sy_config ?S) 0" using demo_node_of by simp
  note panics = node_panics_iff [OF this nd(1)]
  have "\<not> faulty_package ?S PkgTypeRegisterSystemReq [0]" by (simp add: faulty_package_def envelope_kinds_def pkg_types)
  with panics nd(2) have "svr_handle ?S 0 PkgTypeRegisterSystemReq [0] (nd_cn (set_splitter 0 ps_empty nd)) \<noteq> None" by blast
  moreover from panics have "Send ?S 2 (EnvelopeResponse None None None 1) (nd_cn nd) = None" by simp
  ultimately show ?thesis using nd by blast
qed

end
