(* ===== verification/Regression_Tests.thy ===== *)
theory Regression_Tests
  imports Placement Framing_Total
begin

text \<open>
  The regression tests of the repository (\<open>fix_test.go\<close>) on the definitions of this development, by
  evaluation, and the placement the example \<open>single/main.go\<close> relies on. What the Go tests check with
  \<open>t.Fatal\<close> is stated as an equation.
\<close>

section \<open>\<open>TestErrorCodeToVAError\<close>\<close>

lemma TestErrorCodeToVAError:
  "errorCodeToVAError demo_api ErrorCodeSuccess = None"
  "errorCodeToVAError demo_api ErrorCodeTimeout = Some ErrorCodeTimeout"
  by (simp_all add: errorCodeToVAError_def ErrorCodeSuccess_def ErrorCodeTimeout_def demo_api_def)

section \<open>\<open>TestRouterFallbackWhenTypeUndeclared\<close> and \<open>single/main.go\<close>\<close>

definition single_config :: "int list \<Rightarrow> ClusterConfig" where
  "single_config types = \<lparr>cc_LocalSystemId = 1, cc_SystemConfigs =
     [\<lparr>sc_SystemId = 1, sc_Host = ''localhost'', sc_Port = 8001, sc_ActorTypes = types\<rparr>], cc_ConnectTimeout = 0\<rparr>"

text \<open>A type that no node declares falls back to the local system.\<close>

lemma TestRouterFallbackWhenTypeUndeclared:
  "map_option ar_SystemId (CreateActorRefEx V (NewRouter (single_config [])) 0 999 ''1'') = Some 1"
proof -
  have "declaring (cc_SystemConfigs (single_config [])) 999 = []" by (simp add: single_config_def declaring_def)
  then show ?thesis by (simp add: CreateActorRefEx_eq placed_at_undeclared) (simp add: single_config_def)
qed

text \<open>The example's 1000 actors of a declared type all live on its only system, whatever their ids.\<close>

lemma single_main_local:
  "map_option ar_SystemId (CreateActorRefEx V (NewRouter (single_config [21, 22])) 0 21 i) = Some 1"
proof -
  have "declaring (cc_SystemConfigs (single_config [21, 22])) 21 = [1]" by (simp add: single_config_def declaring_def)
  then show ?thesis using placed_at_declared(1) [of "single_config [21, 22]" 21 i] by (simp add: CreateActorRefEx_eq)
qed

section \<open>\<open>TestPackAndSplit\<close>\<close>

text \<open>Two frames, the first three bytes apart from the rest; \<open>hello\<close> and \<open>world!!\<close> as bytes.\<close>

definition test_hello :: bytes where "test_hello = [104, 101, 108, 108, 111]"
definition test_world :: bytes where "test_world = [119, 111, 114, 108, 100, 33, 33]"

lemma test_stream:
  "PackMessage 1 test_hello = Inr [0, 0, 0, 5, 1, 104, 101, 108, 108, 111]"
  "PackMessage 11 test_world = Inr [0, 0, 0, 7, 11, 119, 111, 114, 108, 100, 33, 33]"
  by (simp_all add: PackMessage_def test_hello_def test_world_def MaxMsgId_def PutUint32_def)

lemma TestPackAndSplit:
  fixes pkt1 pkt2 :: bytes
  assumes "PackMessage 1 test_hello = Inr pkt1" and "PackMessage 11 test_world = Inr pkt2"
  defines "p1 \<equiv> Append (take 3 (pkt1 @ pkt2)) ps_empty"
  defines "p2 \<equiv> Append (drop 3 (pkt1 @ pkt2)) p1"
  shows "\<exists>e. PackMessage 256 [] = Inl e" and "Next p1 = Some ((0, [], False), p1)"
    and "Next p2 = Some ((1, test_hello, True), \<lparr>ps_buf = pkt2\<rparr>)"
    and "Next \<lparr>ps_buf = pkt2\<rparr> = Some ((11, test_world, True), ps_empty)"
    and "Next ps_empty = Some ((0, [], False), ps_empty)"
proof -
  show "\<exists>e. PackMessage 256 [] = Inl e" by (rule PackMessage_too_large) (simp add: MaxMsgId_def)
  have fits: "msg_fits (1, test_hello)" "msg_fits (11, test_world)"
    by (simp_all add: msg_fits_def MaxMsgId_def PacketHeaderSize_def test_hello_def test_world_def)
  have pkts: "pkt1 = frame (1, test_hello)" "pkt2 = frame (11, test_world)"
    using assms(1,2) by (simp_all add: PackMessage_frame MaxMsgId_def)
  have len: "length pkt1 = 10" "length pkt2 = 12"
    by (simp_all add: pkts length_frame PacketHeaderSize_def test_hello_def test_world_def)
  show "Next p1 = Some ((0, [], False), p1)"
    by (rule Next_partial [OF fits(1), of _ "drop 3 pkt1"])
      (simp_all add: p1_def Append_def ps_empty_def pkts(1) [symmetric] len)
  have p2: "ps_buf p2 = frame (1, test_hello) @ pkt2" by (simp add: p2_def p1_def Append_def ps_empty_def len pkts(1) [symmetric])
  then have "length (ps_buf p2) < 2 ^ 32" by (simp add: len pkts(1) [symmetric])
  from Next_frame [OF fits(1) p2 this] show "Next p2 = Some ((1, test_hello, True), \<lparr>ps_buf = pkt2\<rparr>)"
    by (cases p2) simp
  show "Next \<lparr>ps_buf = pkt2\<rparr> = Some ((11, test_world, True), ps_empty)"
    using Next_frame [OF fits(2), of "\<lparr>ps_buf = pkt2\<rparr>" "[]"] len(2) by (simp add: pkts(2) ps_empty_def)
  show "Next ps_empty = Some ((0, [], False), ps_empty)" by (rule Next_empty) (simp add: ps_empty_def)
qed

section \<open>\<open>TestRegisterMessageTypeDuplicate\<close>\<close>

text \<open>The last registration of a number wins; \<open>r\<close> and \<open>r'\<close> are the types of the two creators.\<close>

lemma TestRegisterMessageTypeDuplicate:
  "msgCreators (RegisterMessageType 1 r' (RegisterMessageType 1 r empty_registry)) 1 = Some r'"
  by (simp add: RegisterMessageType_def)

end
