(* ===== verification/Spec2Isabelle.thy ===== *)
theory Spec2Isabelle
  imports Ring_Growth Queue_Concurrency System_Start Watch_Proxy Session_Registry Wiring_Steps Request_Path
    Node_Panics Regression_Tests
begin

text \<open>
  A verification development for dvactor, which turns the actor systems of the vactor library into a
  cluster: an actor reference carries a system id, and an envelope addressed to another system is
  serialized, framed and sent over a TCP connection to the node that runs it.

  \<^bold>\<open>The program and its parts.\<close> \<open>system.go\<close> wires everything together and holds the registry of message
  types. \<open>router.go\<close> places actors on systems by hashing and dispatches every envelope: to the local
  vactor system, to \<open>cluster_net.go\<close>, or through one of the two proxy actors (\<open>watch_proxy.go\<close>,
  \<open>request_proxy.go\<close>) where the network cannot carry a local watcher or a channel. \<open>cluster_net.go\<close>
  translates envelopes into the packages of \<open>protocol/cluster.pb.go\<close>, and knows for each other system
  whether it dials (it comes later in the configuration) or is dialled; \<open>cluster_server.go\<close> and
  \<open>cluster_client.go\<close> are the two ends of the registration that follows. Below them,
  \<open>engine/net\<close> has sessions, a network client and server, length-prefixed frames, and a socket
  connection with a sender and a receiver goroutine; \<open>engine/queue\<close> is the blocking queue between a
  connection's callers and its sender, on a ring buffer that grows.

  \<^bold>\<open>Theories, bottom up.\<close>
  \<^item> \<open>Prelude\<close>: Go's partial slice and index operations (\<open>None\<close> is a panic), big-endian integers, lists.
  \<^item> \<open>Ring_Buffer\<close>, \<open>Ring_Growth\<close> (\<open>ring_buffer.go\<close>): each method on a record with the code's fields.
    Under \<open>rb_inv\<close> no method panics and the buffer refines a list (\<open>rb_list\<close>); the doubling loop ends
    and at most doubles the memory needed.
  \<^item> \<open>Queue_Def\<close> (\<open>queue/def\<close>), a locale for what the connections rely on; \<open>Ring_Queue\<close> (\<open>queue.go\<close>,
    \<open>ringImp.go\<close>), one definition per critical section, and the locale's interpretation \<open>qq\<close>;
    \<open>Queue_Concurrency\<close>: the mutex and the condition variable as a step relation over any number of
    goroutines; no lost wake-up (\<open>wake_step\<close>: the steps that are due to waiters), first in first out,
    no panic in any interleaving.
  \<^item> \<open>Frame_Receiver\<close>, a locale for the receive loop; \<open>Packet\<close> (\<open>packet.go\<close> and the callback shared by
    client and server), its interpretation \<open>pk\<close>, round trip for any chunking and the hostile headers;
    \<open>Framing_Total\<close>: the loop on arbitrary bytes.
  \<^item> \<open>Vactor\<close>, \<open>Protocol\<close>: the interfaces of the vactor library and of protobuf, as parameters.
  \<^item> \<open>System\<close>, \<open>System_Start\<close> (\<open>system.go\<close>, \<open>error.go\<close>): registry, serialization, configuration,
    \<open>NewSystem\<close>, \<open>Start\<close>; calls to the vactor library are a list of events.
  \<^item> \<open>Placement\<close>, \<open>Dispatch\<close> (\<open>router.go\<close>, \<open>request_proxy.go\<close>): \<open>CreateActorRefEx\<close> and the proxy
    addresses; \<open>Router\<close> with the grouping of batches, where the order in which Go iterates the map is
    an argument.
  \<^item> \<open>Envelope_Codec\<close>, \<open>Cluster_Net\<close> (\<open>cluster_net.go\<close>): the two type switches, \<open>NewClusterNet\<close>, \<open>start\<close>,
    \<open>doSend\<close>, \<open>Send\<close>, \<open>OnMessage\<close>; envelopes and frames of one link arrive complete and in order.
  \<^item> \<open>Conn\<close> (\<open>socket/conn.go\<close>): one connection with its goroutines as a step relation; the network is
    the environment. \<open>Session\<close> (\<open>session\<close>, \<open>client.go\<close>, \<open>server.go\<close>, \<open>acceptor.go\<close>, \<open>connector.go\<close>): a
    heap of connections with the session or client of each.
  \<^item> \<open>Registration\<close> (\<open>cluster_server.go\<close>, \<open>cluster_client.go\<close>): a node with the goroutines of all its
    connections and clients as a step relation, \<open>node_step\<close>. \<open>Registration_Safety\<close>: every step keeps
    the node's invariant, and every connection of a node only takes steps of \<open>Conn\<close>, so that its
    theorems hold in a node. \<open>Registration_Demo\<close>: runs for the witnesses. \<open>Cluster_Start\<close>: the counter
    \<open>start\<close> waits for, the handshake (\<open>client_alone\<close>: the client's goroutine without any other step),
    stuck and self registrations. \<open>Cluster_Recovery\<close>: lost
    connections. \<open>Session_Registry\<close>: the session manager. \<open>Link_Roles\<close>: who dials, and over which
    connection a message goes out. \<open>Node_Panics\<close>: which calls panic on a running node.
  \<^item> \<open>Link_Delivery\<close>: two nodes and the TCP connection between them as a step relation,
    \<open>link_reachable\<close>; what one connection sees of its node is a state machine of its own, \<open>rx_step\<close>. \<open>Request_Path\<close>: a
    request from outside the actors to another node and its answer, through the router, the request
    proxy and the links.
  \<^item> \<open>Wiring\<close> (\<open>acceptor.go\<close>, \<open>connector.go\<close>, \<open>server.go\<close>, \<open>client.go\<close>, \<open>cluster_server.go\<close>,
    \<open>cluster_client.go\<close>): the setters, \<open>Start\<close>, \<open>Stop\<close>, \<open>Connect\<close> and the closures they install, with
    function fields that may be \<open>nil\<close>; \<open>net.Dial\<close> and \<open>net.Listen\<close> are arguments that get the network
    and the address; \<open>Wiring_Steps\<close>: what these closures do are the steps of
    \<open>node_step\<close>, and their receive loop is the one of \<open>Packet\<close>.
  \<^item> \<open>Watch_Proxy\<close> (\<open>watch_proxy.go\<close>): the two nested maps refine a set of subscriptions; the contract
    with the code that calls it is the locale \<open>synced_actor\<close>, interpreted as \<open>wpx\<close>.
  \<^item> \<open>Regression_Tests\<close>: the tests of \<open>fix_test.go\<close>, evaluated on the model.

  \<^bold>\<open>Conventions.\<close> \<open>None\<close> is a panic; an error result is a value of the result. A critical section, a
  message handler or an operation on a channel is one step, other goroutines run between steps.
  Pointers to connections are addresses (\<open>nat\<close>), a pointer to a system info is its system id. Logging,
  sleeping and keep-alive leave no trace in the model. The integer types of vactor
  are kept with their widths (\<open>int_type\<close>); \<open>uint32\<close> values are words wherever the code computes
  with them. Histories (\<open>cs_accepted\<close>, \<open>cs_written\<close>, \<open>cn_routed\<close>, \dots) record what happened and do not
  influence it.

  \<^bold>\<open>Recursion and bounds.\<close> No fuel is used. \<open>rb_reserve\<close> and \<open>OnData_loop\<close> are partial functions:
  \<open>PushBatch_growth\<close> and \<open>OnData_loop_on_any_bytes\<close> show that they return, the latter with \<open>None\<close>
  only for a panic. The theorems on frames bound buffers by $2^{32}$ bytes, the width of the length
  field; those on session ids bound the accepted connections by $2^{32}$, the width of the id. The
  waiting loop of \<open>start\<close> takes the list of values it reads and may run out of them
  (\<open>StillWaiting\<close>): the code itself may wait for ever. The liveness statements bound the runs of the
  goroutines concerned: the wake-up steps of C2, the three steps of the client's goroutine of C33.

  \<^bold>\<open>Parameters.\<close> The vactor library and the protobuf runtime are not part of the repository. vactor's
  types and constants are the record \<open>vactor_api\<close>, protobuf is \<open>proto_lib\<close> with the law \<open>proto_ok\<close>
  (what was marshalled is unmarshalled unchanged). TCP is reliable in order and may cut the stream
  anywhere; it may fail at any moment. Configured system ids are distinct (\<open>node_of\<close>) and buffer sizes
  stay below the range of Go's \<open>int\<close>, which bounds \<open>nat\<close> sizes by the memory of the machine.

  \<^bold>\<open>Properties.\<close> Their statements and numbers C1 to C40 stand in the theories, each with a concrete
  instance after it. C1 and C37: ring buffer. C2 to C4: queue. C5, C7 and C36: frames. C8, C9 and
  C11: placement. C12 and C13: message registry. C14 to C16: codec. C17 to C19: connection. C6 and C20
  to C22: links and delivery between two nodes. C10 and C31: wiring. C23 to C25: dispatch. C26: requests from outside. C29: panics of a node. C27 and
  C28: watch proxy. C30 and C32 to C35: registration. C38 and C39: lost connections. C40: session manager. Several of them state what the
  code does where it falls short of what it means to do: C7, C11, C13, C15, C16, C19, C24, C34, C35, C38,
  C39 and C40; C29 lists the panics that are left.

  \<^bold>\<open>Not modelled.\<close> The generated accessors and descriptors of \<open>cluster.pb.go\<close>, the examples and the
  tests other than \<open>fix_test.go\<close>: no program logic. \<open>RemoteAddr\<close> and the getters that only return a field: nothing in the
  program depends on them. The actors of the user and the
  scheduling of actors, which are vactor's.
\<close>

end
